(* ===== verification/Prelude.thy ===== *)
theory Prelude
  imports Main "HOL-Library.AList" "HOL-Library.Word" "HOL-Library.Char_ord"
    "HOL-Library.List_Lexorder"
begin

text \<open>
  What every component of the model shares: the error values of \<open>db/errors.go\<close>, sequencing of
  fallible steps, Go maps as association lists, the parts of Go's \<open>strings\<close>, \<open>strconv\<close>
  and \<open>sort\<close> packages the sources use, and generic lemmas on lists and association lists.

  A Go string is a sequence of bytes: an Isabelle \<open>string\<close> (a list of 8-bit characters), compared
  bytewise by the order of \<open>HOL-Library.List_Lexorder\<close>. A Go map is an association list with
  distinct keys whose order is the order in which \<open>range\<close> visits it; Go leaves that order open, so
  every theorem about a map argument covers all iteration orders.
\<close>

named_theorems alist_simps \<open>map_of and key sets of association-list operations\<close>
named_theorems result_simps \<open>case analysis of fallible results\<close>

section \<open>Errors and fallible results\<close>

text \<open>
  The sentinel errors of \<open>db/errors.go\<close>. \<open>Panicked\<close> is a Go run-time panic, \<open>ErrOther\<close>
  an error built in place with \<open>fmt.Errorf\<close> or returned by a library call.
\<close>

datatype db_error =
    ErrNotFound | ErrDuplicate | ErrCorrupt | ErrTooLarge | ErrAlreadyOpen | ErrNoID
  | ErrBadFilter | ErrUnauthorized | ErrForbidden | ErrHookCycle | ErrHookDepth | ErrExists
  | ErrOther string | Panicked string

type_synonym 'a res = "db_error + 'a"

definition and_then :: "'a res \<Rightarrow> ('a \<Rightarrow> 'b res) \<Rightarrow> 'b res" where
  "and_then r f = (case r of Inl e \<Rightarrow> Inl e | Inr x \<Rightarrow> f x)"

lemma and_then_simps [simp, result_simps]:
  "and_then (Inl e) f = Inl e"
  "and_then (Inr x) f = f x"
  by (simp_all add: and_then_def)

lemma and_then_Inr_iff [result_simps]:
  "and_then r f = Inr y \<longleftrightarrow> (\<exists>x. r = Inr x \<and> f x = Inr y)"
  by (cases r) auto

lemma and_then_Inl_iff [result_simps]:
  "and_then r f = Inl e \<longleftrightarrow> r = Inl e \<or> (\<exists>x. r = Inr x \<and> f x = Inl e)"
  by (cases r) auto

lemma and_then_cong [fundef_cong]:
  "r = r' \<Longrightarrow> (\<And>x. r' = Inr x \<Longrightarrow> f x = f' x) \<Longrightarrow> and_then r f = and_then r' f'"
  by (cases r') (auto simp: and_then_def)

section \<open>Go maps\<close>

type_synonym 'v gomap = "(string \<times> 'v) list"

abbreviation keys :: "('k \<times> 'v) list \<Rightarrow> 'k set" where
  "keys m \<equiv> fst ` set m"

definition mput :: "'k \<Rightarrow> 'v \<Rightarrow> ('k \<times> 'v) list \<Rightarrow> ('k \<times> 'v) list" where
  "mput k v m = AList.update k v m"

definition mdel :: "'k \<Rightarrow> ('k \<times> 'v) list \<Rightarrow> ('k \<times> 'v) list" where
  "mdel k m = AList.delete k m"

definition distinct_keys :: "('k \<times> 'v) list \<Rightarrow> bool" where
  "distinct_keys m \<longleftrightarrow> distinct (map fst m)"

lemma map_of_mput [simp, alist_simps]: "map_of (mput k v m) = (map_of m)(k \<mapsto> v)"
  by (simp add: mput_def update_conv')

lemma map_of_mdel [simp, alist_simps]: "map_of (mdel k m) = (map_of m)(k := None)"
  by (simp add: mdel_def delete_conv')

lemma keys_mput [simp, alist_simps]: "keys (mput k v m) = insert k (keys m)"
  by (simp add: mput_def dom_update)

lemma keys_mdel [simp, alist_simps]: "keys (mdel k m) = keys m - {k}"
  by (auto simp: mdel_def AList.delete_eq)

lemma set_mdel: "set (mdel k m) = {p \<in> set m. fst p \<noteq> k}"
  by (auto simp: mdel_def AList.delete_eq)

lemma distinct_keys_Nil [simp]: "distinct_keys []"
  by (simp add: distinct_keys_def)

lemma distinct_keys_mput [simp, intro]: "distinct_keys m \<Longrightarrow> distinct_keys (mput k v m)"
  by (simp add: distinct_keys_def mput_def distinct_update)

lemma distinct_keys_mdel [simp, intro]: "distinct_keys m \<Longrightarrow> distinct_keys (mdel k m)"
  by (simp add: distinct_keys_def mdel_def distinct_delete)

lemma distinct_keys_map_of_iff:
  "distinct_keys m \<Longrightarrow> map_of m k = Some v \<longleftrightarrow> (k, v) \<in> set m"
  by (auto simp: distinct_keys_def dest: map_of_SomeD)

lemma mput_absent: "k \<notin> keys m \<Longrightarrow> mput k v m = m @ [(k, v)]"
  by (induction m) (auto simp: mput_def)

lemma mdel_absent: "k \<notin> keys m \<Longrightarrow> mdel k m = m"
  by (simp add: mdel_def)

lemma set_mput:
  "distinct_keys m \<Longrightarrow> set (mput k v m) = insert (k, v) {p \<in> set m. fst p \<noteq> k}"
  by (induction m) (force simp: mput_def distinct_keys_def)+

lemma map_of_dom_keys: "dom (map_of m) = keys m"
  by (simp add: dom_map_of_conv_image_fst)

lemma map_of_None_keys: "map_of m k = None \<longleftrightarrow> k \<notin> keys m"
  by (simp add: map_of_eq_None_iff)

section \<open>Strings\<close>

text \<open>\<open>strings.HasPrefix\<close>, \<open>strings.Contains\<close> of one byte and \<open>strings.Split\<close> at one byte.\<close>

definition has_prefix :: "string \<Rightarrow> string \<Rightarrow> bool" where
  "has_prefix s p \<longleftrightarrow> take (length p) s = p"

lemma has_prefix_append [simp]: "has_prefix (p @ s) p"
  by (simp add: has_prefix_def)

lemma has_prefix_iff: "has_prefix s p \<longleftrightarrow> (\<exists>t. s = p @ t)"
  by (metis append_take_drop_id has_prefix_append has_prefix_def)

fun split_on :: "char \<Rightarrow> string \<Rightarrow> string list" where
  "split_on c [] = [[]]"
| "split_on c (x # xs) =
     (if x = c then [] # split_on c xs
      else (case split_on c xs of [] \<Rightarrow> [[x]] | p # ps \<Rightarrow> (x # p) # ps))"

lemma split_on_nonempty [simp]: "split_on c s \<noteq> []"
  by (induction s) (auto split: list.splits)

lemma split_on_absent: "c \<notin> set s \<Longrightarrow> split_on c s = [s]"
  by (induction s) auto

fun join_with :: "string \<Rightarrow> string list \<Rightarrow> string" where
  "join_with sep [] = []"
| "join_with sep [s] = s"
| "join_with sep (s # t # ss) = s @ sep @ join_with sep (t # ss)"

lemma split_on_append: "c \<notin> set s \<Longrightarrow> split_on c (s @ c # t) = s # split_on c t"
  by (induction s) auto

lemma join_split_on: "join_with [c] (split_on c s) = s"
proof (induction s)
  case (Cons x s)
  then show ?case
    by (cases "split_on c s") (auto split: list.splits, (cases "tl (split_on c s)", auto)+)
qed simp

text \<open>\<open>strconv.Itoa\<close> on a non-negative number, and the value of a digit string.\<close>

definition digit_char :: "nat \<Rightarrow> char" where
  "digit_char d = char_of (48 + d)"

definition char_digit :: "char \<Rightarrow> nat" where
  "char_digit c = of_char c - 48"

fun itoa :: "nat \<Rightarrow> string" where
  "itoa n = (if n < 10 then [digit_char n] else itoa (n div 10) @ [digit_char (n mod 10)])"

declare itoa.simps [simp del]

definition digits_val :: "string \<Rightarrow> nat" where
  "digits_val s = foldl (\<lambda>a c. 10 * a + char_digit c) 0 s"

definition is_digit :: "char \<Rightarrow> bool" where
  "is_digit c \<longleftrightarrow> 48 \<le> (of_char c :: nat) \<and> (of_char c :: nat) \<le> 57"

lemma of_digit_char [simp]: "d < 10 \<Longrightarrow> (of_char (digit_char d) :: nat) = 48 + d"
  by (simp add: digit_char_def)

lemma is_digit_digit_char [simp]: "d < 10 \<Longrightarrow> is_digit (digit_char d)"
  by (simp add: is_digit_def)

lemma char_digit_digit_char [simp]: "d < 10 \<Longrightarrow> char_digit (digit_char d) = d"
  by (simp add: char_digit_def)

lemma digits_val_snoc [simp]: "digits_val (s @ [c]) = 10 * digits_val s + char_digit c"
  by (simp add: digits_val_def)

lemma digits_val_itoa [simp]: "digits_val (itoa n) = n"
proof (induction n rule: itoa.induct)
  case (1 n)
  show ?case
  proof (cases "n < 10")
    case True
    then show ?thesis by (subst itoa.simps) (simp add: digits_val_def)
  next
    case False
    with "1.IH" show ?thesis by (subst itoa.simps) simp
  qed
qed

lemma itoa_inject [simp]: "itoa m = itoa n \<longleftrightarrow> m = n"
  by (metis digits_val_itoa)

lemma itoa_digits: "\<forall>c \<in> set (itoa n). is_digit c"
proof (induction n rule: itoa.induct)
  case (1 n)
  show ?case
  proof (cases "n < 10")
    case True
    then show ?thesis by (subst itoa.simps) simp
  next
    case False
    with "1.IH" show ?thesis by (subst itoa.simps) auto
  qed
qed

lemma itoa_nonempty [simp]: "itoa n \<noteq> []"
  by (subst itoa.simps) simp

text \<open>\<open>strconv.FormatInt(_, 10)\<close>.\<close>

definition itoa_int :: "int \<Rightarrow> string" where
  "itoa_int i = (if i < 0 then ''-'' @ itoa (nat (- i)) else itoa (nat i))"

lemma itoa_not_minus: "itoa n \<noteq> CHR ''-'' # s"
proof
  assume "itoa n = CHR ''-'' # s"
  then have "is_digit (CHR ''-'')" using itoa_digits [of n] by simp
  then show False by (simp add: is_digit_def)
qed

lemma itoa_int_inject: "itoa_int i = itoa_int j \<Longrightarrow> i = j"
  using itoa_not_minus [of "nat i"] itoa_not_minus [of "nat j"]
  by (auto simp: itoa_int_def split: if_splits dest: sym)

section \<open>Binary search: sort.Search\<close>

text \<open>
  \<open>sort.Search(n, f)\<close> of Go's library: the least index in \<open>[0, n)\<close> at which the monotone predicate
  holds, \<open>n\<close> when there is none. The loop of the library is kept, with its midpoint.
\<close>

function search_from :: "(nat \<Rightarrow> bool) \<Rightarrow> nat \<Rightarrow> nat \<Rightarrow> nat" where
  "search_from f i j =
     (if i < j
      then let h = (i + j) div 2 in if \<not> f h then search_from f (h + 1) j else search_from f i h
      else i)"
  by pat_completeness auto
termination
  by (relation "measure (\<lambda>(f, i, j). j - i)") auto

declare search_from.simps [simp del]

definition sort_search :: "nat \<Rightarrow> (nat \<Rightarrow> bool) \<Rightarrow> nat" where
  "sort_search n f = search_from f 0 n"

definition mono_pred :: "nat \<Rightarrow> (nat \<Rightarrow> bool) \<Rightarrow> bool" where
  "mono_pred n f \<longleftrightarrow> (\<forall>i j. i \<le> j \<longrightarrow> j < n \<longrightarrow> f i \<longrightarrow> f j)"

lemma search_from_correct:
  assumes "mono_pred n f" and "i \<le> j" and "j \<le> n"
    and "\<forall>k < i. \<not> f k" and "\<forall>k. j \<le> k \<longrightarrow> k < n \<longrightarrow> f k"
  shows "search_from f i j \<le> n \<and> (\<forall>k < search_from f i j. \<not> f k) \<and>
    (\<forall>k. search_from f i j \<le> k \<longrightarrow> k < n \<longrightarrow> f k)"
  using assms
proof (induction f i j rule: search_from.induct)
  case (1 f i j)
  show ?case
  proof (cases "i < j")
    case False
    then have "search_from f i j = i" by (simp add: search_from.simps [of f i j])
    with False "1.prems" show ?thesis by auto
  next
    case True
    define h where "h = (i + j) div 2"
    have h: "i \<le> h" "h < j" using True by (auto simp: h_def)
    show ?thesis
    proof (cases "f h")
      case False
      have "h < n" using h "1.prems"(3) by simp
      then have "\<forall>k < h + 1. \<not> f k"
        using False "1.prems"(1) unfolding mono_pred_def by (metis Suc_eq_plus1 less_Suc_eq_le)
      then have "search_from f (h + 1) j \<le> n \<and> (\<forall>k < search_from f (h + 1) j. \<not> f k) \<and>
          (\<forall>k. search_from f (h + 1) j \<le> k \<longrightarrow> k < n \<longrightarrow> f k)"
        by (intro "1.IH"(1) [OF True h_def False "1.prems"(1) _ "1.prems"(3) _ "1.prems"(5)])
          (use h in simp_all)
      moreover have "search_from f i j = search_from f (h + 1) j"
        using True False by (simp add: search_from.simps [of f i j] h_def Let_def)
      ultimately show ?thesis by simp
    next
      case True': True
      have "\<forall>k. h \<le> k \<longrightarrow> k < n \<longrightarrow> f k"
        using True' "1.prems"(1) by (auto simp: mono_pred_def)
      then have "search_from f i h \<le> n \<and> (\<forall>k < search_from f i h. \<not> f k) \<and>
          (\<forall>k. search_from f i h \<le> k \<longrightarrow> k < n \<longrightarrow> f k)"
        by (intro "1.IH"(2) [OF True h_def _ "1.prems"(1) h(1) _ "1.prems"(4)])
          (use h True' "1.prems"(3) in simp_all)
      moreover have "search_from f i j = search_from f i h"
        using True True' by (simp add: search_from.simps [of f i j] h_def Let_def)
      ultimately show ?thesis by simp
    qed
  qed
qed

lemma sort_search_correct:
  assumes "mono_pred n f"
  shows "sort_search n f \<le> n" and "k < sort_search n f \<Longrightarrow> \<not> f k"
    and "sort_search n f \<le> k \<Longrightarrow> k < n \<Longrightarrow> f k"
  using search_from_correct [OF assms, of 0 n] by (auto simp: sort_search_def)

lemma sort_search_le [simp]: "sort_search n f \<le> n"
proof -
  have "i \<le> j \<Longrightarrow> search_from f i j \<le> j" for i j
  proof (induction f i j rule: search_from.induct)
    case (1 f i j)
    then show ?case by (subst search_from.simps) (fastforce simp: Let_def)
  qed
  then show ?thesis by (simp add: sort_search_def)
qed

lemma sort_search_iff:
  assumes "mono_pred n f" and "k < n"
  shows "sort_search n f \<le> k \<longleftrightarrow> f k"
  using sort_search_correct [OF assms(1)] assms(2) by (meson not_le)

end
