(* ===== verification/Float64.thy ===== *)
theory Float64
  imports Prelude
begin

text \<open>
  Go's \<open>float64\<close>: IEEE 754 binary64 values as their 64 bits (\<open>math.Float64bits\<close>), with the
  comparisons, conversions and arithmetic the sources use and the decimal text of
  \<open>strconv.FormatFloat(f, 'g', -1, 64)\<close> and \<open>strconv.ParseFloat\<close>.

  Magnitudes are counted in units of the least positive value, \<open>2^-1074\<close>: a finite value with
  exponent field \<open>e\<close> and fraction \<open>f\<close> is \<open>f64_units\<close> of them, a natural number, so every
  rounding is a division of natural numbers (to nearest, ties to even).
\<close>

type_synonym f64 = "64 word"

section \<open>Fields and classes\<close>

definition f64_neg :: "f64 \<Rightarrow> bool" where
  "f64_neg x \<longleftrightarrow> 2 ^ 63 \<le> unat x"

definition f64_mag :: "f64 \<Rightarrow> nat" where
  "f64_mag x = unat x mod 2 ^ 63"

definition inf_mag :: nat where
  "inf_mag = 2047 * 2 ^ 52"

definition f64_is_nan :: "f64 \<Rightarrow> bool" where
  "f64_is_nan x \<longleftrightarrow> inf_mag < f64_mag x"

definition f64_is_inf :: "f64 \<Rightarrow> bool" where
  "f64_is_inf x \<longleftrightarrow> f64_mag x = inf_mag"

definition f64_finite :: "f64 \<Rightarrow> bool" where
  "f64_finite x \<longleftrightarrow> f64_mag x < inf_mag"

definition f64_pack :: "bool \<Rightarrow> nat \<Rightarrow> f64" where
  "f64_pack neg mag = word_of_nat ((if neg then 2 ^ 63 else 0) + mag)"

lemma unat_of_nat_64: "n < 2 ^ 64 \<Longrightarrow> unat (word_of_nat n :: f64) = n"
  by (simp add: unat_of_nat)

lemma unat_f64_pack: "mag < 2 ^ 63 \<Longrightarrow> unat (f64_pack neg mag) = (if neg then 2 ^ 63 else 0) + mag"
  unfolding f64_pack_def by (rule unat_of_nat_64) simp

lemma f64_pack_mag [simp]: "mag < 2 ^ 63 \<Longrightarrow> f64_mag (f64_pack neg mag) = mag"
  unfolding f64_mag_def by (simp only: unat_f64_pack) simp

lemma f64_pack_neg [simp]: "mag < 2 ^ 63 \<Longrightarrow> f64_neg (f64_pack neg mag) = neg"
  unfolding f64_neg_def by (simp only: unat_f64_pack) simp

lemma f64_unat: "unat x = (if f64_neg x then 2 ^ 63 else 0) + f64_mag x"
proof (cases "2 ^ 63 \<le> unat x")
  case True
  have "unat x < 2 ^ 64" using unsigned_less [of x, where ?'a = nat] by simp
  then have "unat x - 2 ^ 63 < 2 ^ 63" by simp
  then have "f64_mag x = unat x - 2 ^ 63"
    using True by (simp add: f64_mag_def le_mod_geq)
  with True show ?thesis by (simp add: f64_neg_def)
qed (simp add: f64_neg_def f64_mag_def)

lemma f64_pack_unpack [simp]: "f64_pack (f64_neg x) (f64_mag x) = x"
  unfolding f64_pack_def by (simp only: f64_unat [symmetric] of_nat_unat ucast_id)

lemma f64_eqI: "f64_neg x = f64_neg y \<Longrightarrow> f64_mag x = f64_mag y \<Longrightarrow> x = y"
  by (rule trans [OF f64_pack_unpack [symmetric]], rule trans [OF _ f64_pack_unpack]) simp

section \<open>Comparison\<close>

text \<open>
  On values that are not NaN the IEEE order is the order of the sign-magnitude integers: both
  zeros have key 0, the infinities are the extremes.
\<close>

definition f64_key :: "f64 \<Rightarrow> int" where
  "f64_key x = (if f64_neg x then - int (f64_mag x) else int (f64_mag x))"

definition f64_eq :: "f64 \<Rightarrow> f64 \<Rightarrow> bool" where
  "f64_eq x y \<longleftrightarrow> \<not> f64_is_nan x \<and> \<not> f64_is_nan y \<and> f64_key x = f64_key y"

definition f64_lt :: "f64 \<Rightarrow> f64 \<Rightarrow> bool" where
  "f64_lt x y \<longleftrightarrow> \<not> f64_is_nan x \<and> \<not> f64_is_nan y \<and> f64_key x < f64_key y"

lemma f64_trichotomy:
  "\<not> f64_is_nan x \<Longrightarrow> \<not> f64_is_nan y \<Longrightarrow> f64_lt x y \<or> f64_eq x y \<or> f64_lt y x"
  by (auto simp: f64_eq_def f64_lt_def)

lemma f64_lt_trans: "f64_lt x y \<Longrightarrow> f64_lt y z \<Longrightarrow> f64_lt x z"
  by (auto simp: f64_lt_def)

lemma f64_lt_irrefl [simp]: "\<not> f64_lt x x"
  by (simp add: f64_lt_def)

lemma f64_eq_bits: "f64_eq x y \<longleftrightarrow> \<not> f64_is_nan x \<and> \<not> f64_is_nan y \<and>
    (x = y \<or> f64_mag x = 0 \<and> f64_mag y = 0)"
proof
  assume "f64_eq x y"
  then have "\<not> f64_is_nan x" "\<not> f64_is_nan y" and k: "f64_key x = f64_key y"
    by (auto simp: f64_eq_def)
  moreover have "x = y \<or> f64_mag x = 0 \<and> f64_mag y = 0"
    using k f64_eqI [of x y] by (cases "f64_neg x"; cases "f64_neg y") (simp_all add: f64_key_def)
  ultimately show "\<not> f64_is_nan x \<and> \<not> f64_is_nan y \<and> (x = y \<or> f64_mag x = 0 \<and> f64_mag y = 0)"
    by blast
qed (auto simp: f64_eq_def f64_key_def)

section \<open>Exact value and rounding\<close>

definition unit_den :: nat where
  "unit_den = 2 ^ 1074"

lemma unit_den_pos [simp]: "0 < unit_den"
  unfolding unit_den_def by (rule zero_less_power) simp

definition f64_expo :: "f64 \<Rightarrow> nat" where
  "f64_expo x = f64_mag x div 2 ^ 52"

definition f64_frac :: "f64 \<Rightarrow> nat" where
  "f64_frac x = f64_mag x mod 2 ^ 52"

definition mant_of :: "nat \<Rightarrow> nat" where
  "mant_of mag = (if mag < 2 ^ 52 then mag else 2 ^ 52 + mag mod 2 ^ 52)"

definition scale_of :: "nat \<Rightarrow> nat" where
  "scale_of mag = mag div 2 ^ 52 - 1"

definition units_of :: "nat \<Rightarrow> nat" where
  "units_of mag = mant_of mag * 2 ^ scale_of mag"

definition f64_units :: "f64 \<Rightarrow> nat" where
  "f64_units x = units_of (f64_mag x)"

fun bitlen :: "nat \<Rightarrow> nat" where
  "bitlen n = (if n = 0 then 0 else Suc (bitlen (n div 2)))"

declare bitlen.simps [simp del]

definition round_half_even :: "nat \<Rightarrow> nat \<Rightarrow> nat" where
  "round_half_even n d =
     (let q = n div d; r = n mod d
      in if 2 * r < d then q else if d < 2 * r then q + 1 else if even q then q else q + 1)"

text \<open>
  The magnitude bits of the double nearest to \<open>n / d\<close> units: scale so that 53 bits remain, round,
  and add the exponent; a carry out of the 53 bits moves into the exponent field by itself, and
  whatever reaches the exponent field of infinity is infinity.
\<close>

definition round_mag :: "nat \<Rightarrow> nat \<Rightarrow> nat" where
  "round_mag n d =
     (let s = bitlen (n div d) - 53
      in min inf_mag (round_half_even n (d * 2 ^ s) + s * 2 ^ 52))"

lemma round_mag_less [simp]: "round_mag n d < 2 ^ 63"
  by (auto simp: round_mag_def Let_def inf_mag_def min_def)

lemma bitlen_0 [simp]: "bitlen 0 = 0"
  by (simp add: bitlen.simps)

lemma bitlen_double: "0 < n \<Longrightarrow> bitlen (n * 2 ^ k) = bitlen n + k"
proof (induction k)
  case (Suc k)
  have "bitlen (n * 2 ^ Suc k) = Suc (bitlen (n * 2 ^ Suc k div 2))"
    using Suc.prems by (subst bitlen.simps) simp
  also have "n * 2 ^ Suc k div 2 = n * 2 ^ k" by simp
  finally show ?case using Suc by simp
qed simp

lemma bitlen_range: "0 < n \<Longrightarrow> 2 ^ (bitlen n - 1) \<le> n \<and> n < 2 ^ bitlen n"
proof (induction n rule: bitlen.induct)
  case (1 n)
  show ?case
  proof (cases "n div 2 = 0")
    case True
    then have "n = 1" using "1.prems" by linarith
    then show ?thesis by (simp add: bitlen.simps)
  next
    case False
    then have IH: "2 ^ (bitlen (n div 2) - 1) \<le> n div 2 \<and> n div 2 < 2 ^ bitlen (n div 2)"
      using "1.IH" "1.prems" by simp
    have pos: "0 < bitlen (n div 2)" using False by (subst bitlen.simps) simp
    have b: "bitlen n = Suc (bitlen (n div 2))" using "1.prems" by (subst bitlen.simps) simp
    have "(2::nat) ^ bitlen (n div 2) = 2 * 2 ^ (bitlen (n div 2) - 1)"
      using pos by (simp flip: power_Suc)
    then show ?thesis using IH b by (simp only: diff_Suc_1 power_Suc) linarith
  qed
qed

lemma bitlen_le: "n < 2 ^ k \<Longrightarrow> bitlen n \<le> k"
proof (cases "n = 0")
  case False
  assume "n < 2 ^ k"
  then have "2 ^ (bitlen n - 1) < (2::nat) ^ k"
    using bitlen_range [of n] False by (meson le_less_trans not_gr0)
  then have "bitlen n - 1 < k" by simp
  then show ?thesis by simp
qed simp

lemma bitlen_eq: "2 ^ (k - 1) \<le> n \<Longrightarrow> n < 2 ^ k \<Longrightarrow> 0 < k \<Longrightarrow> bitlen n = k"
proof -
  assume a: "2 ^ (k - 1) \<le> n" "n < 2 ^ k" "0 < k"
  then have "0 < n" by (metis gr_zeroI le_zero_eq power_not_zero zero_neq_numeral)
  then have "2 ^ (k - 1) < (2::nat) ^ bitlen n" using bitlen_range [of n] a by linarith
  then have "k - 1 < bitlen n" by simp
  with bitlen_le [OF a(2)] a(3) show ?thesis by simp
qed

lemma round_half_even_exact [simp]: "0 < d \<Longrightarrow> round_half_even (m * d) d = m"
  by (simp add: round_half_even_def)

text \<open>Rounding an exactly representable ratio gives its own bits back.\<close>

lemma round_mag_units:
  assumes "mag < inf_mag" and "0 < d"
  shows "round_mag (units_of mag * d) d = mag"
proof (cases "mag < 2 ^ 52")
  case True
  then have u: "units_of mag = mag" by (simp add: units_of_def mant_of_def scale_of_def)
  have "bitlen mag \<le> 53" using True bitlen_le [of mag 52] by simp
  then show ?thesis using assms True u by (simp add: round_mag_def inf_mag_def)
next
  case False
  define s where "s = scale_of mag"
  define m where "m = mant_of mag"
  have m: "m = 2 ^ 52 + mag mod 2 ^ 52" using False by (simp add: m_def mant_of_def)
  have "mag mod 2 ^ 52 < 2 ^ 52" by simp
  then have b: "bitlen m = 53" using m by (intro bitlen_eq) simp_all
  have "0 < m" using m by simp
  then have bs: "bitlen (m * 2 ^ s) - 53 = s" using b by (simp add: bitlen_double)
  have "1 \<le> mag div 2 ^ 52" using False by (simp add: Suc_leI div_greater_zero_iff)
  then have "s * 2 ^ 52 + 2 ^ 52 = mag div 2 ^ 52 * 2 ^ 52"
    unfolding s_def scale_of_def by (metis add.commute le_add_diff_inverse mult_Suc plus_1_eq_Suc)
  then have "m + s * 2 ^ 52 = mag div 2 ^ 52 * 2 ^ 52 + mag mod 2 ^ 52" using m by linarith
  then have mag: "m + s * 2 ^ 52 = mag" by (simp only: div_mult_mod_eq)
  have u: "units_of mag * d = m * (d * 2 ^ s)" by (simp add: units_of_def m_def s_def)
  have "units_of mag * d div d = m * 2 ^ s" using assms by (simp add: units_of_def m_def s_def)
  then have "round_mag (units_of mag * d) d = min inf_mag (m + s * 2 ^ 52)"
    using assms bs by (simp add: round_mag_def Let_def u)
  then show ?thesis using mag assms(1) by simp
qed

text \<open>Only the ratio matters, not how it is written.\<close>

lemma round_half_even_ratio:
  "0 < k \<Longrightarrow> round_half_even (n * k) (d * k) = round_half_even n d"
  by (simp add: round_half_even_def Let_def mod_mult_mult2)

lemma round_mag_ratio: "0 < k \<Longrightarrow> round_mag (n * k) (d * k) = round_mag n d"
  using round_half_even_ratio [of k n "d * 2 ^ (bitlen (n div d) - 53)"]
  by (simp add: round_mag_def Let_def mult.assoc mult.commute [of _ k] mult.left_commute [of _ k])

lemma round_mag_cross:
  assumes "n * d' = n' * d" and "0 < d" and "0 < d'"
  shows "round_mag n d = round_mag n' d'"
proof -
  have "round_mag n d = round_mag (n * d') (d * d')" using assms(3) by (rule round_mag_ratio [symmetric])
  also have "\<dots> = round_mag (n' * d) (d' * d)" by (simp only: assms(1) mult.commute [of d d'])
  also have "\<dots> = round_mag n' d'" using assms(2) by (rule round_mag_ratio)
  finally show ?thesis .
qed

section \<open>Conversion and arithmetic\<close>

definition f64_of_ratio :: "bool \<Rightarrow> nat \<Rightarrow> nat \<Rightarrow> f64" where
  "f64_of_ratio neg n d = f64_pack neg (round_mag n d)"

definition f64_nan :: f64 where
  "f64_nan = f64_pack False (inf_mag + 2 ^ 51)"

definition f64_inf :: "bool \<Rightarrow> f64" where
  "f64_inf neg = f64_pack neg inf_mag"

text \<open>\<open>float64(i)\<close> for an integer.\<close>

definition f64_of_int :: "int \<Rightarrow> f64" where
  "f64_of_int i = f64_of_ratio (i < 0) (nat \<bar>i\<bar> * unit_den) 1"

definition f64_sunits :: "f64 \<Rightarrow> int" where
  "f64_sunits x = (if f64_neg x then - int (f64_units x) else int (f64_units x))"

text \<open>The truncated integer value of a finite double.\<close>

definition f64_trunc_int :: "f64 \<Rightarrow> int" where
  "f64_trunc_int x = (let q = int (f64_units x div unit_den) in if f64_neg x then - q else q)"

definition f64_is_integer :: "f64 \<Rightarrow> bool" where
  "f64_is_integer x \<longleftrightarrow> f64_finite x \<and> f64_units x mod unit_den = 0"

definition f64_add :: "f64 \<Rightarrow> f64 \<Rightarrow> f64" where
  "f64_add x y =
     (if f64_is_nan x \<or> f64_is_nan y then f64_nan
      else if f64_is_inf x then (if f64_is_inf y \<and> f64_neg x \<noteq> f64_neg y then f64_nan else x)
      else if f64_is_inf y then y
      else let t = f64_sunits x + f64_sunits y
           in if t = 0 then f64_pack (f64_neg x \<and> f64_neg y) 0
              else f64_of_ratio (t < 0) (nat \<bar>t\<bar>) 1)"

definition f64_mul :: "f64 \<Rightarrow> f64 \<Rightarrow> f64" where
  "f64_mul x y =
     (if f64_is_nan x \<or> f64_is_nan y then f64_nan
      else let neg = (f64_neg x \<noteq> f64_neg y) in
        if f64_is_inf x \<or> f64_is_inf y
        then (if f64_mag x = 0 \<or> f64_mag y = 0 then f64_nan else f64_inf neg)
        else f64_of_ratio neg (f64_units x * f64_units y) unit_den)"

lemma round_mag_le_inf [simp]: "round_mag n d \<le> inf_mag"
  by (simp add: round_mag_def Let_def)

lemma inf_mag_less [simp]: "inf_mag < 2 ^ 63"
  by (simp add: inf_mag_def)

lemma f64_of_ratio_not_nan [simp]: "\<not> f64_is_nan (f64_of_ratio neg n d)"
  unfolding f64_is_nan_def f64_of_ratio_def
  by (simp only: f64_pack_mag round_mag_less not_less round_mag_le_inf)

lemma f64_of_int_not_nan [simp]: "\<not> f64_is_nan (f64_of_int i)"
  by (simp add: f64_of_int_def)

end
