(* ===== verification/Values.thy ===== *)
theory Values
  imports Float64
begin

text \<open>
  The values a document holds: Go's \<open>any\<close> over the dynamic types the sources handle, with the
  numeric conversion, equality and comparison of \<open>db/store.go\<close>.

  \<open>JDoc\<close> is a \<open>Document\<close>, \<open>JMap\<close> a \<open>map[string]any\<close>, \<open>JArr\<close> a \<open>[]any\<close>, \<open>JDocs\<close> a
  \<open>[]Document\<close> and \<open>JStrs\<close> a \<open>[]string\<close>: the sources tell them apart by type switches.
  Integers carry the kind of their Go type. Other dynamic types (\<open>float32\<close>, \<open>time.Time\<close>,
  \<open>[]byte\<close>) and nil maps and slices are outside the model.
\<close>

section \<open>Values\<close>

datatype int_kind = KInt | KInt32 | KInt64 | KUint | KUint64

datatype jval =
    JNull
  | JBool bool
  | JF64 f64
  | JInt int_kind int
  | JStr string
  | JArr "jval list"
  | JDoc "(string \<times> jval) list"
  | JMap "(string \<times> jval) list"
  | JDocs "(string \<times> jval) list list"
  | JStrs "string list"

type_synonym document = "(string \<times> jval) list"

text \<open>A size that shrinks when recursion goes into a container, for termination proofs.\<close>

primrec jsize :: "jval \<Rightarrow> nat" where
  "jsize JNull = 1"
| "jsize (JBool b) = 1"
| "jsize (JF64 f) = 1"
| "jsize (JInt k i) = 1"
| "jsize (JStr s) = 1"
| "jsize (JArr xs) = Suc (sum_list (map jsize xs))"
| "jsize (JDoc m) = Suc (sum_list (map (\<lambda>p. Suc (snd p)) (map (map_prod id jsize) m)))"
| "jsize (JMap m) = Suc (sum_list (map (\<lambda>p. Suc (snd p)) (map (map_prod id jsize) m)))"
| "jsize (JDocs ds) =
     Suc (sum_list (map (\<lambda>m. 2 + sum_list (map (\<lambda>p. Suc (snd p)) m)) (map (map (map_prod id jsize)) ds)))"
| "jsize (JStrs ss) = 1"

definition docsize :: "document \<Rightarrow> nat" where
  "docsize m = sum_list (map (\<lambda>p. Suc (jsize (snd p))) m)"

lemma docsize_simps [simp]:
  "docsize [] = 0" "docsize (p # m) = Suc (jsize (snd p)) + docsize m"
  by (simp_all add: docsize_def)

lemma jsize_containers [simp]:
  "jsize (JDoc m) = Suc (docsize m)" "jsize (JMap m) = Suc (docsize m)"
  "jsize (JDocs ds) = Suc (sum_list (map (\<lambda>m. 2 + docsize m) ds))"
  by (simp_all add: docsize_def comp_def)

declare jsize.simps(7-9) [simp del]

lemma jsize_pos [simp]: "0 < jsize v"
  by (cases v) auto

lemma jsize_elem [termination_simp]: "x \<in> set xs \<Longrightarrow> jsize x < Suc (sum_list (map jsize xs))"
  by (induction xs) auto

lemma docsize_elem [termination_simp]: "(k, v) \<in> set m \<Longrightarrow> jsize v < docsize m"
  by (induction m) auto

lemma docsize_map_of: "map_of m k = Some v \<Longrightarrow> jsize v < docsize m"
  by (auto dest: map_of_SomeD docsize_elem)

section \<open>Numbers, equality, comparison (db/store.go)\<close>

text \<open>\<open>toFloat\<close>: the numeric dynamic types as \<open>float64\<close>.\<close>

definition to_float :: "jval \<Rightarrow> f64 option" where
  "to_float v = (case v of JF64 f \<Rightarrow> Some f | JInt k i \<Rightarrow> Some (f64_of_int i)
     | _ \<Rightarrow> None)"

lemma to_float_simps [simp]:
  "to_float JNull = None" "to_float (JBool b) = None" "to_float (JF64 f) = Some f"
  "to_float (JInt k i) = Some (f64_of_int i)"
  "to_float (JStr s) = None" "to_float (JArr xs) = None" "to_float (JDoc m) = None"
  "to_float (JMap m) = None" "to_float (JDocs ds) = None" "to_float (JStrs ss) = None"
  by (simp_all add: to_float_def)

text \<open>
  Go's \<open>==\<close> on interfaces: false for different dynamic types, the comparison of the dynamic type
  otherwise, and a run-time panic for two maps or two slices of the same type.
\<close>

definition go_eq :: "jval \<Rightarrow> jval \<Rightarrow> bool res" where
  "go_eq a b = (case (a, b) of
     (JNull, JNull) \<Rightarrow> Inr True
   | (JBool x, JBool y) \<Rightarrow> Inr (x = y)
   | (JF64 x, JF64 y) \<Rightarrow> Inr (f64_eq x y)
   | (JInt k i, JInt k' j) \<Rightarrow> Inr (k = k' \<and> i = j)
   | (JStr s, JStr t) \<Rightarrow> Inr (s = t)
   | (JArr _, JArr _) \<Rightarrow> Inl (Panicked ''comparing uncomparable type'')
   | (JDoc _, JDoc _) \<Rightarrow> Inl (Panicked ''comparing uncomparable type'')
   | (JMap _, JMap _) \<Rightarrow> Inl (Panicked ''comparing uncomparable type'')
   | (JDocs _, JDocs _) \<Rightarrow> Inl (Panicked ''comparing uncomparable type'')
   | (JStrs _, JStrs _) \<Rightarrow> Inl (Panicked ''comparing uncomparable type'')
   | _ \<Rightarrow> Inr False)"

text \<open>\<open>equalJSON\<close>: numbers across their types, everything else with \<open>==\<close>.\<close>

definition equalJSON :: "jval \<Rightarrow> jval \<Rightarrow> bool res" where
  "equalJSON a b = (case (to_float a, to_float b) of
     (Some x, Some y) \<Rightarrow> Inr (f64_eq x y)
   | _ \<Rightarrow> go_eq a b)"

definition sign3 :: "bool \<Rightarrow> bool \<Rightarrow> int" where
  "sign3 lt gt = (if lt then -1 else if gt then 1 else 0)"

text \<open>\<open>compareValues\<close>: numbers, then strings, then nil below everything, else 0.\<close>

definition compareValues :: "jval \<Rightarrow> jval \<Rightarrow> int" where
  "compareValues a b =
     (case (to_float a, to_float b) of
        (Some x, Some y) \<Rightarrow> sign3 (f64_lt x y) (f64_lt y x)
      | _ \<Rightarrow> (case (a, b) of
          (JStr s, JStr t) \<Rightarrow> sign3 (s < t) (t < s)
        | (JNull, JNull) \<Rightarrow> 0
        | (JNull, _) \<Rightarrow> -1
        | (_, JNull) \<Rightarrow> 1
        | _ \<Rightarrow> 0))"

section \<open>Scalars\<close>

text \<open>
  A scalar is a value whose equality never panics: null, a bool, a number that is not NaN or a
  string. These are the values for which an index key determines equality.
\<close>

definition is_scalar :: "jval \<Rightarrow> bool" where
  "is_scalar v = (case v of JNull \<Rightarrow> True | JBool _ \<Rightarrow> True | JStr _ \<Rightarrow> True
     | _ \<Rightarrow> (case to_float v of Some f \<Rightarrow> \<not> f64_is_nan f | None \<Rightarrow> False))"

lemma equalJSON_scalar_total: "is_scalar b \<Longrightarrow> \<exists>r. equalJSON a b = Inr r"
  by (cases a; cases b) (auto simp: equalJSON_def go_eq_def is_scalar_def)

lemma equalJSON_refl: "is_scalar a \<Longrightarrow> equalJSON a a = Inr True"
  by (cases a) (auto simp: equalJSON_def go_eq_def is_scalar_def f64_eq_def)

lemma equalJSON_array_scalar: "is_scalar b \<Longrightarrow> equalJSON (JArr xs) b = Inr False"
  by (cases b) (auto simp: equalJSON_def go_eq_def is_scalar_def)

end
