(* ===== verification/Float_Text.thy ===== *)
theory Float_Text
  imports Float64
begin

text \<open>
  The decimal text of a double: \<open>strconv.FormatFloat(f, 'g', -1, 64)\<close> (the shortest digits that
  read back as the same double) and the reading of such a text. Index keys are built from this
  text, so two numbers share a key exactly when they are the same double.
\<close>

section \<open>Shortest digits\<close>

text \<open>The magnitude of the double nearest to \<open>c * 10 ^ e\<close>.\<close>

definition dec_mag :: "nat \<Rightarrow> int \<Rightarrow> nat" where
  "dec_mag c e = (if 0 \<le> e then round_mag (c * 10 ^ nat e * unit_den) 1
     else round_mag (c * unit_den) (10 ^ nat (- e)))"

text \<open>The position of the decimal point: \<open>10 ^ (dp - 1) \<le> u / unit_den < 10 ^ dp\<close>.\<close>

definition dec_point :: "nat \<Rightarrow> int" where
  "dec_point u =
     (if unit_den \<le> u then int (length (itoa (u div unit_den)))
      else - int (length (takeWhile (\<lambda>k. u * 10 ^ (k + 1) < unit_den) [0..<324])))"

text \<open>The two \<open>n\<close>-digit neighbours of a value, the nearer one first.\<close>

definition dec_neighbours :: "nat \<Rightarrow> int \<Rightarrow> nat list" where
  "dec_neighbours u p =
     (let num = (if 0 \<le> p then u * 10 ^ nat p else u);
          den = (if 0 \<le> p then unit_den else unit_den * 10 ^ nat (- p));
          q = num div den; r = num mod den
      in if 2 * r \<le> den then [q, q + 1] else [q + 1, q])"

definition shortest_at :: "nat \<Rightarrow> nat \<Rightarrow> (nat \<times> int) option" where
  "shortest_at mag n =
     (let u = units_of mag; p = int n - dec_point u
      in map_option (\<lambda>c. (c, - p)) (find (\<lambda>c. dec_mag c (- p) = mag) (dec_neighbours u p)))"

text \<open>
  The least number of digits that reads back. Seventeen always suffice for a double; the last
  alternative, the exact expansion, only makes the definition total.
\<close>

definition shortest_dec :: "nat \<Rightarrow> nat \<times> int" where
  "shortest_dec mag =
     (case List.map_filter (shortest_at mag) [1..<18] of
        ce # _ \<Rightarrow> ce
      | [] \<Rightarrow> (units_of mag * 5 ^ 1074, - 1074))"

fun strip_zeros :: "nat \<Rightarrow> int \<Rightarrow> nat \<times> int" where
  "strip_zeros c e = (if c \<noteq> 0 \<and> c mod 10 = 0 then strip_zeros (c div 10) (e + 1) else (c, e))"

declare strip_zeros.simps [simp del]

section \<open>FormatFloat\<close>

definition zeros :: "nat \<Rightarrow> string" where
  "zeros n = replicate n (CHR ''0'')"

text \<open>\<open>%e\<close>: one digit, the others after the point, an exponent of at least two digits.\<close>

definition fmt_e :: "nat \<Rightarrow> int \<Rightarrow> string" where
  "fmt_e c e =
     (let ds = itoa c; x = int (length ds) + e - 1; xs = itoa (nat \<bar>x\<bar>)
      in [hd ds] @ (if tl ds = [] then [] else ''.'' @ tl ds) @ ''e''
         @ (if x < 0 then ''-'' else ''+'') @ (if length xs < 2 then ''0'' else []) @ xs)"

text \<open>\<open>%f\<close>: no exponent.\<close>

definition fmt_f :: "nat \<Rightarrow> int \<Rightarrow> string" where
  "fmt_f c e =
     (let ds = itoa c; dp = int (length ds) + e
      in if 0 \<le> e then ds @ zeros (nat e)
         else if 0 < dp then take (nat dp) ds @ ''.'' @ drop (nat dp) ds
         else ''0.'' @ zeros (nat (- dp)) @ ds)"

definition fmt_mag :: "nat \<Rightarrow> string" where
  "fmt_mag mag =
     (if mag = 0 then ''0''
      else case strip_zeros (fst (shortest_dec mag)) (snd (shortest_dec mag)) of
        (c, e) \<Rightarrow> let x = int (length (itoa c)) + e - 1
                  in if x < - 4 \<or> 6 \<le> x then fmt_e c e else fmt_f c e)"

definition format_float :: "f64 \<Rightarrow> string" where
  "format_float x =
     (if f64_is_nan x then ''NaN''
      else if f64_is_inf x then (if f64_neg x then ''-Inf'' else ''+Inf'')
      else (if f64_neg x then ''-'' else []) @ fmt_mag (f64_mag x))"

section \<open>Reading a decimal\<close>

definition before :: "char \<Rightarrow> string \<Rightarrow> string" where
  "before c s = takeWhile (\<lambda>x. x \<noteq> c) s"

definition after :: "char \<Rightarrow> string \<Rightarrow> string" where
  "after c s = drop 1 (dropWhile (\<lambda>x. x \<noteq> c) s)"

definition read_exp :: "string \<Rightarrow> int" where
  "read_exp s = (case s of [] \<Rightarrow> 0
     | c # ds \<Rightarrow> if c = CHR ''-'' then - int (digits_val ds)
                else if c = CHR ''+'' then int (digits_val ds) else int (digits_val s))"

definition read_mag :: "string \<Rightarrow> nat" where
  "read_mag s =
     (let m = before (CHR ''e'') s; i = before (CHR ''.'') m; f = after (CHR ''.'') m
      in dec_mag (digits_val (i @ f)) (read_exp (after (CHR ''e'') s) - int (length f)))"

section \<open>The text reads back\<close>

lemma before_absent: "c \<notin> set s \<Longrightarrow> before c s = s" "c \<notin> set s \<Longrightarrow> after c s = []"
  by (induction s) (auto simp: before_def after_def)

lemma before_present [simp]:
  "c \<notin> set s \<Longrightarrow> before c (s @ c # t) = s" "c \<notin> set s \<Longrightarrow> after c (s @ c # t) = t"
  by (induction s) (auto simp: before_def after_def)

lemma itoa_no_e [simp]: "CHR ''e'' \<notin> set (itoa n)"
  using itoa_digits [of n] by (auto simp: is_digit_def)

lemma itoa_no_dot [simp]: "CHR ''.'' \<notin> set (itoa n)"
  using itoa_digits [of n] by (auto simp: is_digit_def)

lemma zeros_no [simp]: "c \<noteq> CHR ''0'' \<Longrightarrow> c \<notin> set (zeros n)"
  by (simp add: zeros_def)

lemma length_zeros [simp]: "length (zeros n) = n"
  by (simp add: zeros_def)

lemma digits_val_zeros_append [simp]: "digits_val (zeros n @ s) = digits_val s"
  by (induction n) (simp_all add: zeros_def digits_val_def char_digit_def)

lemma digits_val_zero_Cons [simp]: "digits_val (CHR ''0'' # s) = digits_val s"
  by (simp add: digits_val_def char_digit_def)

lemma digits_val_append_zeros [simp]: "digits_val (s @ zeros n) = digits_val s * 10 ^ n"
proof (induction n)
  case (Suc n)
  have "s @ zeros (Suc n) = (s @ zeros n) @ [CHR ''0'']"
    by (simp add: zeros_def flip: replicate_append_same)
  then have "digits_val (s @ zeros (Suc n)) = 10 * digits_val (s @ zeros n) + char_digit (CHR ''0'')"
    by (simp only: digits_val_snoc)
  then show ?case using Suc by (simp add: char_digit_def)
qed (simp add: zeros_def)

lemma dec_mag_shift: "dec_mag (c * 10 ^ k) e = dec_mag c (e + int k)"
proof -
  consider "0 \<le> e" | "e < 0" "0 \<le> e + int k" | "e + int k < 0" by linarith
  then show ?thesis
  proof cases
    case 1
    then show ?thesis by (simp add: dec_mag_def nat_add_distrib power_add mult.commute mult.left_commute)
  next
    case 2
    then have k: "k = nat (e + int k) + nat (- e)" by simp
    have "c * 10 ^ k * unit_den * 1 = c * 10 ^ nat (e + int k) * unit_den * 10 ^ nat (- e)"
      by (subst (1) k) (simp add: power_add mult.commute mult.left_commute)
    then have "round_mag (c * 10 ^ k * unit_den) (10 ^ nat (- e)) =
        round_mag (c * 10 ^ nat (e + int k) * unit_den) 1"
      by (intro round_mag_cross) simp_all
    with 2 show ?thesis by (simp add: dec_mag_def)
  next
    case 3
    then have k: "nat (- e) = k + nat (- (e + int k))" by simp
    have "c * 10 ^ k * unit_den * 10 ^ nat (- (e + int k)) = c * unit_den * 10 ^ nat (- e)"
      by (subst k) (simp add: power_add mult.commute mult.left_commute)
    then have "round_mag (c * 10 ^ k * unit_den) (10 ^ nat (- e)) =
        round_mag (c * unit_den) (10 ^ nat (- (e + int k)))"
      by (intro round_mag_cross) simp_all
    with 3 show ?thesis by (simp add: dec_mag_def)
  qed
qed

lemma dec_mag_0 [simp]: "dec_mag 0 e = 0"
  by (simp add: dec_mag_def round_mag_def round_half_even_def)

lemma strip_zeros_mag:
  "strip_zeros c e = (c', e') \<Longrightarrow> dec_mag c' e' = dec_mag c e \<and> (c' = 0 \<longleftrightarrow> c = 0)"
proof (induction c e rule: strip_zeros.induct)
  case (1 c e)
  show ?case
  proof (cases "c \<noteq> 0 \<and> c mod 10 = 0")
    case True
    then have s: "strip_zeros (c div 10) (e + 1) = (c', e')"
      using "1.prems" by (simp add: strip_zeros.simps [of c e])
    have "dec_mag c e = dec_mag (c div 10 * 10 ^ 1) e" using True by (simp add: mod_eq_0_iff_dvd)
    also have "\<dots> = dec_mag (c div 10) (e + 1)" by (simp only: dec_mag_shift) simp
    finally show ?thesis using "1.IH" [OF True s] True by auto
  next
    case False
    with "1.prems" show ?thesis by (auto simp: strip_zeros.simps [of c e])
  qed
qed

lemma shortest_at_mag: "shortest_at mag n = Some (c, e) \<Longrightarrow> dec_mag c e = mag"
  by (auto simp: shortest_at_def Let_def find_Some_iff)

lemma dec_mag_exact: "mag < inf_mag \<Longrightarrow> dec_mag (units_of mag * 5 ^ 1074) (- 1074) = mag"
proof -
  assume m: "mag < inf_mag"
  define k where "k = (1074 :: nat)"
  have k0: "0 < k" by (simp add: k_def)
  have u: "unit_den = 2 ^ k" by (simp only: unit_den_def k_def)
  have "5 ^ k * 2 ^ k = (10 ^ k :: nat)"
    by (simp flip: power_mult_distrib)
  then have e: "units_of mag * 5 ^ k * unit_den = units_of mag * 10 ^ k"
    by (simp only: u mult.assoc)
  have "dec_mag (units_of mag * 5 ^ k) (- int k) = round_mag (units_of mag * 5 ^ k * unit_den) (10 ^ k)"
    using k0 unfolding dec_mag_def by (simp only: neg_0_le_iff_le minus_minus nat_int) simp
  also have "\<dots> = mag"
    unfolding e by (rule round_mag_units [OF m]) simp
  finally have "dec_mag (units_of mag * 5 ^ k) (- int k) = mag" .
  then show ?thesis by (simp only: k_def of_nat_numeral)
qed

lemma shortest_dec_mag:
  assumes "mag < inf_mag" and "shortest_dec mag = (c, e)"
  shows "dec_mag c e = mag"
proof (cases "List.map_filter (shortest_at mag) [1..<18]")
  case Nil
  then have "(c, e) = (units_of mag * 5 ^ 1074, - 1074)"
    using assms(2) unfolding shortest_dec_def by (simp only: list.case)
  then show ?thesis using dec_mag_exact [OF assms(1)] by (simp only: prod.inject)
next
  case (Cons ce ces)
  then have "ce \<in> set (List.map_filter (shortest_at mag) [1..<18])" by simp
  then obtain n where "shortest_at mag n = Some ce" by (auto simp: List.map_filter_def)
  moreover have "ce = (c, e)"
    using assms(2) Cons unfolding shortest_dec_def by (simp only: list.case)
  ultimately show ?thesis by (blast intro: shortest_at_mag)
qed

lemma read_fmt_e: "read_mag (fmt_e c e) = dec_mag c e"
proof -
  define x where "x = int (length (itoa c)) + e - 1"
  obtain d ds where ds: "itoa c = d # ds" by (cases "itoa c") auto
  have nodigit: "CHR ''e'' \<notin> set (d # ds)" "CHR ''.'' \<notin> set (d # ds)"
    using itoa_no_e [of c] itoa_no_dot [of c] ds by auto
  define m where "m = d # (if ds = [] then [] else ''.'' @ ds)"
  define t where "t = (if x < 0 then ''-'' else ''+'')
     @ (if length (itoa (nat \<bar>x\<bar>)) < 2 then ''0'' else []) @ itoa (nat \<bar>x\<bar>)"
  have f: "fmt_e c e = m @ CHR ''e'' # t"
    by (simp add: fmt_e_def Let_def ds m_def t_def x_def)
  have m1: "CHR ''e'' \<notin> set m" using nodigit by (auto simp: m_def)
  have m2: "before (CHR ''.'') m = [d]" "after (CHR ''.'') m = ds"
    using nodigit before_present [of "CHR ''.''" "[d]" ds] before_absent [of "CHR ''.''" "[d]"]
    by (auto simp: m_def)
  have t: "read_exp t = x" by (auto simp: t_def read_exp_def)
  have "digits_val (d # ds) = c" using digits_val_itoa [of c] ds by simp
  then show ?thesis using m1 m2 t by (simp add: read_mag_def f x_def ds)
qed

lemma read_fmt_f: "read_mag (fmt_f c e) = dec_mag c e"
proof -
  define ds where "ds = itoa c"
  have nd: "CHR ''e'' \<notin> set ds" "CHR ''.'' \<notin> set ds" "digits_val ds = c" by (simp_all add: ds_def)
  have read0: "read_exp [] = 0" by (simp add: read_exp_def)
  consider "0 \<le> e" | "e < 0" "0 < int (length ds) + e" | "e < 0" "int (length ds) + e \<le> 0"
    by linarith
  then show ?thesis
  proof cases
    case 1
    then have f: "fmt_f c e = ds @ zeros (nat e)" by (simp add: fmt_f_def ds_def Let_def)
    have "CHR ''e'' \<notin> set (ds @ zeros (nat e))" "CHR ''.'' \<notin> set (ds @ zeros (nat e))"
      using nd by simp_all
    then show ?thesis
      using dec_mag_shift [of c "nat e" 0] 1 nd
      by (simp add: read_mag_def f before_absent read0 Let_def del: set_append)
  next
    case 2
    define k where "k = nat (int (length ds) + e)"
    have f: "fmt_f c e = take k ds @ CHR ''.'' # drop k ds"
      using 2 by (simp add: fmt_f_def ds_def Let_def k_def)
    have "CHR ''e'' \<notin> set (fmt_f c e)" using nd by (auto simp: f dest: in_set_takeD in_set_dropD)
    moreover have "CHR ''.'' \<notin> set (take k ds)" using nd by (auto dest: in_set_takeD)
    moreover have "- int (length ds - k) = e" using 2 by (simp add: k_def)
    ultimately show ?thesis
      using nd before_absent [of "CHR ''e''" "fmt_f c e"]
      by (simp add: read_mag_def read0 Let_def f)
  next
    case 3
    define k where "k = nat (- (int (length ds) + e))"
    have f: "fmt_f c e = ''0'' @ CHR ''.'' # zeros k @ ds"
      using 3 by (simp add: fmt_f_def ds_def Let_def k_def)
    have e: "CHR ''e'' \<notin> set (fmt_f c e)" using nd by (simp add: f)
    have "before (CHR ''.'') (fmt_f c e) = ''0''" "after (CHR ''.'') (fmt_f c e) = zeros k @ ds"
      unfolding f by (rule before_present; simp)+
    moreover have "- int (k + length ds) = e" using 3 by (simp add: k_def)
    ultimately show ?thesis
      using nd before_absent [OF e] by (simp add: read_mag_def read0 Let_def)
  qed
qed

lemma read_fmt_mag: "mag < inf_mag \<Longrightarrow> read_mag (fmt_mag mag) = mag"
proof (cases "mag = 0")
  case True
  then show ?thesis
    by (simp add: fmt_mag_def read_mag_def before_def after_def digits_val_def char_digit_def)
next
  case False
  assume m: "mag < inf_mag"
  obtain c e where ce: "shortest_dec mag = (c, e)" by fastforce
  obtain c' e' where ce': "strip_zeros c e = (c', e')" by fastforce
  have "dec_mag c' e' = mag"
    using strip_zeros_mag [OF ce'] shortest_dec_mag [OF m ce] by simp
  then show ?thesis
    using False ce ce' by (simp add: fmt_mag_def Let_def read_fmt_e read_fmt_f)
qed

lemma fmt_mag_chars:
  "c \<in> set (fmt_mag mag) \<Longrightarrow> is_digit c \<or> c = CHR ''.'' \<or> c = CHR ''e'' \<or> c = CHR ''+'' \<or> c = CHR ''-''"
proof -
  have dig: "c \<in> set (itoa n) \<Longrightarrow> is_digit c" for n using itoa_digits by blast
  have hd: "c = hd (itoa n) \<Longrightarrow> is_digit c" for n using itoa_digits [of n] by (metis hd_in_set itoa_nonempty)
  have tl: "c \<in> set (tl (itoa n)) \<Longrightarrow> is_digit c" for n
    using dig [of n] by (cases "itoa n") auto
  have z: "is_digit (CHR ''0'')" by (simp add: is_digit_def)
  show "c \<in> set (fmt_mag mag) \<Longrightarrow> ?thesis"
    using dig hd tl z
    by (auto simp: fmt_mag_def fmt_e_def fmt_f_def zeros_def Let_def
        split: if_splits prod.splits dest: in_set_takeD in_set_dropD)
qed

lemma fmt_mag_no_sign:
  "fmt_mag mag \<noteq> []" "hd (fmt_mag mag) \<noteq> CHR ''-''" "hd (fmt_mag mag) \<noteq> CHR ''+''"
  "hd (fmt_mag mag) \<noteq> CHR ''N''"
proof -
  have d: "is_digit (hd (itoa n))" for n using itoa_digits [of n] by simp
  have "fmt_mag mag \<noteq> [] \<and> is_digit (hd (fmt_mag mag))"
    by (auto simp: fmt_mag_def fmt_e_def fmt_f_def Let_def d is_digit_def [of "CHR ''0''"]
        hd_append split: prod.splits)
  then show "fmt_mag mag \<noteq> []" "hd (fmt_mag mag) \<noteq> CHR ''-''" "hd (fmt_mag mag) \<noteq> CHR ''+''"
    "hd (fmt_mag mag) \<noteq> CHR ''N''" by (auto simp: is_digit_def)
qed

lemma format_float_inject:
  assumes "format_float x = format_float y" and "\<not> f64_is_nan x" and "\<not> f64_is_nan y"
  shows "x = y"
proof (rule f64_eqI)
  note sg = fmt_mag_no_sign [of "f64_mag x"] fmt_mag_no_sign [of "f64_mag y"]
  have sg': "fmt_mag (f64_mag z) \<noteq> CHR ''-'' # t" "fmt_mag (f64_mag z) \<noteq> CHR ''+'' # t"
    "CHR ''I'' \<notin> set (fmt_mag (f64_mag z))" for z t
    using fmt_mag_no_sign [of "f64_mag z"] fmt_mag_chars [of "CHR ''I''" "f64_mag z"]
    by (auto simp: is_digit_def)
  have inf: "fmt_mag (f64_mag z) \<noteq> CHR ''I'' # t" for z t using sg'(3) [of z] by auto
  show "f64_neg x = f64_neg y"
    using assms sg' by (auto simp: format_float_def split: if_splits dest: sym)
  have "f64_is_inf x = f64_is_inf y \<and> (\<not> f64_is_inf x \<longrightarrow> fmt_mag (f64_mag x) = fmt_mag (f64_mag y))"
    using assms sg' inf by (auto simp: format_float_def split: if_splits dest: sym)
  moreover have "f64_mag z < inf_mag" if "\<not> f64_is_nan z" "\<not> f64_is_inf z" for z
    using that by (auto simp: f64_is_nan_def f64_is_inf_def)
  ultimately show "f64_mag x = f64_mag y"
    using assms(2,3) read_fmt_mag by (metis f64_is_inf_def)
qed

text \<open>No text of a number holds the separator of composite index keys.\<close>

lemma format_float_chars: "c \<in> set (format_float x) \<Longrightarrow> 32 \<le> (of_char c :: nat)"
  using fmt_mag_chars [of c "f64_mag x"]
  by (auto simp: format_float_def is_digit_def split: if_splits)

end
