(* ===== verification/Json.thy ===== *)
theory Json
  imports Values Float_Text
begin

text \<open>
  What the sources use of \<open>encoding/json\<close>: \<open>json.Marshal\<close> of a document (keys sorted, strings
  escaped for HTML and for invalid UTF-8, numbers in their shortest form), which decides the size
  limit of \<open>checkDocSize\<close> and the index key of a container, and \<open>fmt\<close>'s \<open>%v\<close>, the last resort
  of the index key encoding.
\<close>

section \<open>Strings\<close>

definition hex_char :: "nat \<Rightarrow> char" where
  "hex_char d = (if d < 10 then char_of (48 + d) else char_of (87 + d))"

abbreviation byte_of :: "char \<Rightarrow> nat" where
  "byte_of c \<equiv> of_char c"

definition cont_byte :: "char \<Rightarrow> bool" where
  "cont_byte c \<longleftrightarrow> 128 \<le> byte_of c \<and> byte_of c \<le> 191"

text \<open>Well-formed UTF-8 sequences of two, three and four bytes at the head of a string.\<close>

definition utf2 :: "string \<Rightarrow> bool" where
  "utf2 s = (case s of c # c1 # _ \<Rightarrow> 194 \<le> byte_of c \<and> byte_of c \<le> 223 \<and> cont_byte c1 | _ \<Rightarrow> False)"

definition utf3 :: "string \<Rightarrow> bool" where
  "utf3 s = (case s of c # c1 # c2 # _ \<Rightarrow>
       224 \<le> byte_of c \<and> byte_of c \<le> 239 \<and> cont_byte c1 \<and> cont_byte c2
       \<and> (byte_of c = 224 \<longrightarrow> 160 \<le> byte_of c1) \<and> (byte_of c = 237 \<longrightarrow> byte_of c1 \<le> 159)
     | _ \<Rightarrow> False)"

definition utf4 :: "string \<Rightarrow> bool" where
  "utf4 s = (case s of c # c1 # c2 # c3 # _ \<Rightarrow>
       240 \<le> byte_of c \<and> byte_of c \<le> 244 \<and> cont_byte c1 \<and> cont_byte c2 \<and> cont_byte c3
       \<and> (byte_of c = 240 \<longrightarrow> 144 \<le> byte_of c1) \<and> (byte_of c = 244 \<longrightarrow> byte_of c1 \<le> 143)
     | _ \<Rightarrow> False)"

text \<open>The length of the UTF-8 sequence at the head of a string, 0 when it is invalid.\<close>

definition rune_len :: "string \<Rightarrow> nat" where
  "rune_len s =
     (if s = [] then 0 else if byte_of (hd s) < 128 then 1
      else if utf2 s then 2 else if utf3 s then 3 else if utf4 s then 4 else 0)"

definition html_safe :: "char \<Rightarrow> bool" where
  "html_safe c \<longleftrightarrow> 32 \<le> byte_of c \<and> byte_of c < 128
     \<and> c \<notin> {CHR 0x22, CHR 0x26, CHR 0x3C, CHR 0x3E, CHR 0x5C}"

definition escape_ascii :: "char \<Rightarrow> string" where
  "escape_ascii c =
     (if html_safe c then [c]
      else if c = CHR 0x22 \<or> c = CHR 0x5C then [CHR 0x5C, c]
      else if c = CHR 0x08 then [CHR 0x5C, CHR ''b'']
      else if c = CHR 0x0C then [CHR 0x5C, CHR ''f'']
      else if c = CHR 0x0A then [CHR 0x5C, CHR ''n'']
      else if c = CHR 0x0D then [CHR 0x5C, CHR ''r'']
      else if c = CHR 0x09 then [CHR 0x5C, CHR ''t'']
      else CHR 0x5C # ''u00'' @ [hex_char (byte_of c div 16), hex_char (byte_of c mod 16)])"

text \<open>U+2028 and U+2029, which JavaScript does not allow in strings.\<close>

definition line_sep :: "string \<Rightarrow> bool" where
  "line_sep s \<longleftrightarrow> length s = 3 \<and> map byte_of (take 2 s) = [226, 128] \<and> byte_of (s ! 2) \<in> {168, 169}"

function json_body :: "string \<Rightarrow> string" where
  "json_body s = (case s of [] \<Rightarrow> [] | c # t \<Rightarrow>
     if byte_of c < 128 then escape_ascii c @ json_body t
     else let n = rune_len s in
       if n = 0 then CHR 0x5C # ''ufffd'' @ json_body t
       else if line_sep (take n s)
            then CHR 0x5C # ''u202'' @ [hex_char (byte_of (s ! 2) mod 16)] @ json_body (drop n s)
            else take n s @ json_body (drop n s))"
  by pat_completeness auto
termination
  by (relation "measure length") (auto split: list.splits)

declare json_body.simps [simp del]

definition json_string :: "string \<Rightarrow> string" where
  "json_string s = CHR 0x22 # json_body s @ [CHR 0x22]"

section \<open>Numbers\<close>

text \<open>\<open>%f\<close> between \<open>1e-6\<close> and \<open>1e21\<close>, else \<open>%e\<close> with a one-digit negative exponent trimmed.\<close>

definition trim_exp :: "string \<Rightarrow> string" where
  "trim_exp b =
     (let n = length b
      in if 4 \<le> n \<and> b ! (n - 4) = CHR ''e'' \<and> b ! (n - 3) = CHR ''-'' \<and> b ! (n - 2) = CHR ''0''
         then take (n - 2) b @ [b ! (n - 1)] else b)"

definition json_mag :: "nat \<Rightarrow> string" where
  "json_mag mag =
     (if mag = 0 then ''0''
      else case strip_zeros (fst (shortest_dec mag)) (snd (shortest_dec mag)) of
        (c, e) \<Rightarrow> if mag < 0x3EB0C6F7A0B5ED8D \<or> 0x444B1AE4D6E2EF50 \<le> mag
                  then trim_exp (fmt_e c e) else fmt_f c e)"

definition json_float :: "f64 \<Rightarrow> string option" where
  "json_float x = (if f64_finite x then Some ((if f64_neg x then ''-'' else []) @ json_mag (f64_mag x))
     else None)"

section \<open>Marshal\<close>

definition bracket :: "string \<Rightarrow> string list \<Rightarrow> string \<Rightarrow> string" where
  "bracket l parts r = l @ join_with '','' parts @ r"

definition json_field :: "string \<times> string \<Rightarrow> string" where
  "json_field p = json_string (fst p) @ '':'' @ snd p"

text \<open>An object from its already encoded fields, keys in ascending order.\<close>

definition json_object :: "(string \<times> string option) list \<Rightarrow> string option" where
  "json_object fs =
     map_option (\<lambda>es. bracket ''{'' (map json_field (sort_key fst es)) ''}'')
       (those (map (\<lambda>p. map_option (Pair (fst p)) (snd p)) fs))"

fun json_enc :: "jval \<Rightarrow> string option" where
  "json_enc JNull = Some ''null''"
| "json_enc (JBool b) = Some (if b then ''true'' else ''false'')"
| "json_enc (JF64 f) = json_float f"
| "json_enc (JInt k i) = Some (itoa_int i)"
| "json_enc (JStr s) = Some (json_string s)"
| "json_enc (JArr xs) = map_option (\<lambda>ps. bracket ''['' ps '']'') (those (map json_enc xs))"
| "json_enc (JDoc m) = json_object (map (\<lambda>p. (fst p, json_enc (snd p))) m)"
| "json_enc (JMap m) = json_object (map (\<lambda>p. (fst p, json_enc (snd p))) m)"
| "json_enc (JDocs ds) = map_option (\<lambda>ps. bracket ''['' ps '']'')
     (those (map (\<lambda>m. json_object (map (\<lambda>p. (fst p, json_enc (snd p))) m)) ds))"
| "json_enc (JStrs ss) = Some (bracket ''['' (map json_string ss) '']'')"

text \<open>\<open>json.Marshal(doc)\<close>.\<close>

definition json_doc :: "document \<Rightarrow> string option" where
  "json_doc d = json_enc (JDoc d)"

section \<open>fmt.Sprintf with the v verb\<close>

definition spaced :: "string list \<Rightarrow> string" where
  "spaced ps = join_with '' '' ps"

definition fmt_map :: "(string \<times> string) list \<Rightarrow> string" where
  "fmt_map fs = ''map['' @ spaced (map (\<lambda>p. fst p @ '':'' @ snd p) (sort_key fst fs)) @ '']''"

fun fmt_v :: "jval \<Rightarrow> string" where
  "fmt_v JNull = ''<nil>''"
| "fmt_v (JBool b) = (if b then ''true'' else ''false'')"
| "fmt_v (JF64 f) = format_float f"
| "fmt_v (JInt k i) = itoa_int i"
| "fmt_v (JStr s) = s"
| "fmt_v (JArr xs) = ''['' @ spaced (map fmt_v xs) @ '']''"
| "fmt_v (JDoc m) = fmt_map (map (\<lambda>p. (fst p, fmt_v (snd p))) m)"
| "fmt_v (JMap m) = fmt_map (map (\<lambda>p. (fst p, fmt_v (snd p))) m)"
| "fmt_v (JDocs ds) = ''['' @ spaced (map (\<lambda>m. fmt_map (map (\<lambda>p. (fst p, fmt_v (snd p))) m)) ds) @ '']''"
| "fmt_v (JStrs ss) = ''['' @ spaced ss @ '']''"

end
