(* ===== verification/Query_Filter.thy ===== *)
theory Query_Filter
  imports Values
begin

text \<open>
  The filter language of \<open>db/filter.go\<close> and \<open>db/filter_regex.go\<close>: path lookup, comparison and
  set operators, \<open>$and/$or/$nor/$not\<close>, and regular expressions.

  A filter is a Go map and its loops stop at the first key that decides, so with an erroneous
  filter the outcome depends on the iteration order; the order of the association list is that
  order. \<open>rx\<close> is \<open>regexp.Compile\<close> followed by \<open>MatchString\<close>: \<open>None\<close> for a pattern that does not
  compile.
\<close>

type_synonym regex_engine = "string \<Rightarrow> (string \<Rightarrow> bool) option"

section \<open>Conversions\<close>

definition toDoc :: "jval \<Rightarrow> document res" where
  "toDoc v = (case v of JDoc d \<Rightarrow> Inr d | JMap d \<Rightarrow> Inr d | _ \<Rightarrow> Inl ErrBadFilter)"

definition toAnyList :: "jval \<Rightarrow> jval list res" where
  "toAnyList v = (case v of JArr l \<Rightarrow> Inr l | JDocs ds \<Rightarrow> Inr (map JDoc ds) | _ \<Rightarrow> Inl ErrBadFilter)"

fun toDocs :: "jval list \<Rightarrow> document list res" where
  "toDocs [] = Inr []"
| "toDocs (v # vs) = and_then (toDoc v) (\<lambda>d. and_then (toDocs vs) (\<lambda>ds. Inr (d # ds)))"

definition toDocList :: "jval \<Rightarrow> document list res" where
  "toDocList v = and_then (toAnyList v) toDocs"

lemma toDoc_size [termination_simp]: "toDoc v = Inr d \<Longrightarrow> docsize d < jsize v"
  by (cases v) (auto simp: toDoc_def)

lemma toDocs_size: "toDocs vs = Inr ds \<Longrightarrow> sum_list (map (\<lambda>d. Suc (docsize d)) ds) \<le> sum_list (map jsize vs)"
  by (induction vs arbitrary: ds) (fastforce simp: result_simps dest: toDoc_size)+

lemma sum_list_jsize_JDoc:
  "sum_list (map jsize (map JDoc ds)) \<le> sum_list (map (\<lambda>m. 2 + docsize m) ds)"
  by (induction ds) auto

lemma toAnyList_size: "toAnyList v = Inr vs \<Longrightarrow> sum_list (map jsize vs) < jsize v"
  using sum_list_jsize_JDoc by (cases v) (auto simp: toAnyList_def less_Suc_eq_le)

lemma toDocList_size [termination_simp]:
  "toDocList v = Inr ds \<Longrightarrow> sum_list (map (\<lambda>d. Suc (docsize d)) ds) < jsize v"
  by (auto simp: toDocList_def result_simps dest!: toDocs_size toAnyList_size)

section \<open>Paths\<close>

fun lookupPartsMulti :: "jval \<Rightarrow> string list \<Rightarrow> jval list" where
  "lookupPartsMulti node [] = [node]"
| "lookupPartsMulti (JDoc m) (p # ps) =
     (case map_of m p of None \<Rightarrow> [] | Some v \<Rightarrow> lookupPartsMulti v ps)"
| "lookupPartsMulti (JMap m) (p # ps) =
     (case map_of m p of None \<Rightarrow> [] | Some v \<Rightarrow> lookupPartsMulti v ps)"
| "lookupPartsMulti (JArr els) (p # ps) = concat (map (\<lambda>el. lookupPartsMulti el (p # ps)) els)"
| "lookupPartsMulti _ (p # ps) = []"

text \<open>All leaf values the path reaches; \<open>None\<close> when the Go function returns \<open>(nil, false)\<close>.\<close>

definition lookupMulti :: "document \<Rightarrow> string \<Rightarrow> jval list option" where
  "lookupMulti doc path =
     (if path = [] then None
      else if CHR ''.'' \<notin> set path then map_option (\<lambda>v. [v]) (map_of doc path)
      else let out = lookupPartsMulti (JDoc doc) (split_on (CHR ''.'') path)
           in if out = [] then None else Some out)"

text \<open>\<open>lookup\<close>: the first leaf only.\<close>

definition lookup_first :: "document \<Rightarrow> string \<Rightarrow> jval option" where
  "lookup_first doc path = (case lookupMulti doc path of Some (v # _) \<Rightarrow> Some v | _ \<Rightarrow> None)"

section \<open>Operators on one value\<close>

definition logical_ops :: "string list" where
  "logical_ops = [''$and'', ''$or'', ''$not'', ''$nor'']"

definition isLogicalOp :: "string \<Rightarrow> bool" where
  "isLogicalOp field \<longleftrightarrow> field \<in> set logical_ops"

definition hasOpKeys :: "document \<Rightarrow> bool" where
  "hasOpKeys d \<longleftrightarrow> (\<exists>p \<in> set d. has_prefix (fst p) ''$'')"

definition comparableTypes :: "jval \<Rightarrow> jval \<Rightarrow> bool" where
  "comparableTypes a b \<longleftrightarrow>
     to_float a \<noteq> None \<and> to_float b \<noteq> None
     \<or> (case (a, b) of (JStr _, JStr _) \<Rightarrow> True | _ \<Rightarrow> False)"

definition compareOp :: "string \<Rightarrow> jval \<Rightarrow> jval \<Rightarrow> bool res" where
  "compareOp op val arg =
     (if \<not> comparableTypes val arg then Inr False
      else let cmp = compareValues val arg in
        if op = ''$gt'' then Inr (0 < cmp)
        else if op = ''$gte'' then Inr (0 \<le> cmp)
        else if op = ''$lt'' then Inr (cmp < 0)
        else if op = ''$lte'' then Inr (cmp \<le> 0)
        else Inl ErrBadFilter)"

text \<open>The loop of \<open>$in\<close> and \<open>$nin\<close>: some item equals the value, a panic stops it.\<close>

fun any_equal :: "jval \<Rightarrow> jval list \<Rightarrow> bool res" where
  "any_equal v [] = Inr False"
| "any_equal v (x # xs) =
     and_then (equalJSON v x) (\<lambda>eq. if eq then Inr True else any_equal v xs)"

definition str_at :: "document \<Rightarrow> string \<Rightarrow> string" where
  "str_at m k = (case map_of m k of Some (JStr s) \<Rightarrow> s | _ \<Rightarrow> [])"

text \<open>\<open>applyRegex\<close>: \<open>$regex\<close> with its sibling \<open>$options\<close>; only strings match.\<close>

definition regex_pattern :: "document \<Rightarrow> string" where
  "regex_pattern ops =
     (let pattern = str_at ops ''$regex''; options = str_at ops ''$options''
      in if CHR ''i'' \<in> set options \<and> \<not> has_prefix pattern ''(?i)'' then ''(?i)'' @ pattern
         else pattern)"

definition applyRegex :: "regex_engine \<Rightarrow> jval \<Rightarrow> bool \<Rightarrow> document \<Rightarrow> bool res" where
  "applyRegex rx val exists ops =
     (if \<not> exists then Inr False
      else case val of
        JStr s \<Rightarrow> (case rx (regex_pattern ops) of None \<Rightarrow> Inl ErrBadFilter | Some f \<Rightarrow> Inr (f s))
      | _ \<Rightarrow> Inr False)"

function (sequential) matchOps :: "regex_engine \<Rightarrow> jval \<Rightarrow> bool \<Rightarrow> document \<Rightarrow> bool res"
  and matchOpList :: "regex_engine \<Rightarrow> jval \<Rightarrow> bool \<Rightarrow> document \<Rightarrow> bool res"
  and matchOneOp :: "regex_engine \<Rightarrow> string \<Rightarrow> jval \<Rightarrow> bool \<Rightarrow> jval \<Rightarrow> bool res" where
  "matchOps rx val exists ops =
     (if map_of ops ''$regex'' \<noteq> None
      then and_then (applyRegex rx val exists ops)
             (\<lambda>ok. if ok then matchOpList rx val exists ops else Inr False)
      else matchOpList rx val exists ops)"
| "matchOpList rx val exists [] = Inr True"
| "matchOpList rx val exists ((op, arg) # ops) =
     (if op = ''$regex'' \<or> op = ''$options'' then matchOpList rx val exists ops
      else and_then (matchOneOp rx op val exists arg)
             (\<lambda>ok. if ok then matchOpList rx val exists ops else Inr False))"
| "matchOneOp rx op val exists arg =
     (if op = ''$eq'' then (if \<not> exists then Inr (arg = JNull) else equalJSON val arg)
      else if op = ''$ne'' then
        (if \<not> exists then Inr (arg \<noteq> JNull) else and_then (equalJSON val arg) (\<lambda>b. Inr (\<not> b)))
      else if op = ''$gt'' \<or> op = ''$gte'' \<or> op = ''$lt'' \<or> op = ''$lte'' then
        (if \<not> exists then Inr False else compareOp op val arg)
      else if op = ''$in'' then
        and_then (toAnyList arg) (\<lambda>l. if \<not> exists then Inr False else any_equal val l)
      else if op = ''$nin'' then
        and_then (toAnyList arg) (\<lambda>l. if \<not> exists then Inr True
          else and_then (any_equal val l) (\<lambda>b. Inr (\<not> b)))
      else if op = ''$exists'' then
        (case arg of JBool want \<Rightarrow> Inr (exists = want) | _ \<Rightarrow> Inl ErrBadFilter)
      else if op = ''$regex'' \<or> op = ''$options'' then Inr True
      else if op = ''$not'' then
        and_then (toDoc arg) (\<lambda>ops. and_then (matchOps rx val exists ops) (\<lambda>b. Inr (\<not> b)))
      else Inl ErrBadFilter)"
  by pat_completeness auto
termination
  by (relation "measure (\<lambda>x. case x of Inl (rx, v, e, ops) \<Rightarrow> 2 * docsize ops + 1
       | Inr (Inl (rx, v, e, ops)) \<Rightarrow> 2 * docsize ops
       | Inr (Inr (rx, op, v, e, arg)) \<Rightarrow> 2 * jsize arg + 1)")
    (auto dest: toDoc_size)

declare matchOps.simps [simp del] matchOneOp.simps [simp del]

text \<open>\<open>matchOpsMulti\<close>: some leaf satisfies all operators.\<close>

fun matchOpsAny :: "regex_engine \<Rightarrow> jval list \<Rightarrow> document \<Rightarrow> bool res" where
  "matchOpsAny rx [] ops = Inr False"
| "matchOpsAny rx (v # vs) ops =
     and_then (matchOps rx v True ops) (\<lambda>ok. if ok then Inr True else matchOpsAny rx vs ops)"

definition matchOpsMulti :: "regex_engine \<Rightarrow> jval list option \<Rightarrow> document \<Rightarrow> bool res" where
  "matchOpsMulti rx vals ops =
     (case vals of None \<Rightarrow> matchOps rx JNull False ops
      | Some vs \<Rightarrow> if vs = [] then matchOps rx JNull False ops else matchOpsAny rx vs ops)"

section \<open>Documents against filters\<close>

text \<open>The operator document of a field condition, when it has \<open>$\<close> keys.\<close>

definition opsOf :: "jval \<Rightarrow> document option" where
  "opsOf cond = (case cond of
     JDoc d \<Rightarrow> if hasOpKeys d then Some d else None
   | JMap d \<Rightarrow> if hasOpKeys d then Some d else None
   | _ \<Rightarrow> None)"

text \<open>Implicit equality: some leaf equals the condition; a missing field equals nil.\<close>

fun any_leaf_equal :: "jval list \<Rightarrow> jval \<Rightarrow> bool res" where
  "any_leaf_equal [] cond = Inr False"
| "any_leaf_equal (v # vs) cond =
     and_then (equalJSON v cond) (\<lambda>eq. if eq then Inr True else any_leaf_equal vs cond)"

definition matchPlain :: "regex_engine \<Rightarrow> document \<Rightarrow> string \<Rightarrow> jval \<Rightarrow> bool res" where
  "matchPlain rx doc field cond =
     (let vals = lookupMulti doc field
      in case opsOf cond of
           Some ops \<Rightarrow> matchOpsMulti rx vals ops
         | None \<Rightarrow> (case vals of None \<Rightarrow> Inr (cond = JNull) | Some vs \<Rightarrow> any_leaf_equal vs cond))"

function (sequential) match_doc :: "regex_engine \<Rightarrow> document \<Rightarrow> document \<Rightarrow> bool res"
  and matchField :: "regex_engine \<Rightarrow> document \<Rightarrow> string \<Rightarrow> jval \<Rightarrow> bool res"
  and matchLogical :: "regex_engine \<Rightarrow> document \<Rightarrow> string \<Rightarrow> jval \<Rightarrow> bool res"
  and matchAll :: "regex_engine \<Rightarrow> document \<Rightarrow> document list \<Rightarrow> bool res"
  and matchAny :: "regex_engine \<Rightarrow> document \<Rightarrow> document list \<Rightarrow> bool res" where
  "match_doc rx doc [] = Inr True"
| "match_doc rx doc ((field, cond) # rest) =
     and_then (matchField rx doc field cond)
       (\<lambda>ok. if ok then match_doc rx doc rest else Inr False)"
| "matchField rx doc field cond =
     (if isLogicalOp field then matchLogical rx doc field cond else matchPlain rx doc field cond)"
| "matchLogical rx doc op cond =
     (if op = ''$and'' then and_then (toDocList cond) (\<lambda>l. matchAll rx doc l)
      else if op = ''$or'' then and_then (toDocList cond) (\<lambda>l. matchAny rx doc l)
      else if op = ''$not'' then
        and_then (toDoc cond) (\<lambda>sub. and_then (match_doc rx doc sub) (\<lambda>b. Inr (\<not> b)))
      else if op = ''$nor'' then
        and_then (toDocList cond) (\<lambda>l. and_then (matchAny rx doc l) (\<lambda>b. Inr (\<not> b)))
      else Inl ErrBadFilter)"
| "matchAll rx doc [] = Inr True"
| "matchAll rx doc (sub # subs) =
     and_then (match_doc rx doc sub) (\<lambda>ok. if ok then matchAll rx doc subs else Inr False)"
| "matchAny rx doc [] = Inr False"
| "matchAny rx doc (sub # subs) =
     and_then (match_doc rx doc sub) (\<lambda>ok. if ok then Inr True else matchAny rx doc subs)"
  by pat_completeness auto
termination
  by (relation "measure (\<lambda>x. case x of
         Inl (Inl (rx, d, f)) \<Rightarrow> 3 * docsize f
       | Inl (Inr (rx, d, f, c)) \<Rightarrow> 3 * jsize c + 2
       | Inr (Inl (rx, d, op, c)) \<Rightarrow> 3 * jsize c + 1
       | Inr (Inr (Inl (rx, d, ss))) \<Rightarrow> 3 * sum_list (map (\<lambda>s. Suc (docsize s)) ss)
       | Inr (Inr (Inr (rx, d, ss))) \<Rightarrow> 3 * sum_list (map (\<lambda>s. Suc (docsize s)) ss))")
    (auto dest: toDoc_size toDocList_size)

declare matchLogical.simps [simp del]

end
