(* ===== verification/Index.thy ===== *)
theory Index
  imports Json Query_Filter "HOL-Library.Product_Lexorder"
begin

text \<open>
  The in-memory index of \<open>db/index.go\<close>: a hash from encoded key to document ids (\<open>ix_entries\<close>, or
  \<open>ix_uniq\<close> for a unique index), the distinct keys in order (\<open>ix_ord\<close>, sorted lazily: \<open>ix_dirty\<close>)
  and an optional flat CSR view (\<open>ix_matrix\<close>). Definitions only; the laws are in the theories
  \<open>Index_Keys\<close> and \<open>Index_Laws\<close>. The index mutex is left out: each operation runs alone.

  A Go set of ids is a list without repetitions.
\<close>

section \<open>State\<close>

type_synonym ord_entry = "jval \<times> string"

record csr_matrix =
  m_keys :: "string list"
  m_vals :: "jval list"
  m_indptr :: "int list"
  m_indices :: "int list"
  m_ids :: "string list"
  m_csum :: "32 word"

record index =
  ix_fields :: "string list"
  ix_unique :: bool
  ix_entries :: "string list gomap"
  ix_uniq :: "string gomap"
  ix_ord :: "ord_entry list"
  ix_dirty :: bool
  ix_matrix :: "csr_matrix option"

record index_info =
  ii_fields :: "string list"
  ii_unique :: bool

definition newIndex :: "string list \<Rightarrow> bool \<Rightarrow> index" where
  "newIndex flds unique = \<lparr>ix_fields = flds, ix_unique = unique, ix_entries = [],
     ix_uniq = [], ix_ord = [], ix_dirty = True, ix_matrix = None\<rparr>"

definition index_info_of :: "index \<Rightarrow> index_info" where
  "index_info_of idx = \<lparr>ii_fields = ix_fields idx, ii_unique = ix_unique idx\<rparr>"

section \<open>Keys\<close>

definition key_sep :: string where
  "key_sep = [CHR 0x1F]"

definition encodeIndexValue :: "jval \<Rightarrow> string" where
  "encodeIndexValue v =
     (case v of
        JNull \<Rightarrow> ''u:''
      | JStr s \<Rightarrow> ''s:'' @ itoa (length s) @ '':'' @ s
      | JBool b \<Rightarrow> (if b then ''b:true'' else ''b:false'')
      | JDoc m \<Rightarrow> ''j:'' @ (case json_enc v of Some b \<Rightarrow> b | None \<Rightarrow> [])
      | JMap m \<Rightarrow> ''j:'' @ (case json_enc v of Some b \<Rightarrow> b | None \<Rightarrow> [])
      | _ \<Rightarrow> (case to_float v of
          Some f \<Rightarrow> ''n:'' @ format_float f
        | None \<Rightarrow> (case json_enc v of Some b \<Rightarrow> ''j:'' @ b | None \<Rightarrow> ''x:'' @ fmt_v v)))"

definition encodeIndexKey :: "jval list \<Rightarrow> string" where
  "encodeIndexKey values = join_with key_sep (map encodeIndexValue values)"

text \<open>One row per combination of the fields' values; a top-level array contributes its elements.\<close>

definition index_values :: "document \<Rightarrow> string \<Rightarrow> jval list" where
  "index_values doc f =
     (case lookup_first doc f of
        None \<Rightarrow> [JNull]
      | Some (JArr arr) \<Rightarrow> if arr = [] then [JNull] else arr
      | Some v \<Rightarrow> [v])"

definition extend_rows :: "jval list list \<Rightarrow> jval list \<Rightarrow> jval list list" where
  "extend_rows rows vs = concat (map (\<lambda>v. map (\<lambda>row. row @ [v]) rows) vs)"

definition extractIndexRows :: "document \<Rightarrow> string list \<Rightarrow> jval list list" where
  "extractIndexRows doc flds = foldl (\<lambda>rows f. extend_rows rows (index_values doc f)) [[]] flds"

definition row_val :: "jval list \<Rightarrow> jval" where
  "row_val row = (case row of [] \<Rightarrow> JNull | v # _ \<Rightarrow> v)"

section \<open>Order of keys\<close>

definition typeRank :: "jval \<Rightarrow> nat" where
  "typeRank v =
     (if v = JNull then 0 else if to_float v \<noteq> None then 1
      else case v of JStr _ \<Rightarrow> 2 | JBool _ \<Rightarrow> 3 | _ \<Rightarrow> 4)"

definition compareOrdered :: "jval \<Rightarrow> jval \<Rightarrow> int" where
  "compareOrdered a b =
     (if typeRank a \<noteq> typeRank b then (if typeRank a < typeRank b then -1 else 1)
      else if typeRank a = 0 then 0
      else if typeRank a = 3 then
        (if a = b then 0 else if a = JBool False then -1 else 1)
      else if typeRank a = 4 then 0
      else compareValues a b)"

definition ordLess :: "ord_entry \<Rightarrow> ord_entry \<Rightarrow> bool" where
  "ordLess a b =
     (let c = compareOrdered (fst a) (fst b) in if c \<noteq> 0 then c < 0 else snd a < snd b)"

text \<open>
  \<open>sort.Slice\<close> under \<open>ordLess\<close>. Go's sort is not stable, but the keys of \<open>ord\<close> are distinct, so
  the sorted order is the only one (lemma \<open>ord_sort_unique\<close> of \<open>Index_Laws\<close>).
\<close>

fun ord_insert :: "ord_entry \<Rightarrow> ord_entry list \<Rightarrow> ord_entry list" where
  "ord_insert e [] = [e]"
| "ord_insert e (x # xs) = (if ordLess x e then x # ord_insert e xs else e # x # xs)"

definition ord_sort :: "ord_entry list \<Rightarrow> ord_entry list" where
  "ord_sort xs = foldr ord_insert xs []"

definition ensureOrd :: "index \<Rightarrow> index" where
  "ensureOrd idx = (if ix_dirty idx then idx\<lparr>ix_ord := ord_sort (ix_ord idx), ix_dirty := False\<rparr> else idx)"

definition insert_at :: "nat \<Rightarrow> 'a \<Rightarrow> 'a list \<Rightarrow> 'a list" where
  "insert_at i x xs = take i xs @ x # drop i xs"

definition remove_at :: "nat \<Rightarrow> 'a list \<Rightarrow> 'a list" where
  "remove_at i xs = take i xs @ drop (Suc i) xs"

text \<open>The first position at which \<open>e\<close> may stand in a sorted \<open>ord\<close>.\<close>

definition ord_pos :: "ord_entry list \<Rightarrow> ord_entry \<Rightarrow> nat" where
  "ord_pos xs e = sort_search (length xs) (\<lambda>i. \<not> ordLess (xs ! i) e)"

definition ordAdd :: "ord_entry \<Rightarrow> index \<Rightarrow> index" where
  "ordAdd e idx =
     (if ix_dirty idx then idx\<lparr>ix_ord := ix_ord idx @ [e]\<rparr>
      else idx\<lparr>ix_ord := insert_at (ord_pos (ix_ord idx) e) e (ix_ord idx)\<rparr>)"

fun remove_key :: "string \<Rightarrow> ord_entry list \<Rightarrow> ord_entry list" where
  "remove_key k [] = []"
| "remove_key k (x # xs) = (if snd x = k then xs else x # remove_key k xs)"

definition ordRemove :: "ord_entry \<Rightarrow> index \<Rightarrow> index" where
  "ordRemove e idx =
     (if ix_dirty idx then idx\<lparr>ix_ord := remove_key (snd e) (ix_ord idx)\<rparr>
      else let i = ord_pos (ix_ord idx) e in
        if i < length (ix_ord idx) \<and> snd (ix_ord idx ! i) = snd e
        then idx\<lparr>ix_ord := remove_at i (ix_ord idx)\<rparr>
        else idx\<lparr>ix_ord := remove_key (snd e) (ix_ord idx)\<rparr>)"

section \<open>Adding and removing a document\<close>

definition add_id :: "string \<Rightarrow> string list \<Rightarrow> string list" where
  "add_id did ids = (if did \<in> set ids then ids else ids @ [did])"

definition addKey :: "string \<Rightarrow> jval \<Rightarrow> string \<Rightarrow> index \<Rightarrow> index" where
  "addKey k v docID idx0 =
     (let idx = idx0\<lparr>ix_matrix := None\<rparr> in
      if ix_unique idx then
        (let idx1 = (if map_of (ix_uniq idx) k = None then ordAdd (v, k) idx else idx)
         in idx1\<lparr>ix_uniq := mput k docID (ix_uniq idx1)\<rparr>)
      else
        (case map_of (ix_entries idx) k of
           None \<Rightarrow> (ordAdd (v, k) idx)\<lparr>ix_entries := mput k [docID] (ix_entries idx)\<rparr>
         | Some ids \<Rightarrow> idx\<lparr>ix_entries := mput k (add_id docID ids) (ix_entries idx)\<rparr>))"

text \<open>The staging loop: distinct keys with their first values, or a unique conflict.\<close>

fun stage_keys :: "index \<Rightarrow> string \<Rightarrow> string list \<Rightarrow> jval list list \<Rightarrow> (string \<times> jval) list res" where
  "stage_keys idx docID seen [] = Inr []"
| "stage_keys idx docID seen (row # rows) =
     (let k = encodeIndexKey row in
      if k \<in> set seen then stage_keys idx docID seen rows
      else if ix_unique idx \<and> (case map_of (ix_uniq idx) k of Some owner \<Rightarrow> owner \<noteq> docID | None \<Rightarrow> False)
      then Inl ErrDuplicate
      else and_then (stage_keys idx docID (k # seen) rows) (\<lambda>r. Inr ((k, row_val row) # r)))"

definition addKeys :: "(string \<times> jval) list \<Rightarrow> string \<Rightarrow> index \<Rightarrow> index" where
  "addKeys kvs docID idx = foldl (\<lambda>ix p. addKey (fst p) (snd p) docID ix) idx kvs"

definition addDoc :: "document \<Rightarrow> string \<Rightarrow> index \<Rightarrow> index res" where
  "addDoc doc docID idx =
     and_then (stage_keys idx docID [] (extractIndexRows doc (ix_fields idx)))
       (\<lambda>kvs. Inr (addKeys kvs docID idx))"

definition removeKey :: "string \<Rightarrow> jval \<Rightarrow> string \<Rightarrow> index \<Rightarrow> index" where
  "removeKey k v docID idx0 =
     (let idx = idx0\<lparr>ix_matrix := None\<rparr> in
      if ix_unique idx then
        (if map_of (ix_uniq idx) k = Some docID
         then ordRemove (v, k) (idx\<lparr>ix_uniq := mdel k (ix_uniq idx)\<rparr>) else idx)
      else
        (case map_of (ix_entries idx) k of
           None \<Rightarrow> idx
         | Some ids \<Rightarrow>
             let rest = removeAll docID ids in
             if rest = [] then ordRemove (v, k) (idx\<lparr>ix_entries := mdel k (ix_entries idx)\<rparr>)
             else idx\<lparr>ix_entries := mput k rest (ix_entries idx)\<rparr>))"

definition removeDoc :: "document \<Rightarrow> string \<Rightarrow> index \<Rightarrow> index" where
  "removeDoc doc docID idx =
     foldl (\<lambda>ix row. removeKey (encodeIndexKey row) (row_val row) docID ix) idx
       (extractIndexRows doc (ix_fields idx))"

section \<open>Lookups\<close>

definition ids_at :: "index \<Rightarrow> string \<Rightarrow> string list" where
  "ids_at idx k = (case map_of (ix_entries idx) k of Some ids \<Rightarrow> ids | None \<Rightarrow> [])"

definition key_ids :: "index \<Rightarrow> string \<Rightarrow> string list" where
  "key_ids idx k =
     (if ix_unique idx then (case map_of (ix_uniq idx) k of Some did \<Rightarrow> [did] | None \<Rightarrow> [])
      else ids_at idx k)"

definition lookupIDs :: "index \<Rightarrow> jval list \<Rightarrow> string list" where
  "lookupIDs idx values = key_ids idx (encodeIndexKey values)"

definition countKey :: "index \<Rightarrow> jval list \<Rightarrow> nat" where
  "countKey idx values =
     (let k = encodeIndexKey values in
      if ix_unique idx then (if map_of (ix_uniq idx) k \<noteq> None then 1 else 0)
      else length (ids_at idx k))"

definition covers :: "index \<Rightarrow> document \<Rightarrow> string \<Rightarrow> bool" where
  "covers idx doc docID \<longleftrightarrow>
     (\<forall>row \<in> set (extractIndexRows doc (ix_fields idx)).
        let k = encodeIndexKey row in
        if ix_unique idx then map_of (ix_uniq idx) k = Some docID
        else docID \<in> set (ids_at idx k))"

definition union_ids :: "string list \<Rightarrow> string list \<Rightarrow> string list" where
  "union_ids out ids = foldl (\<lambda>o' did. add_id did o') out ids"

definition collectPrefixScan :: "index \<Rightarrow> string \<Rightarrow> string list" where
  "collectPrefixScan idx prefix =
     (if ix_unique idx
      then foldl (\<lambda>out p. if has_prefix (fst p) prefix then add_id (snd p) out else out) [] (ix_uniq idx)
      else foldl (\<lambda>out p. if has_prefix (fst p) prefix then union_ids out (snd p) else out) [] (ix_entries idx))"

text \<open>The predicate \<open>seekPrefix\<close> and \<open>seekRange\<close> search with: rank first, then a comparison.\<close>

definition band_pred :: "index \<Rightarrow> nat \<Rightarrow> (jval \<Rightarrow> bool) \<Rightarrow> nat \<Rightarrow> bool" where
  "band_pred idx rank inside i =
     (let r = typeRank (fst (ix_ord idx ! i)) in if r \<noteq> rank then rank < r else inside (fst (ix_ord idx ! i)))"

definition ord_search :: "index \<Rightarrow> nat \<Rightarrow> (jval \<Rightarrow> bool) \<Rightarrow> nat" where
  "ord_search idx rank inside = sort_search (length (ix_ord idx)) (band_pred idx rank inside)"

definition ord_slice :: "index \<Rightarrow> nat \<Rightarrow> nat \<Rightarrow> ord_entry list" where
  "ord_slice idx start end' = take (end' - start) (drop start (ix_ord idx))"

text \<open>The index as \<open>seekPrefix\<close> leaves it (it may sort \<open>ord\<close>) and the ids it returns.\<close>

definition seekPrefix :: "index \<Rightarrow> jval list \<Rightarrow> index \<times> string list" where
  "seekPrefix idx values =
     (if values = [] then (idx, [])
      else if length values = length (ix_fields idx) then (idx, lookupIDs idx values)
      else let prefix = encodeIndexKey values @ key_sep; target = hd values; rank = typeRank target in
        if rank = 0 \<or> rank = 3 \<or> rank = 4 then (idx, collectPrefixScan idx prefix)
        else let idx1 = ensureOrd idx;
                 start = ord_search idx1 rank (\<lambda>v. 0 \<le> compareOrdered v target);
                 end' = ord_search idx1 rank (\<lambda>v. 0 < compareOrdered v target)
             in (idx1, foldl (\<lambda>out e. if has_prefix (snd e) prefix
                                      then union_ids out (key_ids idx1 (snd e)) else out) []
                         (ord_slice idx1 start end')))"

record range_bound =
  rb_lo :: jval
  rb_hi :: jval
  rb_hasLo :: bool
  rb_hasHi :: bool
  rb_loIncl :: bool
  rb_hiIncl :: bool

definition empty_bound :: range_bound where
  "empty_bound = \<lparr>rb_lo = JNull, rb_hi = JNull, rb_hasLo = False, rb_hasHi = False,
     rb_loIncl = False, rb_hiIncl = False\<rparr>"

definition idsSortedForKey :: "index \<Rightarrow> string \<Rightarrow> string list" where
  "idsSortedForKey idx k = sort (ids_at idx k)"

definition map_row_ids :: "index \<Rightarrow> string \<Rightarrow> string list" where
  "map_row_ids idx k =
     (if ix_unique idx then (case map_of (ix_uniq idx) k of Some did \<Rightarrow> [did] | None \<Rightarrow> [])
      else idsSortedForKey idx k)"

definition csr_row :: "csr_matrix \<Rightarrow> nat \<Rightarrow> int list" where
  "csr_row m i = (let lo = nat (m_indptr m ! i); hi = nat (m_indptr m ! Suc i)
     in take (hi - lo) (drop lo (m_indices m)))"

definition csr_row_ids :: "csr_matrix \<Rightarrow> nat \<Rightarrow> string list" where
  "csr_row_ids m i = map (\<lambda>col. m_ids m ! nat col) (csr_row m i)"

definition collectRange :: "index \<Rightarrow> nat \<Rightarrow> nat \<Rightarrow> string list" where
  "collectRange idx start end' =
     (case ix_matrix idx of
        Some m \<Rightarrow>
          if \<not> ix_dirty idx \<and> length (m_indptr m) = length (ix_ord idx) + 1
          then concat (map (csr_row_ids m) [start..<end'])
          else concat (map (\<lambda>e. map_row_ids idx (snd e)) (ord_slice idx start end'))
      | None \<Rightarrow> concat (map (\<lambda>e. map_row_ids idx (snd e)) (ord_slice idx start end')))"

text \<open>The rank a range is about, \<open>None\<close> where the code returns no ids at once.\<close>

definition range_rank :: "range_bound \<Rightarrow> nat option" where
  "range_rank rb =
     (let rank =
        (if rb_hasLo rb \<and> rb_hasHi rb then
           (if typeRank (rb_lo rb) \<noteq> typeRank (rb_hi rb) then None else Some (typeRank (rb_lo rb)))
         else if rb_hasLo rb then Some (typeRank (rb_lo rb))
         else if rb_hasHi rb then Some (typeRank (rb_hi rb))
         else None)
      in case rank of None \<Rightarrow> None | Some r \<Rightarrow> if r = 0 \<or> r = 3 \<or> r = 4 then None else Some r)"

definition above_lo :: "range_bound \<Rightarrow> jval \<Rightarrow> bool" where
  "above_lo rb v \<longleftrightarrow> (let c = compareOrdered v (rb_lo rb) in if rb_loIncl rb then 0 \<le> c else 0 < c)"

definition beyond_hi :: "range_bound \<Rightarrow> jval \<Rightarrow> bool" where
  "beyond_hi rb v \<longleftrightarrow> (let c = compareOrdered v (rb_hi rb) in if rb_hiIncl rb then 0 < c else 0 \<le> c)"

definition seekRange :: "index \<Rightarrow> range_bound \<Rightarrow> index \<times> string list" where
  "seekRange idx rb =
     (let idx1 = ensureOrd idx in
      case range_rank rb of
        None \<Rightarrow> (idx1, [])
      | Some rank \<Rightarrow>
          let start = (if rb_hasLo rb then ord_search idx1 rank (above_lo rb)
                       else sort_search (length (ix_ord idx1)) (\<lambda>i. rank \<le> typeRank (fst (ix_ord idx1 ! i))));
              end' = (if rb_hasHi rb then ord_search idx1 rank (beyond_hi rb)
                      else sort_search (length (ix_ord idx1)) (\<lambda>i. rank < typeRank (fst (ix_ord idx1 ! i))))
          in (idx1, collectRange idx1 start end'))"

definition orderedIDs :: "index \<Rightarrow> index \<times> string list" where
  "orderedIDs idx =
     (let idx1 = ensureOrd idx in
      (idx1, case ix_matrix idx1 of
         Some m \<Rightarrow> if \<not> ix_dirty idx1 \<and> length (m_indptr m) = length (ix_ord idx1) + 1
                   then map (\<lambda>col. m_ids m ! nat col) (m_indices m)
                   else concat (map (\<lambda>e. map_row_ids idx1 (snd e)) (ix_ord idx1))
       | None \<Rightarrow> concat (map (\<lambda>e. map_row_ids idx1 (snd e)) (ix_ord idx1))))"

definition sameFields :: "string list \<Rightarrow> string list \<Rightarrow> bool" where
  "sameFields a b \<longleftrightarrow> a = b"

end
