(* ===== verification/Graph.thy ===== *)
theory Graph
  imports Values "HOL-Library.Multiset"
begin

text \<open>
  The graph layer of \<open>db/graph.go\<close> on plain data: the CSR adjacency snapshot of one edge type
  (\<open>buildAdj\<close>, \<open>neighborsOf\<close>) and the two breadth-first searches as loops over a queue. The
  theorem about the snapshot is that a row lists exactly the neighbours of its vertex, sorted and
  without repetitions. The searches are in \<open>Graph_Search\<close>, access control and the snapshot cache in
  \<open>Store_Graph\<close>.
\<close>

section \<open>The adjacency snapshot\<close>

record graph_adj =
  ga_keys :: "string list"
  ga_keyIdx :: "nat gomap"
  ga_indptr :: "nat list"
  ga_indices :: "nat list"
  ga_neigh :: "string list"

definition neighborsOf :: "graph_adj option \<Rightarrow> string \<Rightarrow> string list" where
  "neighborsOf g v =
     (case g of None \<Rightarrow> []
      | Some a \<Rightarrow> (case map_of (ga_keyIdx a) v of None \<Rightarrow> []
         | Some row \<Rightarrow>
             let start = ga_indptr a ! row; end' = ga_indptr a ! (row + 1)
             in map (\<lambda>col. ga_neigh a ! col) (take (end' - start) (drop start (ga_indices a)))))"

text \<open>The buckets: for every source its set of targets.\<close>

definition at_key :: "string list gomap \<Rightarrow> string \<Rightarrow> string list" where
  "at_key b k = (case map_of b k of None \<Rightarrow> [] | Some vs \<Rightarrow> vs)"

definition bucket_add :: "bool \<Rightarrow> string list gomap \<Rightarrow> string \<times> string \<Rightarrow> string list gomap" where
  "bucket_add rev' b p =
     (let k = (if rev' then snd p else fst p); v = (if rev' then fst p else snd p);
          old = at_key b k
      in mput k (if v \<in> set old then old else old @ [v]) b)"

definition buckets :: "(string \<times> string) list \<Rightarrow> bool \<Rightarrow> string list gomap" where
  "buckets pairs rev' = foldl (bucket_add rev') [] pairs"

definition empty_adj :: graph_adj where
  "empty_adj = \<lparr>ga_keys = [], ga_keyIdx = [], ga_indptr = [], ga_indices = [], ga_neigh = []\<rparr>"

text \<open>One neighbour: its column is looked up in \<open>vertIdx\<close>, or opened.\<close>

definition add_neighbor :: "nat gomap \<times> graph_adj \<Rightarrow> string \<Rightarrow> nat gomap \<times> graph_adj" where
  "add_neighbor st v =
     (let (vi, a) = st in
      case map_of vi v of
        Some col \<Rightarrow> (vi, a\<lparr>ga_indices := ga_indices a @ [col]\<rparr>)
      | None \<Rightarrow> let col = length (ga_neigh a) in
          (mput v col vi, a\<lparr>ga_neigh := ga_neigh a @ [v], ga_indices := ga_indices a @ [col]\<rparr>))"

definition add_row :: "string list gomap \<Rightarrow> nat gomap \<times> graph_adj \<Rightarrow> string \<Rightarrow> nat gomap \<times> graph_adj" where
  "add_row b st k =
     (let (vi, a) = st;
          a1 = a\<lparr>ga_keyIdx := mput k (length (ga_keys a)) (ga_keyIdx a), ga_keys := ga_keys a @ [k]\<rparr>;
          ns = at_key b k;
          (vi2, a2) = foldl add_neighbor (vi, a1) (sort ns)
      in (vi2, a2\<lparr>ga_indptr := ga_indptr a2 @ [length (ga_indices a2)]\<rparr>))"

definition buildAdj :: "(string \<times> string) list \<Rightarrow> bool \<Rightarrow> graph_adj" where
  "buildAdj pairs rev' =
     (let b = buckets pairs rev' in
      if b = [] then empty_adj
      else snd (foldl (add_row b) ([], empty_adj\<lparr>ga_indptr := [0]\<rparr>) (sort (map fst b))))"

section \<open>Names of edge collections\<close>

definition edgeCollPrefix :: string where "edgeCollPrefix = ''edges.''"

definition isEdgeColl :: "string \<Rightarrow> bool" where
  "isEdgeColl name \<longleftrightarrow> has_prefix name edgeCollPrefix \<and> length edgeCollPrefix < length name"

definition edgeCollName :: "string \<Rightarrow> string" where
  "edgeCollName et = edgeCollPrefix @ et"

definition validateEdge :: "string \<Rightarrow> string \<Rightarrow> string \<Rightarrow> unit res" where
  "validateEdge et from to =
     (if et = [] then Inl (ErrOther ''db: edge type required'')
      else if \<exists>c \<in> set et. c \<in> {CHR '' '', CHR 0x09, CHR 0x0A} then Inl (ErrOther ''db: invalid edge type'')
      else if from = [] \<or> to = [] then Inl (ErrOther ''db: edge requires non-empty _from and _to'')
      else Inr ())"

section \<open>Laws of the snapshot\<close>

text \<open>The edges of one orientation as a set.\<close>

definition edge_set :: "(string \<times> string) list \<Rightarrow> bool \<Rightarrow> (string \<times> string) set" where
  "edge_set pairs rev' = (if rev' then (\<lambda>(a, b). (b, a)) ` set pairs else set pairs)"

lemma edge_set_Nil [simp]: "edge_set [] r = {}"
  by (simp add: edge_set_def)

lemma edge_set_snoc: "edge_set (ps @ [p]) r =
    insert (if r then snd p else fst p, if r then fst p else snd p) (edge_set ps r)"
  by (cases p) (auto simp: edge_set_def)

lemma at_key_mput [simp]: "at_key (mput k vs b) k' = (if k' = k then vs else at_key b k')"
  by (simp add: at_key_def)

lemma buckets_spec:
  "distinct_keys (buckets pairs r) \<and> (\<forall>k. distinct (at_key (buckets pairs r) k))
    \<and> (\<forall>k v. v \<in> set (at_key (buckets pairs r) k) \<longleftrightarrow> (k, v) \<in> edge_set pairs r)"
proof (induction pairs rule: rev_induct)
  case (snoc p ps)
  have b: "buckets (ps @ [p]) r = bucket_add r (buckets ps r) p" by (simp add: buckets_def)
  define k where "k = (if r then snd p else fst p)"
  define v where "v = (if r then fst p else snd p)"
  have ak: "at_key (bucket_add r (buckets ps r) p) k' =
      (if k' = k then (if v \<in> set (at_key (buckets ps r) k) then at_key (buckets ps r) k
                       else at_key (buckets ps r) k @ [v]) else at_key (buckets ps r) k')" for k'
    by (simp only: bucket_add_def Let_def at_key_mput k_def [symmetric] v_def [symmetric])
  have e: "edge_set (ps @ [p]) r = insert (k, v) (edge_set ps r)"
    by (simp add: edge_set_snoc k_def v_def)
  have "distinct_keys (bucket_add r (buckets ps r) p)"
    using snoc by (simp add: bucket_add_def Let_def)
  then show ?case unfolding b e using snoc ak by auto
qed (simp add: buckets_def at_key_def)

text \<open>What the columns mean while rows are added.\<close>

definition cols_ok :: "nat gomap \<times> graph_adj \<Rightarrow> bool" where
  "cols_ok st \<longleftrightarrow> (\<forall>v c. map_of (fst st) v = Some c \<longrightarrow> c < length (ga_neigh (snd st)) \<and> ga_neigh (snd st) ! c = v)
     \<and> (\<forall>c \<in> set (ga_indices (snd st)). c < length (ga_neigh (snd st)))"

abbreviation names :: "graph_adj \<Rightarrow> string list" where
  "names a \<equiv> map ((!) (ga_neigh a)) (ga_indices a)"

lemma add_neighbor_spec:
  assumes "cols_ok st" and "add_neighbor st v = st'"
  shows "cols_ok st' \<and> names (snd st') = names (snd st) @ [v] \<and> ga_indptr (snd st') = ga_indptr (snd st)
    \<and> ga_keys (snd st') = ga_keys (snd st) \<and> ga_keyIdx (snd st') = ga_keyIdx (snd st)"
  using assms
  by (cases st) (auto simp: add_neighbor_def cols_ok_def Let_def nth_append less_SucI split: option.splits if_splits)

lemma add_neighbors_spec:
  assumes "cols_ok st" and "foldl add_neighbor st vs = st'"
  shows "cols_ok st' \<and> names (snd st') = names (snd st) @ vs \<and> ga_indptr (snd st') = ga_indptr (snd st)
    \<and> ga_keys (snd st') = ga_keys (snd st) \<and> ga_keyIdx (snd st') = ga_keyIdx (snd st)"
  using assms
proof (induction vs arbitrary: st)
  case (Cons v vs)
  then show ?case
    using add_neighbor_spec [OF Cons.prems(1) refl, of v] Cons.IH [of "add_neighbor st v"] by simp
qed auto

text \<open>The rows that are complete, in the order of the keys.\<close>

definition rows_match :: "string list gomap \<Rightarrow> graph_adj \<Rightarrow> bool" where
  "rows_match b a \<longleftrightarrow>
     length (ga_indptr a) = Suc (length (ga_keys a)) \<and> last (ga_indptr a) = length (ga_indices a)
     \<and> distinct (ga_keys a) \<and> (\<forall>k i. map_of (ga_keyIdx a) k = Some i \<longleftrightarrow> i < length (ga_keys a) \<and> ga_keys a ! i = k)
     \<and> (\<forall>i < length (ga_keys a). ga_indptr a ! i \<le> ga_indptr a ! Suc i \<and> ga_indptr a ! Suc i \<le> length (ga_indices a)
          \<and> take (ga_indptr a ! Suc i - ga_indptr a ! i) (drop (ga_indptr a ! i) (names a))
              = sort (at_key b (ga_keys a ! i)))"

lemma slice_append: "m' \<le> length xs \<Longrightarrow> take (m' - m) (drop m (xs @ ys)) = take (m' - m) (drop m xs)"
  by (cases "m \<le> length xs") auto

lemma add_row_spec:
  assumes "cols_ok st" and "rows_match b (snd st)" and "k \<notin> set (ga_keys (snd st))"
  shows "cols_ok (add_row b st k) \<and> rows_match b (snd (add_row b st k))
    \<and> ga_keys (snd (add_row b st k)) = ga_keys (snd st) @ [k]"
proof -
  obtain vi a where st: "st = (vi, a)" by (cases st)
  define a1 where "a1 = a\<lparr>ga_keyIdx := mput k (length (ga_keys a)) (ga_keyIdx a), ga_keys := ga_keys a @ [k]\<rparr>"
  define ns where "ns = sort (at_key b k)"
  obtain vi2 a2 where f: "foldl add_neighbor (vi, a1) ns = (vi2, a2)" by fastforce
  have c1: "cols_ok (vi, a1)" using assms(1) by (simp add: cols_ok_def st a1_def)
  note sp = add_neighbors_spec [OF c1 f, simplified]
  have names1: "names a1 = names a" by (simp add: a1_def)
  have out: "add_row b st k = (vi2, a2\<lparr>ga_indptr := ga_indptr a2 @ [length (ga_indices a2)]\<rparr>)"
    using f by (simp add: add_row_def st a1_def ns_def at_key_def Let_def)
  have len: "length (ga_indices a2) = length (ga_indices a) + length ns"
    using arg_cong [OF conjunct1 [OF conjunct2 [OF sp]], of length] by (simp add: a1_def)
  note rm = assms(2) [unfolded st rows_match_def, simplified]
  have ip: "ga_indptr a2 = ga_indptr a" "ga_keys a2 = ga_keys a @ [k]" using sp by (simp_all add: a1_def)
  have lastip: "ga_indptr a ! length (ga_keys a) = length (ga_indices a)"
    using rm by (metis diff_Suc_1 last_conv_nth length_0_conv nat.distinct(1))
  have names2: "names a2 = names a @ ns" using sp names1 by simp
  have rows: "take ((ga_indptr a @ [length (ga_indices a2)]) ! Suc i - (ga_indptr a @ [length (ga_indices a2)]) ! i)
      (drop ((ga_indptr a @ [length (ga_indices a2)]) ! i) (names a2)) = sort (at_key b ((ga_keys a @ [k]) ! i))"
    if i: "i < Suc (length (ga_keys a))" for i
  proof (cases "i = length (ga_keys a)")
    case True
    then show ?thesis using rm lastip len names2 by (simp add: nth_append ns_def)
  next
    case False
    then have "i < length (ga_keys a)" using i by simp
    moreover from this have "ga_indptr a ! i \<le> ga_indptr a ! Suc i" "ga_indptr a ! Suc i \<le> length (names a)"
      "take (ga_indptr a ! Suc i - ga_indptr a ! i) (drop (ga_indptr a ! i) (names a)) = sort (at_key b (ga_keys a ! i))"
      using rm by auto
    ultimately show ?thesis using rm names2 slice_append [of "ga_indptr a ! Suc i" "names a"]
      by (simp add: nth_append)
  qed
  have mono: "(ga_indptr a @ [length (ga_indices a2)]) ! i \<le> (ga_indptr a @ [length (ga_indices a2)]) ! Suc i
      \<and> (ga_indptr a @ [length (ga_indices a2)]) ! Suc i \<le> length (ga_indices a2)"
    if "i < Suc (length (ga_keys a))" for i
  proof (cases "i = length (ga_keys a)")
    case True
    then show ?thesis using rm lastip len by (simp add: nth_append)
  next
    case False
    then have "ga_indptr a ! i \<le> ga_indptr a ! Suc i" "ga_indptr a ! Suc i \<le> length (ga_indices a)"
      "i < length (ga_keys a)" using rm that by auto
    then show ?thesis using rm len by (simp add: nth_append trans_le_add1)
  qed
  have ki: "map_of (ga_keyIdx a2) k' = Some i \<longleftrightarrow> i < Suc (length (ga_keys a)) \<and> (ga_keys a @ [k]) ! i = k'" for k' i
    using sp rm assms(3) by (auto simp: a1_def st nth_append less_Suc_eq dest: nth_mem)
  have co: "cols_ok (add_row b st k)" using sp by (simp add: out cols_ok_def)
  have "rows_match b (a2\<lparr>ga_indptr := ga_indptr a2 @ [length (ga_indices a2)]\<rparr>)"
    unfolding rows_match_def using ip rm rows mono ki assms(3) by (simp add: st)
  then show ?thesis using co ip out by (simp add: st)
qed

lemma buildAdj_rows:
  assumes "buckets pairs r \<noteq> []"
  shows "rows_match (buckets pairs r) (buildAdj pairs r)"
    and "set (ga_keys (buildAdj pairs r)) = keys (buckets pairs r)"
proof -
  let ?b = "buckets pairs r"
  have *: "cols_ok (foldl (add_row ?b) st ks) \<and> rows_match ?b (snd (foldl (add_row ?b) st ks))
      \<and> ga_keys (snd (foldl (add_row ?b) st ks)) = ga_keys (snd st) @ ks"
    if "cols_ok st" "rows_match ?b (snd st)" "distinct (ga_keys (snd st) @ ks)" for st ks
    using that
  proof (induction ks arbitrary: st)
    case (Cons k ks)
    then show ?case using add_row_spec [OF Cons.prems(1,2), of k] by simp
  qed simp
  have "distinct (sort (map fst ?b))" using buckets_spec [of pairs r] by (simp add: distinct_keys_def)
  moreover have "cols_ok ([], empty_adj\<lparr>ga_indptr := [0]\<rparr>)" "rows_match ?b (empty_adj\<lparr>ga_indptr := [0]\<rparr>)"
    by (simp_all add: cols_ok_def rows_match_def empty_adj_def)
  ultimately have "rows_match ?b (buildAdj pairs r) \<and> ga_keys (buildAdj pairs r) = sort (map fst ?b)"
    using * [of "([], empty_adj\<lparr>ga_indptr := [0]\<rparr>)" "sort (map fst ?b)"] assms
    by (simp add: buildAdj_def Let_def empty_adj_def)
  then show "rows_match ?b (buildAdj pairs r)" "set (ga_keys (buildAdj pairs r)) = keys ?b" by auto
qed

text \<open>A row lists the neighbours of its vertex, each once, in ascending order.\<close>

lemma neighborsOf_buildAdj:
  "neighborsOf (Some (buildAdj pairs r)) v = sort (at_key (buckets pairs r) v)"
proof (cases "buckets pairs r = []")
  case True
  then show ?thesis by (simp add: buildAdj_def neighborsOf_def empty_adj_def at_key_def)
next
  case False
  note rm = buildAdj_rows(1) [OF False, unfolded rows_match_def]
  show ?thesis
  proof (cases "map_of (ga_keyIdx (buildAdj pairs r)) v")
    case None
    then have "v \<notin> set (ga_keys (buildAdj pairs r))"
      using rm by (metis in_set_conv_nth option.distinct(1))
    then have "map_of (buckets pairs r) v = None" using buildAdj_rows(2) [OF False] by (simp add: map_of_None_keys)
    then show ?thesis using None by (simp add: neighborsOf_def at_key_def)
  next
    case (Some i)
    let ?a = "buildAdj pairs r"
    have "i < length (ga_keys ?a)" "ga_keys ?a ! i = v" using rm Some by auto
    then have "take (ga_indptr ?a ! Suc i - ga_indptr ?a ! i) (drop (ga_indptr ?a ! i) (names ?a))
        = sort (at_key (buckets pairs r) v)" using rm by auto
    then show ?thesis using Some by (simp add: neighborsOf_def Let_def take_map drop_map)
  qed
qed

lemma neighborsOf_set: "set (neighborsOf (Some (buildAdj pairs r)) v) = {w. (v, w) \<in> edge_set pairs r}"
  and neighborsOf_sorted: "sorted (neighborsOf (Some (buildAdj pairs r)) v)"
  and neighborsOf_distinct: "distinct (neighborsOf (Some (buildAdj pairs r)) v)"
  using buckets_spec [of pairs r] by (auto simp: neighborsOf_buildAdj)

end
