(* ===== verification/Rbac.thy ===== *)
theory Rbac
  imports Query_Filter
begin

text \<open>
  Access control of \<open>db/auth.go\<close> on plain data: permissions, the fields a session may not see,
  redaction, and the test that a filter does not probe a hidden field. Which session is valid
  depends on the store and is in \<open>Store\<close>.
\<close>

section \<open>Permissions and sessions\<close>

record permission =
  pm_collection :: string
  pm_read :: bool
  pm_write :: bool
  pm_fieldDeny :: "string list"

text \<open>
  A session; \<open>ss_ref\<close> is the identity of the Go pointer (\<open>cur == sess\<close> compares pointers),
  \<open>ss_expires\<close> is \<open>None\<close> for the zero time.
\<close>

record session =
  ss_ref :: nat
  ss_token :: string
  ss_user :: string
  ss_roles :: "string list"
  ss_perms :: "permission list"
  ss_expires :: "int option"
  ss_system :: bool

definition usersColl :: string where "usersColl = ''_users''"
definition rolesColl :: string where "rolesColl = ''_roles''"
definition triggersColl :: string where "triggersColl = ''_triggers''"

definition isSystemColl :: "string \<Rightarrow> bool" where
  "isSystemColl name \<longleftrightarrow> name = usersColl \<or> name = rolesColl \<or> name = triggersColl"

definition perm_covers :: "string \<Rightarrow> permission \<Rightarrow> bool" where
  "perm_covers coll p \<longleftrightarrow> pm_collection p = coll \<or> pm_collection p = ''*''"

definition canRead :: "session \<Rightarrow> string \<Rightarrow> bool" where
  "canRead sess coll \<longleftrightarrow> ss_system sess \<or> (\<exists>p \<in> set (ss_perms sess). perm_covers coll p \<and> pm_read p)"

definition canWrite :: "session \<Rightarrow> string \<Rightarrow> bool" where
  "canWrite sess coll \<longleftrightarrow> ss_system sess \<or> (\<exists>p \<in> set (ss_perms sess). perm_covers coll p \<and> pm_write p)"

definition fieldDenySet :: "session \<Rightarrow> string \<Rightarrow> string list" where
  "fieldDenySet sess coll = remdups (concat (map pm_fieldDeny (filter (perm_covers coll) (ss_perms sess))))"

definition redactDoc :: "string list \<Rightarrow> document \<Rightarrow> document" where
  "redactDoc deny doc = foldl (\<lambda>d f. mdel f d) doc deny"

lemma sum_list_elem: "x \<in> set xs \<Longrightarrow> f x < sum_list (map (\<lambda>x. Suc (f x)) xs)"
  by (induction xs) auto

function filterTouchesFields :: "string list \<Rightarrow> document \<Rightarrow> bool" where
  "filterTouchesFields deny flt =
     (\<exists>p \<in> set flt.
        if has_prefix (fst p) ''$''
        then (if fst p \<in> {''$and'', ''$or'', ''$nor''}
              then (case toDocList (snd p) of
                      Inl _ \<Rightarrow> False
                    | Inr subs \<Rightarrow> (\<exists>sub \<in> set subs. filterTouchesFields deny sub))
              else if fst p = ''$not''
              then (case toDoc (snd p) of Inl _ \<Rightarrow> False | Inr sub \<Rightarrow> filterTouchesFields deny sub)
              else False)
        else fst p \<in> set deny)"
  by pat_completeness auto

termination
proof (relation "measure (\<lambda>(deny, flt). docsize flt)")
  fix deny :: "string list" and flt :: document and p subs sub
  assume "p \<in> set flt" "toDocList (snd p) = Inr subs" "sub \<in> set subs"
  then show "((deny, sub), deny, flt) \<in> measure (\<lambda>(deny, flt). docsize flt)"
    using toDocList_size sum_list_elem [of sub subs docsize] docsize_elem [of "fst p" "snd p" flt] by fastforce
next
  fix deny :: "string list" and flt :: document and p sub
  assume "p \<in> set flt" "toDoc (snd p) = Inr sub"
  then show "((deny, sub), deny, flt) \<in> measure (\<lambda>(deny, flt). docsize flt)"
    using toDoc_size [of "snd p" sub] docsize_elem [of "fst p" "snd p" flt] by fastforce
qed simp

declare filterTouchesFields.simps [simp del]

section \<open>Laws\<close>

lemma map_of_redactDoc: "map_of (redactDoc deny doc) f = (if f \<in> set deny then None else map_of doc f)"
  unfolding redactDoc_def by (induction deny arbitrary: doc) auto

lemma keys_redactDoc: "keys (redactDoc deny doc) = keys doc - set deny"
  unfolding redactDoc_def by (induction deny arbitrary: doc) auto

lemma set_fieldDenySet:
  "f \<in> set (fieldDenySet sess coll) \<longleftrightarrow> (\<exists>p \<in> set (ss_perms sess). perm_covers coll p \<and> f \<in> set (pm_fieldDeny p))"
  by (auto simp: fieldDenySet_def)

end
