(* ===== verification/Store.thy ===== *)
theory Store
  imports Index Graph Rbac
begin

text \<open>
  The store of \<open>db/store.go\<close> with the page cache of \<open>db/cache.go\<close> and the session checks of
  \<open>db/auth.go\<close>: its state, the residency of documents, the index maintenance of a change, the
  locked part of every mutation (\<open>insertApply\<close>, \<open>upsertApply\<close>, \<open>updateApply\<close>, \<open>deleteApply\<close>) and
  the single-document reads. Every operation runs under the store lock, so it is one step from
  state to state; it returns the new state on the error paths too, since a failed operation may
  have loaded a document or created a collection.

  Document slots are shared by reference (the cache holds pointers to them), so they live in a heap
  by address. Documents themselves are values: \<open>clone\<close> is the identity. \<open>st_disk\<close> is what reading
  and decoding the record at an offset and length of the file yields, \<open>st_now\<close> the clock.
  Counters that wrap (\<open>uint64\<close>) are words; byte counts stay far below their width and are integers.
\<close>

section \<open>State\<close>

record doc_entry =
  e_docP :: "document option"
  e_recOff :: int
  e_recLen :: int
  e_dirty :: bool
  e_refBit :: bool
  e_size :: int
  e_mutGen :: "64 word"

definition newDocEntry :: "document option \<Rightarrow> doc_entry" where
  "newDocEntry doc = \<lparr>e_docP = doc, e_recOff = -1, e_recLen = 0, e_dirty = False, e_refBit = False,
     e_size = 0, e_mutGen = 0\<rparr>"

record collection =
  c_entries :: "nat gomap"
  c_indexes :: "index list"
  c_sensitive :: "string list"

definition empty_collection :: collection where
  "empty_collection = \<lparr>c_entries = [], c_indexes = [], c_sensitive = []\<rparr>"

record options =
  op_CacheBytes :: int
  op_FindWorkers :: int
  op_MaxPendingWrites :: int
  op_SessionTTL :: int
  op_LightKDF :: bool
  op_SyncOnWrite :: bool

record del_item =
  dl_coll :: string
  dl_id :: string
  dl_gen :: "64 word"

text \<open>A registered hook; its function is known by the id (\<open>Hooks\<close>).\<close>

record hook_reg =
  hk_id :: "64 word"
  hk_event :: string
  hk_coll :: string
  hk_async :: bool

text \<open>A job of the queue of asynchronous hooks; the frame lists the ids of the hooks it was raised in.\<close>

record hook_job =
  hj_frame :: "64 word list"
  hj_reg :: hook_reg
  hj_event :: string
  hj_coll :: string
  hj_id :: string
  hj_doc :: "document option"
  hj_old :: "document option"

record store =
  st_collections :: "collection gomap"
  st_schemaVersion :: "64 word"
  st_path :: string
  st_opts :: options
  st_dirty :: bool
  st_dirtyGen :: "64 word"
  st_sawFile :: bool
  st_flushInProgress :: bool
  st_pendingDels :: "del_item list"
  st_heap :: "nat \<Rightarrow> doc_entry"
  st_next :: nat
  st_disk :: "int \<Rightarrow> int \<Rightarrow> document res"
  st_cache :: "nat list"
  st_residentBytes :: int
  st_cacheEvictions :: "64 word"
  st_noEvict :: bool
  st_writeSeq :: "64 word"
  st_durableSeq :: "64 word"
  st_sessions :: "session gomap"
  st_now :: int
  st_hooks :: "hook_reg list"
  st_hookSeq :: "64 word"
  st_hookQ :: "hook_job list option"
  st_graphEpoch :: "64 word"
  st_graphBuiltEpoch :: "64 word"
  st_graph :: "(graph_adj gomap \<times> graph_adj gomap) option"

type_synonym 'a outcome = "'a res \<times> store"

text \<open>Sequencing: an error ends the operation, with the state reached.\<close>

definition bind_out :: "'a outcome \<Rightarrow> ('a \<Rightarrow> store \<Rightarrow> 'b outcome) \<Rightarrow> 'b outcome" where
  "bind_out m f = (case m of (Inl e, s) \<Rightarrow> (Inl e, s) | (Inr x, s) \<Rightarrow> f x s)"

lemma bind_out_simps [simp, result_simps]:
  "bind_out (Inl e, s) f = (Inl e, s)" "bind_out (Inr x, s) f = f x s"
  by (simp_all add: bind_out_def)

definition guard_out :: "'b res \<Rightarrow> store \<Rightarrow> (store \<Rightarrow> 'a outcome) \<Rightarrow> 'a outcome" where
  "guard_out r s f = (case r of Inl e \<Rightarrow> (Inl e, s) | Inr _ \<Rightarrow> f s)"

lemma guard_out_simps [simp, result_simps]:
  "guard_out (Inl e) s f = (Inl e, s)" "guard_out (Inr x) s f = f s"
  by (simp_all add: guard_out_def)

definition default_options :: options where
  "default_options = \<lparr>op_CacheBytes = 0, op_FindWorkers = 0, op_MaxPendingWrites = 0,
     op_SessionTTL = 0, op_LightKDF = False, op_SyncOnWrite = False\<rparr>"

text \<open>\<open>New\<close>: an in-memory store.\<close>

definition newStore :: store where
  "newStore = \<lparr>st_collections = [], st_schemaVersion = 0, st_path = [], st_opts = default_options,
     st_dirty = False, st_dirtyGen = 0, st_sawFile = False, st_flushInProgress = False,
     st_pendingDels = [], st_heap = (\<lambda>_. newDocEntry None), st_next = 0,
     st_disk = (\<lambda>_ _. Inl ErrCorrupt), st_cache = [], st_residentBytes = 0, st_cacheEvictions = 0,
     st_noEvict = False, st_writeSeq = 0, st_durableSeq = 0, st_sessions = [], st_now = 0,
     st_hooks = [], st_hookSeq = 0, st_hookQ = None, st_graphEpoch = 0, st_graphBuiltEpoch = 0, st_graph = None\<rparr>"

section \<open>Collections and slots\<close>

definition collRO :: "string \<Rightarrow> store \<Rightarrow> collection option" where
  "collRO name s = map_of (st_collections s) name"

definition putColl :: "string \<Rightarrow> collection \<Rightarrow> store \<Rightarrow> store" where
  "putColl name c s = s\<lparr>st_collections := mput name c (st_collections s)\<rparr>"

text \<open>\<open>coll\<close>: the collection, created empty when it is missing.\<close>

definition coll :: "string \<Rightarrow> store \<Rightarrow> collection \<times> store" where
  "coll name s = (case collRO name s of Some c \<Rightarrow> (c, s)
     | None \<Rightarrow> (empty_collection, putColl name empty_collection s))"

definition put_entry :: "nat \<Rightarrow> doc_entry \<Rightarrow> store \<Rightarrow> store" where
  "put_entry a e s = s\<lparr>st_heap := (st_heap s)(a := e)\<rparr>"

definition alloc :: "doc_entry \<Rightarrow> store \<Rightarrow> nat \<times> store" where
  "alloc e s = (st_next s, s\<lparr>st_heap := (st_heap s)(st_next s := e), st_next := Suc (st_next s)\<rparr>)"

section \<open>The page cache (db/cache.go)\<close>

definition cacheBudget :: "options \<Rightarrow> int" where
  "cacheBudget o' =
     (if op_CacheBytes o' = 0 then 256 * 2 ^ 20 else if op_CacheBytes o' < 0 then -1 else op_CacheBytes o')"

definition less_resident :: "int \<Rightarrow> store \<Rightarrow> store" where
  "less_resident n s = (if 0 < n then s\<lparr>st_residentBytes := max 0 (st_residentBytes s - n)\<rparr> else s)"

definition evictEntryLocked :: "nat \<Rightarrow> store \<Rightarrow> store" where
  "evictEntryLocked a s =
     (let e = st_heap s a in
      if e_dirty e then s
      else if e_docP e = None then s\<lparr>st_cache := removeAll a (st_cache s)\<rparr>
      else let s1 = (put_entry a (e\<lparr>e_docP := None\<rparr>) s)\<lparr>st_cache := removeAll a (st_cache s)\<rparr>;
               s2 = less_resident (e_size e) s1
           in s2\<lparr>st_cacheEvictions := st_cacheEvictions s2 + 1\<rparr>)"

text \<open>Phase A over the entries of the cache, in the order the map yields them.\<close>

fun evict_phaseA :: "int \<Rightarrow> nat list \<Rightarrow> bool \<Rightarrow> store \<Rightarrow> bool \<times> store" where
  "evict_phaseA budget [] evicted s = (evicted, s)"
| "evict_phaseA budget (a # as) evicted s =
     (if st_residentBytes s \<le> budget then (evicted, s)
      else if e_dirty (st_heap s a) \<or> e_refBit (st_heap s a) then evict_phaseA budget as evicted s
      else evict_phaseA budget as True (evictEntryLocked a s))"

text \<open>Phase B: second chance, clear the reference bits.\<close>

definition clear_refs :: "store \<Rightarrow> store" where
  "clear_refs s = s\<lparr>st_heap := (\<lambda>a. if a \<in> set (st_cache s) then (st_heap s a)\<lparr>e_refBit := False\<rparr> else st_heap s a)\<rparr>"

definition any_ref :: "store \<Rightarrow> bool" where
  "any_ref s \<longleftrightarrow> (\<exists>a \<in> set (st_cache s). e_refBit (st_heap s a))"

text \<open>How much a round can still do: entries in the cache and reference bits to clear.\<close>

definition evict_measure :: "store \<Rightarrow> nat" where
  "evict_measure s = length (st_cache s) + card {a \<in> set (st_cache s). e_refBit (st_heap s a)}"

lemma evictEntry_cache:
  "st_cache (evictEntryLocked a s) = (if e_dirty (st_heap s a) then st_cache s else removeAll a (st_cache s))"
  by (simp add: evictEntryLocked_def Let_def less_resident_def put_entry_def)

lemma evictEntry_refBit: "e_refBit (st_heap (evictEntryLocked a s) b) = e_refBit (st_heap s b)"
  by (simp add: evictEntryLocked_def Let_def less_resident_def put_entry_def)

lemma removeAll_less: "a \<in> set xs \<Longrightarrow> length (removeAll a xs) < length xs"
  by (induction xs) (auto simp: less_Suc_eq_le)

lemma evictEntry_measure_le: "evict_measure (evictEntryLocked a s) \<le> evict_measure s"
proof -
  have "length (removeAll a xs) \<le> length xs" for xs by (simp add: removeAll_filter_not_eq)
  then show ?thesis
    unfolding evict_measure_def evictEntry_cache evictEntry_refBit by (auto intro!: add_mono card_mono)
qed

lemma evictEntry_measure:
  assumes "a \<in> set (st_cache s)" and "\<not> e_dirty (st_heap s a)"
  shows "evict_measure (evictEntryLocked a s) < evict_measure s"
  unfolding evict_measure_def evictEntry_cache evictEntry_refBit
  using assms removeAll_less [OF assms(1)] by (auto intro!: add_less_le_mono card_mono)

lemma phaseA_measure:
  assumes "set as \<subseteq> set (st_cache s)" and "distinct as" and "evict_phaseA budget as evicted s = (ev, s')"
  shows "evict_measure s' \<le> evict_measure s \<and> (ev \<longrightarrow> evicted \<or> evict_measure s' < evict_measure s)"
  using assms
proof (induction budget as evicted s rule: evict_phaseA.induct)
  case (2 budget a as evicted s)
  show ?case
  proof (cases "st_residentBytes s \<le> budget \<or> e_dirty (st_heap s a) \<or> e_refBit (st_heap s a)")
    case True
    then show ?thesis using 2 by (auto split: if_splits)
  next
    case False
    have sub: "set as \<subseteq> set (st_cache (evictEntryLocked a s))"
      using 2(3,4) by (auto simp: evictEntry_cache)
    have "evict_measure (evictEntryLocked a s) < evict_measure s"
      using evictEntry_measure [of a s] False 2(3) by simp
    then show ?thesis using 2(2) [OF _ _ sub] 2(4,5) False by fastforce
  qed
qed simp

lemma clear_refs_measure: "any_ref s \<Longrightarrow> evict_measure (clear_refs s) < evict_measure s"
proof -
  assume "any_ref s"
  then have "{a \<in> set (st_cache s). e_refBit (st_heap s a)} \<noteq> {}" by (auto simp: any_ref_def)
  then have "0 < card {a \<in> set (st_cache s). e_refBit (st_heap s a)}" by (simp add: card_gt_0_iff)
  then show ?thesis by (simp add: evict_measure_def clear_refs_def cong: conj_cong)
qed

lemma clear_refs_measure_le: "evict_measure (clear_refs s) \<le> evict_measure s"
  by (simp add: evict_measure_def clear_refs_def cong: conj_cong)

function evict_loop :: "int \<Rightarrow> store \<Rightarrow> store" where
  "evict_loop budget s =
     (if \<not> (budget < st_residentBytes s \<and> st_cache s \<noteq> []) then s
      else let (evicted, s1) = evict_phaseA budget (remdups (st_cache s)) False s in
        if st_residentBytes s1 \<le> budget then s1
        else let s2 = clear_refs s1 in
          if \<not> any_ref s1 \<and> \<not> evicted then s2 else evict_loop budget s2)"
  by pat_completeness auto
termination
proof (relation "measure (\<lambda>(budget, s). evict_measure s)")
  fix budget s p evicted s1 s2
  assume p: "p = evict_phaseA budget (remdups (st_cache s)) False s" "(evicted, s1) = p"
    and s2: "s2 = clear_refs s1" and more: "\<not> (\<not> any_ref s1 \<and> \<not> evicted)"
  have "evict_measure s1 \<le> evict_measure s \<and> (evicted \<longrightarrow> evict_measure s1 < evict_measure s)"
    using phaseA_measure [of "remdups (st_cache s)" s budget False evicted s1] p by simp
  then show "((budget, s2), budget, s) \<in> measure (\<lambda>(budget, s). evict_measure s)"
    using more clear_refs_measure [of s1] clear_refs_measure_le [of s1] s2 by auto
qed simp

declare evict_loop.simps [simp del]

definition evictLocked :: "store \<Rightarrow> store" where
  "evictLocked s =
     (let budget = cacheBudget (st_opts s) in
      if budget \<le> 0 then s
      else if st_path s = [] \<or> st_noEvict s then s
      else evict_loop budget s)"

definition cacheAdmit :: "nat \<Rightarrow> store \<Rightarrow> store" where
  "cacheAdmit a s =
     (if a \<in> set (st_cache s) then s
      else evictLocked (s\<lparr>st_cache := st_cache s @ [a],
             st_residentBytes := st_residentBytes s + e_size (st_heap s a)\<rparr>))"

definition loadEntry :: "nat \<Rightarrow> store \<Rightarrow> document outcome" where
  "loadEntry a s =
     (let e = st_heap s a in
      case e_docP e of
        Some d \<Rightarrow> (Inr d, put_entry a (e\<lparr>e_refBit := True\<rparr>) s)
      | None \<Rightarrow>
          if e_recLen e \<le> 0 \<or> st_path s = [] then (Inl ErrNotFound, s)
          else (case st_disk s (e_recOff e) (e_recLen e) of
              Inl err \<Rightarrow> (Inl err, s)
            | Inr d \<Rightarrow> (Inr d, cacheAdmit a
                (put_entry a (e\<lparr>e_docP := Some d, e_size := e_recLen e, e_refBit := True\<rparr>) s))))"

definition resident :: "collection \<Rightarrow> string \<Rightarrow> store \<Rightarrow> document outcome" where
  "resident c did s = (case map_of (c_entries c) did of None \<Rightarrow> (Inl ErrNotFound, s) | Some a \<Rightarrow> loadEntry a s)"

definition markEntryClean :: "64 word \<Rightarrow> doc_entry \<Rightarrow> doc_entry" where
  "markEntryClean stGen e = (if e_mutGen e \<le> stGen then e\<lparr>e_dirty := False\<rparr> else e)"

fun purge_entries :: "nat list \<Rightarrow> store \<Rightarrow> store" where
  "purge_entries [] s = s"
| "purge_entries (a # as) s =
     purge_entries as
       (if a \<in> set (st_cache s)
        then (less_resident (e_size (st_heap s a)) s)\<lparr>st_cache := removeAll a (st_cache s)\<rparr>
        else s)"

definition purgeCollCacheLocked :: "collection \<Rightarrow> store \<Rightarrow> store" where
  "purgeCollCacheLocked c s = purge_entries (map snd (c_entries c)) s"

record cache_stats =
  cs_Resident :: nat
  cs_Cold :: nat
  cs_Bytes :: int
  cs_Budget :: int
  cs_Evictions :: "64 word"
  cs_TotalEntries :: nat

definition all_slots :: "store \<Rightarrow> nat list" where
  "all_slots s = concat (map (\<lambda>p. map snd (c_entries (snd p))) (st_collections s))"

definition cacheStats :: "store \<Rightarrow> cache_stats" where
  "cacheStats s =
     (let total = length (all_slots s);
          res = length (filter (\<lambda>a. e_docP (st_heap s a) \<noteq> None) (all_slots s))
      in \<lparr>cs_Resident = res, cs_Cold = total - res, cs_Bytes = st_residentBytes s,
          cs_Budget = cacheBudget (st_opts s), cs_Evictions = st_cacheEvictions s, cs_TotalEntries = total\<rparr>)"

end
