(* ===== verification/Store_Ops.thy ===== *)
theory Store_Ops
  imports Store
begin

text \<open>
  The operations of \<open>db/store.go\<close> on the state of theory \<open>Store\<close>, with the permission checks of
  \<open>db/auth.go\<close>. Two parts of the program appear as arguments. \<open>wt\<close> is what other threads do to the
  store while a writer waits for a flush (\<open>bpCond.Wait\<close>, only called when the writer has to wait).
  \<open>hk\<close> runs the registered hooks (\<open>Hooks\<close> builds it): before-hooks may replace the document or veto,
  after-hooks only act on the store.
\<close>

section \<open>Dirty marks (db/file.go)\<close>

definition markDirty :: "store \<Rightarrow> store" where
  "markDirty s =
     (if st_path s \<noteq> []
      then s\<lparr>st_dirty := True, st_dirtyGen := st_dirtyGen s + 1, st_writeSeq := st_writeSeq s + 1\<rparr>
      else s)"

definition markEntryMutated :: "nat \<Rightarrow> store \<Rightarrow> store" where
  "markEntryMutated a s =
     (let s1 = markDirty s
      in put_entry a ((st_heap s1 a)\<lparr>e_dirty := True, e_mutGen := st_dirtyGen s1\<rparr>) s1)"

definition noteEdgeMutation :: "string \<Rightarrow> store \<Rightarrow> store" where
  "noteEdgeMutation name s = (if isEdgeColl name then s\<lparr>st_graphEpoch := st_graphEpoch s + 1\<rparr> else s)"

section \<open>Backpressure\<close>

definition maxPendingWrites :: "options \<Rightarrow> int" where
  "maxPendingWrites o' = (if 0 < op_MaxPendingWrites o' then op_MaxPendingWrites o' else 0)"

definition must_wait :: "store \<Rightarrow> bool" where
  "must_wait s \<longleftrightarrow> 0 < maxPendingWrites (st_opts s) \<and> st_flushInProgress s
     \<and> maxPendingWrites (st_opts s) \<le> sint (st_writeSeq s - st_durableSeq s)"

definition waitBackpressureLocked :: "(store \<Rightarrow> store) \<Rightarrow> store \<Rightarrow> store" where
  "waitBackpressureLocked wt s = (if must_wait s then wt s else s)"

section \<open>Permissions (db/auth.go)\<close>

definition authActiveLocked :: "store \<Rightarrow> bool" where
  "authActiveLocked s = (case collRO usersColl s of None \<Rightarrow> False | Some c \<Rightarrow> 0 < length (c_entries c))"

definition validLocked :: "session \<Rightarrow> store \<Rightarrow> bool" where
  "validLocked sess s \<longleftrightarrow>
     ss_system sess
     \<or> \<not> (case ss_expires sess of None \<Rightarrow> False | Some t \<Rightarrow> t < st_now s)
       \<and> map_of (st_sessions s) (ss_token sess) = Some sess"

definition checkReadLocked :: "session option \<Rightarrow> string \<Rightarrow> store \<Rightarrow> unit res" where
  "checkReadLocked sess name s =
     (case sess of
        None \<Rightarrow> if authActiveLocked s then Inl ErrUnauthorized else Inr ()
      | Some ss \<Rightarrow>
          if \<not> validLocked ss s then Inl ErrUnauthorized
          else if isSystemColl name then Inl ErrForbidden
          else if \<not> canRead ss name then Inl ErrForbidden
          else Inr ())"

definition checkWriteLocked :: "session option \<Rightarrow> string \<Rightarrow> store \<Rightarrow> unit res" where
  "checkWriteLocked sess name s =
     (if isSystemColl name then Inl ErrForbidden
      else case sess of
        None \<Rightarrow> if authActiveLocked s then Inl ErrUnauthorized else Inr ()
      | Some ss \<Rightarrow>
          if \<not> validLocked ss s then Inl ErrUnauthorized
          else if \<not> canWrite ss name then Inl ErrForbidden
          else Inr ())"

section \<open>Documents\<close>

definition maxDocBytes :: nat where
  "maxDocBytes = 2 ^ 20"

text \<open>\<open>docID\<close>: the id, generated (\<open>auto\<close>, a ULID) when missing; the document with its id.\<close>

definition docID :: "string \<Rightarrow> document \<Rightarrow> (string \<times> document) res" where
  "docID auto doc =
     (case map_of doc ''_id'' of
        None \<Rightarrow> Inr (auto, mput ''_id'' (JStr auto) doc)
      | Some JNull \<Rightarrow> Inr (auto, mput ''_id'' (JStr auto) doc)
      | Some (JStr did) \<Rightarrow> if did = [] then Inl ErrNoID else Inr (did, doc)
      | Some _ \<Rightarrow> Inl ErrNoID)"

definition checkDocSize :: "document \<Rightarrow> unit res" where
  "checkDocSize doc =
     (case json_doc doc of
        None \<Rightarrow> Inl ErrBadFilter
      | Some b \<Rightarrow> if maxDocBytes < length b then Inl ErrTooLarge else Inr ())"

text \<open>Evaluation compares the sizes as integers: the limit in unary would never be reached.\<close>

lemma checkDocSize_code [code]:
  "checkDocSize doc = (case json_doc doc of None \<Rightarrow> Inl ErrBadFilter
     | Some b \<Rightarrow> if int maxDocBytes < int (length b) then Inl ErrTooLarge else Inr ())"
  by (simp add: checkDocSize_def split: option.split)

lemma maxDocBytes_int [code_unfold]: "int maxDocBytes = 1048576" by (simp add: maxDocBytes_def)

section \<open>Index maintenance of a change\<close>

definition add_or_keep :: "document \<Rightarrow> string \<Rightarrow> index \<Rightarrow> index" where
  "add_or_keep doc did idx = (case addDoc doc did idx of Inr idx' \<Rightarrow> idx' | Inl _ \<Rightarrow> idx)"

fun first_error :: "'a res list \<Rightarrow> db_error option" where
  "first_error [] = None"
| "first_error (Inl e # rs) = Some e"
| "first_error (Inr x # rs) = first_error rs"

text \<open>
  \<open>applyIndexes\<close>: take the old keys out, put the new ones in, every index tried; when one rejects,
  take the new keys out of all of them and put the old ones back.
\<close>

definition remove_opt :: "document option \<Rightarrow> string \<Rightarrow> index \<Rightarrow> index" where
  "remove_opt old did idx = (case old of None \<Rightarrow> idx | Some o' \<Rightarrow> removeDoc o' did idx)"

definition restore_opt :: "document option \<Rightarrow> string \<Rightarrow> index \<Rightarrow> index" where
  "restore_opt old did idx = (case old of None \<Rightarrow> idx | Some o' \<Rightarrow> add_or_keep o' did idx)"

definition applyIndexes :: "index list \<Rightarrow> document option \<Rightarrow> document \<Rightarrow> string \<Rightarrow> unit res \<times> index list" where
  "applyIndexes idxs old new did =
     (let removed = map (remove_opt old did) idxs;
          tried = map (add_or_keep new did) removed
      in case first_error (map (addDoc new did) removed) of
           None \<Rightarrow> (Inr (), tried)
         | Some e \<Rightarrow> (Inl e, map (\<lambda>idx. restore_opt old did (removeDoc new did idx)) tried))"

section \<open>Mutations under the lock\<close>

definition store_new_entry :: "string \<Rightarrow> collection \<Rightarrow> index list \<Rightarrow> string \<Rightarrow> document \<Rightarrow> store \<Rightarrow> store" where
  "store_new_entry name c idxs did stored s =
     (let (a, s1) = alloc (newDocEntry (Some stored)) s;
          s2 = markEntryMutated a s1;
          s3 = putColl name (c\<lparr>c_entries := mput did a (c_entries c), c_indexes := idxs\<rparr>) s2
      in cacheAdmit a s3)"

definition insertBody :: "string \<Rightarrow> string \<Rightarrow> document \<Rightarrow> store \<Rightarrow> unit outcome" where
  "insertBody name did doc s =
     (let (c, s1) = coll name s in
      if map_of (c_entries c) did \<noteq> None then (Inl ErrDuplicate, s1)
      else case applyIndexes (c_indexes c) None doc did of
        (Inl e, idxs) \<Rightarrow> (Inl e, putColl name (c\<lparr>c_indexes := idxs\<rparr>) s1)
      | (Inr _, idxs) \<Rightarrow> (Inr (), noteEdgeMutation name (store_new_entry name c idxs did doc s1)))"

definition insertApply :: "(store \<Rightarrow> store) \<Rightarrow> session option \<Rightarrow> string \<Rightarrow> string \<Rightarrow> document \<Rightarrow> store \<Rightarrow> unit outcome" where
  "insertApply wt sess name did doc s =
     guard_out (checkWriteLocked sess name s) s
       (\<lambda>s. insertBody name did doc (waitBackpressureLocked wt s))"

text \<open>The document an upsert replaces: none when it is missing or cannot be loaded.\<close>

definition upsert_old :: "collection \<Rightarrow> string \<Rightarrow> store \<Rightarrow> document option \<times> store" where
  "upsert_old c did s =
     (if map_of (c_entries c) did = None then (None, s)
      else case resident c did s of (Inr d, s') \<Rightarrow> (Some d, s') | (Inl _, s') \<Rightarrow> (None, s'))"

definition upsertBody :: "string \<Rightarrow> string \<Rightarrow> document \<Rightarrow> store \<Rightarrow> unit outcome" where
  "upsertBody name did doc s =
     (let (c, s1) = coll name s;
          (old, s2) = upsert_old c did s1;
          stored = mput ''_id'' (JStr did) doc
      in case applyIndexes (c_indexes c) old stored did of
           (Inl e, idxs) \<Rightarrow> (Inl e, putColl name (c\<lparr>c_indexes := idxs\<rparr>) s2)
         | (Inr _, idxs) \<Rightarrow>
             (case map_of (c_entries c) did of
                Some a \<Rightarrow>
                  let s3 = put_entry a ((st_heap s2 a)\<lparr>e_docP := Some stored\<rparr>) (putColl name (c\<lparr>c_indexes := idxs\<rparr>) s2)
                  in (Inr (), noteEdgeMutation name (cacheAdmit a (markEntryMutated a s3)))
              | None \<Rightarrow> (Inr (), noteEdgeMutation name (store_new_entry name c idxs did stored s2))))"

definition upsertApply :: "(store \<Rightarrow> store) \<Rightarrow> session option \<Rightarrow> string \<Rightarrow> string \<Rightarrow> document \<Rightarrow> store \<Rightarrow> unit outcome" where
  "upsertApply wt sess name did doc s =
     guard_out (checkWriteLocked sess name s) s
       (\<lambda>s. upsertBody name did doc (waitBackpressureLocked wt s))"

text \<open>The shallow merge of a patch, then the removals.\<close>

definition merge_patch :: "document \<Rightarrow> document \<Rightarrow> document" where
  "merge_patch doc patch = foldl (\<lambda>d p. if fst p = ''_id'' then d else mput (fst p) (snd p) d) doc patch"

definition remove_fields :: "document \<Rightarrow> string list \<Rightarrow> document" where
  "remove_fields doc ks = foldl (\<lambda>d k. mdel k d) doc ks"

definition updateBody :: "string \<Rightarrow> string \<Rightarrow> document \<Rightarrow> string list \<Rightarrow> store \<Rightarrow> unit outcome" where
  "updateBody name did patch remove s =
     (case collRO name s of
        None \<Rightarrow> (Inl ErrNotFound, s)
      | Some c \<Rightarrow>
         (case map_of (c_entries c) did of
            None \<Rightarrow> (Inl ErrNotFound, s)
          | Some a \<Rightarrow>
              bind_out (resident c did s) (\<lambda>doc s1.
                let next = remove_fields (merge_patch doc patch) remove in
                guard_out (checkDocSize next) s1 (\<lambda>s1.
                  case applyIndexes (c_indexes c) (Some doc) next did of
                    (Inl e, idxs) \<Rightarrow> (Inl e, putColl name (c\<lparr>c_indexes := idxs\<rparr>) s1)
                  | (Inr _, idxs) \<Rightarrow>
                      let s2 = put_entry a ((st_heap s1 a)\<lparr>e_docP := Some next\<rparr>) (putColl name (c\<lparr>c_indexes := idxs\<rparr>) s1)
                      in (Inr (), noteEdgeMutation name (markEntryMutated a s2))))))"

definition updateApply :: "(store \<Rightarrow> store) \<Rightarrow> session option \<Rightarrow> string \<Rightarrow> string \<Rightarrow> document \<Rightarrow> string list
    \<Rightarrow> store \<Rightarrow> unit outcome" where
  "updateApply wt sess name did patch remove s =
     guard_out (checkWriteLocked sess name s) s
       (\<lambda>s. updateBody name did patch remove (waitBackpressureLocked wt s))"

definition deleteBody :: "string \<Rightarrow> string \<Rightarrow> store \<Rightarrow> unit outcome" where
  "deleteBody name did s =
     (case collRO name s of
        None \<Rightarrow> (Inl ErrNotFound, s)
      | Some c \<Rightarrow>
         (case map_of (c_entries c) did of
            None \<Rightarrow> (Inl ErrNotFound, s)
          | Some a \<Rightarrow>
              let (r, s1) = loadEntry a s in
              if (case r of Inl e \<Rightarrow> e \<noteq> ErrNotFound | Inr _ \<Rightarrow> False) then (map_sum id (\<lambda>_. ()) r, s1)
              else
                let idxs = (case r of Inr doc \<Rightarrow> map (removeDoc doc did) (c_indexes c) | Inl _ \<Rightarrow> c_indexes c);
                    s2 = (if a \<in> set (st_cache s1) then evictEntryLocked a s1 else s1);
                    s3 = putColl name (c\<lparr>c_entries := mdel did (c_entries c), c_indexes := idxs\<rparr>) s2;
                    s4 = noteEdgeMutation name (markDirty s3)
                in (Inr (), if st_sawFile s4 \<or> st_flushInProgress s4
                    then s4\<lparr>st_pendingDels := st_pendingDels s4 @ [\<lparr>dl_coll = name, dl_id = did, dl_gen = st_dirtyGen s4\<rparr>]\<rparr>
                    else s4)))"

definition deleteApply :: "(store \<Rightarrow> store) \<Rightarrow> session option \<Rightarrow> string \<Rightarrow> string \<Rightarrow> store \<Rightarrow> unit outcome" where
  "deleteApply wt sess name did s =
     guard_out (checkWriteLocked sess name s) s
       (\<lambda>s. deleteBody name did (waitBackpressureLocked wt s))"

section \<open>Reading one document\<close>

definition read_doc :: "string \<Rightarrow> string \<Rightarrow> (document \<Rightarrow> document) \<Rightarrow> store \<Rightarrow> document outcome" where
  "read_doc name did f s =
     (case collRO name s of
        None \<Rightarrow> (Inl ErrNotFound, s)
      | Some c \<Rightarrow> bind_out (resident c did s) (\<lambda>doc s'. (Inr (f doc), s')))"

definition redact_for :: "session option \<Rightarrow> string \<Rightarrow> document \<Rightarrow> document" where
  "redact_for sess name doc = (case sess of None \<Rightarrow> doc | Some ss \<Rightarrow> redactDoc (fieldDenySet ss name) doc)"

definition getDoc :: "session option \<Rightarrow> string \<Rightarrow> string \<Rightarrow> store \<Rightarrow> document outcome" where
  "getDoc sess name did s =
     guard_out (checkReadLocked sess name s) s (read_doc name did (redact_for sess name))"

section \<open>Mutations with their hooks\<close>

text \<open>The check of the before-hook phase: permission, presence, the current document.\<close>

definition previewWrite :: "session option \<Rightarrow> string \<Rightarrow> store \<Rightarrow> unit res" where
  "previewWrite sess name s = checkWriteLocked sess name s"

definition previewMissing :: "string \<Rightarrow> string \<Rightarrow> db_error \<Rightarrow> store \<Rightarrow> unit res" where
  "previewMissing name did err s =
     (case collRO name s of
        None \<Rightarrow> Inr ()
      | Some c \<Rightarrow> if map_of (c_entries c) did \<noteq> None then Inl err else Inr ())"

definition previewDoc :: "string \<Rightarrow> string \<Rightarrow> store \<Rightarrow> document outcome" where
  "previewDoc name did s =
     (case collRO name s of None \<Rightarrow> (Inl ErrNotFound, s) | Some c \<Rightarrow> resident c did s)"

definition collMatch :: "string \<Rightarrow> string \<Rightarrow> bool" where
  "collMatch pattern name \<longleftrightarrow> pattern = [] \<or> pattern = ''*'' \<or> pattern = name"

definition matchHooks :: "string \<Rightarrow> string \<Rightarrow> store \<Rightarrow> hook_reg list" where
  "matchHooks event name s = filter (\<lambda>r. hk_event r = event \<and> collMatch (hk_coll r) name) (st_hooks s)"

text \<open>The hook runner: the before-hooks of a mutation, and what its after-hooks do.\<close>

record hook_runner =
  run_before :: "hook_reg list \<Rightarrow> string \<Rightarrow> string \<Rightarrow> string \<Rightarrow> document option \<Rightarrow> document option \<Rightarrow> store \<Rightarrow> document option outcome"
  run_after :: "string \<Rightarrow> string \<Rightarrow> string \<Rightarrow> document option \<Rightarrow> document option \<Rightarrow> store \<Rightarrow> store"

definition after_ok :: "(store \<Rightarrow> store) \<Rightarrow> unit outcome \<Rightarrow> unit outcome" where
  "after_ok f r = bind_out r (\<lambda>_ s. (Inr (), f s))"

definition insertDocFrame :: "hook_runner \<Rightarrow> (store \<Rightarrow> store) \<Rightarrow> string \<Rightarrow> session option \<Rightarrow> string \<Rightarrow> document
    \<Rightarrow> store \<Rightarrow> unit outcome" where
  "insertDocFrame hk wt auto sess name doc0 s =
     (case docID auto doc0 of
        Inl e \<Rightarrow> (Inl e, s)
      | Inr (did, doc) \<Rightarrow>
          guard_out (checkDocSize doc) s (\<lambda>s.
            let before = matchHooks ''before_insert'' name s;
                finish = (\<lambda>doc s. after_ok (run_after hk ''after_insert'' name did (Some doc) None)
                           (insertApply wt sess name did doc s))
            in if before = [] then finish doc s
               else guard_out (previewWrite sess name s) s (\<lambda>s.
                 guard_out (previewMissing name did ErrDuplicate s) s (\<lambda>s.
                   bind_out (run_before hk before ''before_insert'' name did (Some doc) None s)
                     (\<lambda>work s. finish (case work of Some d \<Rightarrow> d | None \<Rightarrow> doc) s)))))"

definition upsertDocFrame :: "hook_runner \<Rightarrow> (store \<Rightarrow> store) \<Rightarrow> session option \<Rightarrow> string \<Rightarrow> string \<Rightarrow> document
    \<Rightarrow> store \<Rightarrow> unit outcome" where
  "upsertDocFrame hk wt sess name did doc s =
     (if did = [] then (Inl ErrNoID, s)
      else guard_out (checkDocSize doc) s (\<lambda>s.
        let before = matchHooks ''before_upsert'' name s;
            finish = (\<lambda>doc old s. after_ok (run_after hk ''after_upsert'' name did (Some doc) old)
                       (upsertApply wt sess name did doc s))
        in if before = [] then finish doc None s
           else guard_out (previewWrite sess name s) s (\<lambda>s.
             let (r, s1) = previewDoc name did s;
                 old = (case r of Inr d \<Rightarrow> Some d | Inl _ \<Rightarrow> None)
             in bind_out (run_before hk before ''before_upsert'' name did (Some doc) old s1)
                  (\<lambda>work s. finish (case work of Some d \<Rightarrow> d | None \<Rightarrow> doc) old s))))"

text \<open>The changes the before-hooks left: fields set (by \<open>equalJSON\<close>, which may panic), fields gone.\<close>

fun diff_patch :: "document \<Rightarrow> document \<Rightarrow> document res" where
  "diff_patch old [] = Inr []"
| "diff_patch old ((k, v) # rest) =
     (if k = ''_id'' then diff_patch old rest
      else case map_of old k of
        None \<Rightarrow> and_then (diff_patch old rest) (\<lambda>p. Inr ((k, v) # p))
      | Some ov \<Rightarrow> and_then (equalJSON ov v) (\<lambda>eq.
          and_then (diff_patch old rest) (\<lambda>p. Inr (if eq then p else (k, v) # p))))"

definition diff_removed :: "document \<Rightarrow> document \<Rightarrow> string list" where
  "diff_removed old merged = map fst (filter (\<lambda>p. fst p \<noteq> ''_id'' \<and> map_of merged (fst p) = None) old)"

definition updateDocFrame :: "hook_runner \<Rightarrow> (store \<Rightarrow> store) \<Rightarrow> session option \<Rightarrow> string \<Rightarrow> string \<Rightarrow> document
    \<Rightarrow> string list \<Rightarrow> store \<Rightarrow> unit outcome" where
  "updateDocFrame hk wt sess name did patch preRemove s =
     (let before = matchHooks ''before_update'' name s;
          pre = filter (\<lambda>k. k \<noteq> ''_id'') preRemove;
          finish = (\<lambda>patch remove old s.
            bind_out (updateApply wt sess name did patch remove s) (\<lambda>_ s.
              if matchHooks ''after_update'' name s \<noteq> []
              then (case previewDoc name did s of
                      (Inr fresh, s') \<Rightarrow> (Inr (), run_after hk ''after_update'' name did (Some fresh) old s')
                    | (Inl _, s') \<Rightarrow> (Inr (), run_after hk ''after_update'' name did (Some patch) old s'))
              else (Inr (), run_after hk ''after_update'' name did (Some patch) old s)))
      in if before = [] then finish patch pre None s
         else guard_out (previewWrite sess name s) s (\<lambda>s.
           bind_out (previewDoc name did s) (\<lambda>old s.
             let merged = remove_fields (merge_patch old patch) pre in
             bind_out (run_before hk before ''before_update'' name did (Some merged) (Some old) s) (\<lambda>work s.
               let merged' = (case work of Some d \<Rightarrow> d | None \<Rightarrow> merged) in
               case diff_patch old merged' of
                 Inl e \<Rightarrow> (Inl e, s)
               | Inr patch' \<Rightarrow> finish patch' (diff_removed old merged') (Some old) s))))"

definition deleteDocFrame :: "hook_runner \<Rightarrow> (store \<Rightarrow> store) \<Rightarrow> session option \<Rightarrow> string \<Rightarrow> string
    \<Rightarrow> store \<Rightarrow> unit outcome" where
  "deleteDocFrame hk wt sess name did s =
     (let before = matchHooks ''before_delete'' name s;
          finish = (\<lambda>old s. after_ok (run_after hk ''after_delete'' name did None old)
                     (deleteApply wt sess name did s))
      in if before = [] then finish None s
         else guard_out (previewWrite sess name s) s (\<lambda>s.
           bind_out (previewDoc name did s) (\<lambda>old s.
             bind_out (run_before hk before ''before_delete'' name did None (Some old) s)
               (\<lambda>_ s. finish (Some old) s))))"

section \<open>Indexes and collections\<close>

fun build_index :: "collection \<Rightarrow> string list \<Rightarrow> index \<Rightarrow> store \<Rightarrow> index outcome" where
  "build_index c [] idx s = (Inr idx, s)"
| "build_index c (did # ids) idx s =
     bind_out (resident c did s) (\<lambda>doc s'.
       case addDoc doc did idx of
         Inl e \<Rightarrow> (Inl e, s')
       | Inr idx' \<Rightarrow> build_index c ids idx' s')"

definition ensureIndex :: "string \<Rightarrow> string list \<Rightarrow> bool \<Rightarrow> store \<Rightarrow> unit outcome" where
  "ensureIndex name flds unique s =
     (if flds = [] then (Inl ErrBadFilter, s)
      else let (c, s1) = coll name s in
        case find (\<lambda>idx. sameFields (ix_fields idx) flds) (c_indexes c) of
          Some idx \<Rightarrow> (if ix_unique idx = unique then Inr () else Inl ErrDuplicate, s1)
        | None \<Rightarrow>
            bind_out (build_index c (sort (map fst (c_entries c))) (newIndex flds unique) s1) (\<lambda>idx s2.
              (Inr (), markDirty (putColl name (c\<lparr>c_indexes := c_indexes c @ [idx]\<rparr>) s2))))"

fun drop_first :: "('a \<Rightarrow> bool) \<Rightarrow> 'a list \<Rightarrow> 'a list option" where
  "drop_first P [] = None"
| "drop_first P (x # xs) = (if P x then Some xs else map_option (Cons x) (drop_first P xs))"

definition dropIndex :: "string \<Rightarrow> string list \<Rightarrow> store \<Rightarrow> unit outcome" where
  "dropIndex name flds s =
     (case collRO name s of
        None \<Rightarrow> (Inl ErrNotFound, s)
      | Some c \<Rightarrow> (case drop_first (\<lambda>idx. sameFields (ix_fields idx) flds) (c_indexes c) of
            None \<Rightarrow> (Inl ErrNotFound, s)
          | Some idxs \<Rightarrow> (Inr (), markDirty (putColl name (c\<lparr>c_indexes := idxs\<rparr>) s))))"

definition listIndexes :: "string \<Rightarrow> store \<Rightarrow> index_info list" where
  "listIndexes name s = (case collRO name s of None \<Rightarrow> [] | Some c \<Rightarrow> map index_info_of (c_indexes c))"

definition collections_list :: "store \<Rightarrow> string list" where
  "collections_list s = sort (filter (\<lambda>n. \<not> isSystemColl n) (map fst (st_collections s)))"

definition createCollection :: "session option \<Rightarrow> string \<Rightarrow> store \<Rightarrow> unit outcome" where
  "createCollection sess name s =
     (if name = [] \<or> has_prefix name ''$'' \<or> CHR 0x00 \<in> set name then (Inl ErrForbidden, s)
      else if isSystemColl name then (Inl ErrForbidden, s)
      else guard_out (checkWriteLocked sess name s) s (\<lambda>s.
        if collRO name s \<noteq> None then (Inl ErrExists, s)
        else (Inr (), markDirty (putColl name empty_collection s))))"

fun delete_all :: "hook_runner \<Rightarrow> (store \<Rightarrow> store) \<Rightarrow> session option \<Rightarrow> string \<Rightarrow> string list \<Rightarrow> store \<Rightarrow> unit outcome" where
  "delete_all hk wt sess name [] s = (Inr (), s)"
| "delete_all hk wt sess name (did # ids) s =
     bind_out (deleteDocFrame hk wt sess name did s) (\<lambda>_ s'. delete_all hk wt sess name ids s')"

definition dropCollection :: "hook_runner \<Rightarrow> (store \<Rightarrow> store) \<Rightarrow> session option \<Rightarrow> string \<Rightarrow> store \<Rightarrow> unit outcome" where
  "dropCollection hk wt sess name s =
     (if name = [] \<or> isSystemColl name then (Inl ErrForbidden, s)
      else guard_out (previewWrite sess name s) s (\<lambda>s.
        case collRO name s of
          None \<Rightarrow> (Inl ErrNotFound, s)
        | Some c \<Rightarrow>
            bind_out (delete_all hk wt sess name (sort (map fst (c_entries c))) s) (\<lambda>_ s1.
              let s2 = (case collRO name s1 of
                          None \<Rightarrow> s1
                        | Some c' \<Rightarrow>
                            let p = purgeCollCacheLocked c' s1
                            in markDirty (p\<lparr>st_collections := mdel name (st_collections p)\<rparr>))
              in (Inr (), if isEdgeColl name then s2\<lparr>st_graphEpoch := st_graphEpoch s2 + 1\<rparr> else s2))))"

end
