(* ===== verification/Store_Cache.thy ===== *)
theory Store_Cache
  imports Store_Ops
begin

text \<open>
  The page cache never changes what the store holds. \<open>doc_at\<close> is the document of a slot, whether it
  is resident or cold; a \<open>cache_step\<close> may only move documents between memory and file. Loading,
  admitting and evicting are cache steps as long as every clean resident document equals its record
  (\<open>slots_ok\<close>), which they keep. Eviction ends with the budget met, or with every slot left in the
  cache dirty.
\<close>

section \<open>What a slot holds\<close>

definition slot_doc :: "string \<Rightarrow> (int \<Rightarrow> int \<Rightarrow> document res) \<Rightarrow> doc_entry \<Rightarrow> document option" where
  "slot_doc path disk e = (case e_docP e of Some d \<Rightarrow> Some d
     | None \<Rightarrow> if e_recLen e \<le> 0 \<or> path = [] then None
               else (case disk (e_recOff e) (e_recLen e) of Inr d \<Rightarrow> Some d | Inl _ \<Rightarrow> None))"

lemma slot_doc_refBit [simp]: "slot_doc path disk (e\<lparr>e_refBit := b\<rparr>) = slot_doc path disk e"
  by (simp add: slot_doc_def cong: option.case_cong)

definition doc_at :: "store \<Rightarrow> nat \<Rightarrow> document option" where
  "doc_at s a = slot_doc (st_path s) (st_disk s) (st_heap s a)"

text \<open>A clean resident document that could be evicted is the one in the file.\<close>

definition slots_ok :: "store \<Rightarrow> bool" where
  "slots_ok s \<longleftrightarrow> (\<forall>a d. \<not> e_dirty (st_heap s a) \<longrightarrow> e_docP (st_heap s a) = Some d \<longrightarrow>
     st_path s \<noteq> [] \<longrightarrow> \<not> st_noEvict s \<longrightarrow>
     0 < e_recLen (st_heap s a) \<and> st_disk s (e_recOff (st_heap s a)) (e_recLen (st_heap s a)) = Inr d)"

text \<open>Everything but the heap and the cache's own fields is the same.\<close>

definition cache_frame :: "store \<Rightarrow> store \<Rightarrow> bool" where
  "cache_frame s s' \<longleftrightarrow> s'\<lparr>st_heap := st_heap s, st_cache := st_cache s,
     st_residentBytes := st_residentBytes s, st_cacheEvictions := st_cacheEvictions s\<rparr> = s"

definition cache_step :: "store \<Rightarrow> store \<Rightarrow> bool" where
  "cache_step s s' \<longleftrightarrow> cache_frame s s'
     \<and> (\<forall>a. doc_at s' a = doc_at s a \<and> e_dirty (st_heap s' a) = e_dirty (st_heap s a)
          \<and> e_recOff (st_heap s' a) = e_recOff (st_heap s a) \<and> e_recLen (st_heap s' a) = e_recLen (st_heap s a)
          \<and> e_mutGen (st_heap s' a) = e_mutGen (st_heap s a))"

lemma cache_frameD:
  assumes "cache_frame s s'"
  shows "st_collections s' = st_collections s" and "st_path s' = st_path s" and "st_opts s' = st_opts s"
    and "st_next s' = st_next s" and "st_disk s' = st_disk s" and "st_noEvict s' = st_noEvict s"
    and "st_sessions s' = st_sessions s" and "st_now s' = st_now s" and "st_hooks s' = st_hooks s"
    and "st_pendingDels s' = st_pendingDels s" and "st_graphEpoch s' = st_graphEpoch s"
    and "st_dirtyGen s' = st_dirtyGen s" and "st_writeSeq s' = st_writeSeq s"
    and "st_durableSeq s' = st_durableSeq s" and "st_flushInProgress s' = st_flushInProgress s"
    and "st_sawFile s' = st_sawFile s" and "st_graph s' = st_graph s"
    and "st_graphBuiltEpoch s' = st_graphBuiltEpoch s" and "st_dirty s' = st_dirty s"
    and "st_schemaVersion s' = st_schemaVersion s" and "st_hookSeq s' = st_hookSeq s"
  using assms unfolding cache_frame_def by (cases s; cases s'; simp)+

lemma cache_frame_refl [simp]: "cache_frame s s"
  by (simp add: cache_frame_def)

lemma cache_frame_trans: "cache_frame s t \<Longrightarrow> cache_frame t u \<Longrightarrow> cache_frame s u"
  unfolding cache_frame_def by (cases s; cases t; cases u) simp

lemma cache_step_refl [simp, intro]: "cache_step s s"
  by (simp add: cache_step_def)

lemma cache_step_trans [trans]: "cache_step s t \<Longrightarrow> cache_step t u \<Longrightarrow> cache_step s u"
  unfolding cache_step_def using cache_frame_trans [of s t u] by simp

lemma cache_step_frame: "cache_step s s' \<Longrightarrow> cache_frame s s'"
  by (simp add: cache_step_def)

lemma cache_step_doc: "cache_step s s' \<Longrightarrow> doc_at s' a = doc_at s a"
  and cache_step_dirty: "cache_step s s' \<Longrightarrow> e_dirty (st_heap s' a) = e_dirty (st_heap s a)"
  by (simp_all add: cache_step_def)

lemmas cache_stepD = cache_frameD [OF cache_step_frame] cache_step_doc cache_step_dirty

text \<open>A step on one slot that keeps its document and its durable fields.\<close>

lemma slot_step:
  assumes "cache_frame s s'" and "st_heap s' = (st_heap s)(a := e)"
    and "slot_doc (st_path s) (st_disk s) e = doc_at s a" and "e_dirty e = e_dirty (st_heap s a)"
    and "e_recOff e = e_recOff (st_heap s a)" and "e_recLen e = e_recLen (st_heap s a)"
    and "e_mutGen e = e_mutGen (st_heap s a)"
  shows "cache_step s s'"
  using assms by (auto simp: cache_step_def doc_at_def cache_frameD [OF assms(1)])

section \<open>Eviction\<close>

definition evictable :: "store \<Rightarrow> bool" where
  "evictable s \<longleftrightarrow> st_path s \<noteq> [] \<and> \<not> st_noEvict s"

lemma less_resident_eq:
  "less_resident n s = s\<lparr>st_residentBytes := (if 0 < n then max 0 (st_residentBytes s - n) else st_residentBytes s)\<rparr>"
  by (simp add: less_resident_def)

lemma evictEntry_step:
  assumes ok: "slots_ok s" and "evictable s"
  shows "cache_step s (evictEntryLocked a s) \<and> slots_ok (evictEntryLocked a s)"
proof (cases "e_dirty (st_heap s a)")
  case True
  then show ?thesis using ok by (simp add: evictEntryLocked_def)
next
  case clean: False
  show ?thesis
  proof (cases "e_docP (st_heap s a)")
    case None
    have "cache_step s (s\<lparr>st_cache := removeAll a (st_cache s)\<rparr>)"
      by (rule slot_step [where a = a and e = "st_heap s a"]) (simp_all add: doc_at_def cache_frame_def)
    then show ?thesis using clean None ok by (simp add: evictEntryLocked_def slots_ok_def)
  next
    case (Some d)
    then have disk: "0 < e_recLen (st_heap s a)"
      "st_disk s (e_recOff (st_heap s a)) (e_recLen (st_heap s a)) = Inr d"
      using ok clean assms(2) unfolding slots_ok_def evictable_def by blast+
    obtain r v where ev: "evictEntryLocked a s = s\<lparr>st_heap := (st_heap s)(a := (st_heap s a)\<lparr>e_docP := None\<rparr>),
        st_cache := removeAll a (st_cache s), st_residentBytes := r, st_cacheEvictions := v\<rparr>"
      using clean Some by (simp add: evictEntryLocked_def Let_def less_resident_eq put_entry_def)
    have "cache_step s (evictEntryLocked a s)"
      by (rule slot_step [where a = a and e = "(st_heap s a)\<lparr>e_docP := None\<rparr>"])
        (use Some disk assms(2) in \<open>auto simp: ev cache_frame_def slot_doc_def doc_at_def evictable_def\<close>)
    moreover have "slots_ok (evictEntryLocked a s)" using ok unfolding ev slots_ok_def by auto
    ultimately show ?thesis by simp
  qed
qed

lemma evictable_step: "cache_step s s' \<Longrightarrow> evictable s' = evictable s"
  by (simp add: evictable_def cache_stepD)

lemma phaseA_step:
  assumes "slots_ok s" and "evictable s" and "evict_phaseA budget as evicted s = (ev, s')"
  shows "cache_step s s' \<and> slots_ok s'"
  using assms
proof (induction budget as evicted s rule: evict_phaseA.induct)
  case (2 budget a as evicted s)
  show ?case
  proof (cases "st_residentBytes s \<le> budget \<or> e_dirty (st_heap s a) \<or> e_refBit (st_heap s a)")
    case True
    then show ?thesis using 2 by (auto split: if_splits)
  next
    case False
    note st = evictEntry_step [OF 2(3,4), of a]
    have "evictable (evictEntryLocked a s)" using st 2(4) evictable_step by blast
    then show ?thesis using 2(2) [of] False st 2(5) cache_step_trans by fastforce
  qed
qed simp

lemma clear_refs_step: "slots_ok s \<Longrightarrow> cache_step s (clear_refs s) \<and> slots_ok (clear_refs s)"
  by (simp add: cache_step_def cache_frame_def slots_ok_def clear_refs_def doc_at_def slot_doc_def cong: option.case_cong)

lemma evict_loop_step: "slots_ok s \<Longrightarrow> evictable s \<Longrightarrow> cache_step s (evict_loop budget s) \<and> slots_ok (evict_loop budget s)"
proof (induction budget s rule: evict_loop.induct)
  case (1 budget s)
  obtain ev s1 where A: "evict_phaseA budget (remdups (st_cache s)) False s = (ev, s1)" by fastforce
  note s1 = phaseA_step [OF 1(2,3) A]
  note s2 = clear_refs_step [OF conjunct2 [OF s1]]
  have ev2: "evictable (clear_refs s1)" using s1 s2 1(3) evictable_step by metis
  have trans: "cache_step s (clear_refs s1)" using s1 s2 cache_step_trans by blast
  show ?case
  proof (cases "budget < st_residentBytes s \<and> st_cache s \<noteq> [] \<and> \<not> st_residentBytes s1 \<le> budget \<and> (any_ref s1 \<or> ev)")
    case True
    then have "evict_loop budget s = evict_loop budget (clear_refs s1)"
      by (subst evict_loop.simps) (auto simp: A Let_def)
    then show ?thesis using 1(1) [OF _ refl A [symmetric] _ refl] True s2 ev2 trans cache_step_trans A by auto
  next
    case False
    then have "evict_loop budget s \<in> {s, s1, clear_refs s1}"
      by (subst evict_loop.simps) (auto simp: A Let_def)
    then show ?thesis using s1 s2 trans 1(2) by auto
  qed
qed

lemma phaseA_evicted: "evict_phaseA budget as True s = (ev, s') \<Longrightarrow> ev"
  by (induction as arbitrary: s) (auto split: if_splits)

lemma phaseA_kept:
  assumes "evict_phaseA budget as False s = (False, s')"
  shows "s' = s" and "budget < st_residentBytes s \<Longrightarrow> a \<in> set as \<Longrightarrow> e_dirty (st_heap s a) \<or> e_refBit (st_heap s a)"
proof -
  have "s' = s \<and> (budget < st_residentBytes s \<longrightarrow> (\<forall>a \<in> set as. e_dirty (st_heap s a) \<or> e_refBit (st_heap s a)))"
    using assms
  proof (induction as)
    case (Cons a as)
    then show ?case
      by (cases "st_residentBytes s \<le> budget"; cases "e_dirty (st_heap s a) \<or> e_refBit (st_heap s a)")
        (auto dest: phaseA_evicted)
  qed simp
  then show "s' = s" "budget < st_residentBytes s \<Longrightarrow> a \<in> set as \<Longrightarrow> e_dirty (st_heap s a) \<or> e_refBit (st_heap s a)"
    by auto
qed

text \<open>When eviction stops, the budget is met or nothing clean is left to evict.\<close>

lemma evict_loop_post:
  "st_residentBytes (evict_loop budget s) \<le> budget
    \<or> (\<forall>a \<in> set (st_cache (evict_loop budget s)). e_dirty (st_heap (evict_loop budget s) a))"
proof (induction budget s rule: evict_loop.induct)
  case (1 budget s)
  obtain ev s1 where A: "evict_phaseA budget (remdups (st_cache s)) False s = (ev, s1)" by fastforce
  show ?case
  proof (cases "budget < st_residentBytes s \<and> st_cache s \<noteq> []")
    case False
    then have "evict_loop budget s = s" by (subst evict_loop.simps) auto
    then show ?thesis using False by auto
  next
    case go: True
    show ?thesis
    proof (cases "st_residentBytes s1 \<le> budget")
      case True
      then have "evict_loop budget s = s1" using go by (subst evict_loop.simps) (simp add: A Let_def)
      then show ?thesis using True by simp
    next
      case F: False
      show ?thesis
      proof (cases "any_ref s1 \<or> ev")
        case True
        then have "evict_loop budget s = evict_loop budget (clear_refs s1)"
          using go F by (subst evict_loop.simps) (auto simp: A Let_def)
        then show ?thesis using 1 [OF _ refl A [symmetric] F refl] go True by simp
      next
        case False
        then have out: "evict_loop budget s = clear_refs s1"
          using go F by (subst evict_loop.simps) (simp add: A Let_def)
        have A': "evict_phaseA budget (remdups (st_cache s)) False s = (False, s1)" using A False by simp
        have "s1 = s" "\<forall>a \<in> set (st_cache s). e_dirty (st_heap s a) \<or> e_refBit (st_heap s a)"
          using phaseA_kept [OF A'] go by auto
        then show ?thesis using False unfolding out by (auto simp: clear_refs_def any_ref_def)
      qed
    qed
  qed
qed

lemma evictLocked_step: "slots_ok s \<Longrightarrow> cache_step s (evictLocked s) \<and> slots_ok (evictLocked s)"
  using evict_loop_step [of s "cacheBudget (st_opts s)"]
  by (auto simp: evictLocked_def Let_def evictable_def)

lemma cacheAdmit_step: "slots_ok s \<Longrightarrow> cache_step s (cacheAdmit a s) \<and> slots_ok (cacheAdmit a s)"
proof (cases "a \<in> set (st_cache s)")
  case False
  let ?s1 = "s\<lparr>st_cache := st_cache s @ [a], st_residentBytes := st_residentBytes s + e_size (st_heap s a)\<rparr>"
  assume ok: "slots_ok s"
  have 1: "cache_step s ?s1"
    by (rule slot_step [where a = a and e = "st_heap s a"]) (simp_all add: doc_at_def cache_frame_def)
  have "slots_ok ?s1" using ok by (simp add: slots_ok_def)
  from evictLocked_step [OF this] 1 show ?thesis
    using False cache_step_trans [of s ?s1] by (auto simp: cacheAdmit_def)
qed (simp add: cacheAdmit_def)

section \<open>Loading\<close>

text \<open>A load returns the slot's document and changes nothing but residency.\<close>

lemma loadEntry_step:
  assumes ok: "slots_ok s" and load: "loadEntry a s = (r, s')"
  shows "cache_step s s'" and "slots_ok s'" and "r = Inr d \<Longrightarrow> doc_at s a = Some d"
    and "r = Inl e \<Longrightarrow> doc_at s a = None \<and> s' = s"
proof -
  let ?e = "st_heap s a"
  have "cache_step s s' \<and> slots_ok s' \<and> (\<forall>d. r = Inr d \<longrightarrow> doc_at s a = Some d)
    \<and> (\<forall>e. r = Inl e \<longrightarrow> doc_at s a = None \<and> s' = s)"
  proof (cases "e_docP ?e")
    case (Some d)
    have s': "s' = put_entry a (?e\<lparr>e_refBit := True\<rparr>) s" "r = Inr d"
      using load Some by (simp_all add: loadEntry_def)
    have "cache_step s s'"
      by (rule slot_step [where a = a and e = "?e\<lparr>e_refBit := True\<rparr>"])
        (simp_all add: s' put_entry_def doc_at_def cache_frame_def)
    moreover have "slots_ok s'" using ok by (simp add: s' put_entry_def slots_ok_def)
    ultimately show ?thesis using Some s' by (simp add: doc_at_def slot_doc_def)
  next
    case None
    show ?thesis
    proof (cases "e_recLen ?e \<le> 0 \<or> st_path s = []")
      case True
      then show ?thesis using load None ok by (auto simp: loadEntry_def doc_at_def slot_doc_def)
    next
      case F: False
      show ?thesis
      proof (cases "st_disk s (e_recOff ?e) (e_recLen ?e)")
        case (Inl err)
        then show ?thesis using load None F ok by (auto simp: loadEntry_def doc_at_def slot_doc_def)
      next
        case (Inr d)
        let ?n = "?e\<lparr>e_docP := Some d, e_size := e_recLen ?e, e_refBit := True\<rparr>"
        have s': "s' = cacheAdmit a (put_entry a ?n s)" "r = Inr d"
          using load None F Inr by (auto simp: loadEntry_def Let_def)
        have 1: "cache_step s (put_entry a ?n s)"
          by (rule slot_step [where a = a and e = ?n])
            (use None F Inr in \<open>auto simp: put_entry_def doc_at_def slot_doc_def cache_frame_def\<close>)
        have 2: "slots_ok (put_entry a ?n s)" using ok F Inr by (auto simp: put_entry_def slots_ok_def)
        show ?thesis
          using cacheAdmit_step [OF 2, of a] 1 cache_step_trans [OF 1] s' None F Inr
          by (auto simp: doc_at_def slot_doc_def)
      qed
    qed
  qed
  then show "cache_step s s'" "slots_ok s'" "r = Inr d \<Longrightarrow> doc_at s a = Some d"
    "r = Inl e \<Longrightarrow> doc_at s a = None \<and> s' = s" by auto
qed

end
