(* ===== verification/Index_Keys.thy ===== *)
theory Index_Keys
  imports Index
begin

text \<open>
  The laws of the index key encoding: no encoded value but a string holds the separator, strings
  are length-prefixed, so a composite key determines the encoding of each of its values, and a key
  prefix selects exactly the rows that start with the given values. On scalars the encoding
  determines equality.
\<close>

section \<open>What a key may hold\<close>

text \<open>Values the encoding keeps apart: scalars and whatever JSON can represent.\<close>

definition enc_ok :: "jval \<Rightarrow> bool" where
  "enc_ok v \<longleftrightarrow> is_scalar v \<or> json_enc v \<noteq> None"

definition printable :: "string \<Rightarrow> bool" where
  "printable s \<longleftrightarrow> (\<forall>c \<in> set s. 32 \<le> byte_of c)"

lemma printable_simps [simp]:
  "printable []" "printable (c # s) \<longleftrightarrow> 32 \<le> byte_of c \<and> printable s"
  "printable (s @ t) \<longleftrightarrow> printable s \<and> printable t"
  by (auto simp: printable_def)

lemma printable_take: "printable s \<Longrightarrow> printable (take n s)"
  by (auto simp: printable_def dest: in_set_takeD)

lemma printable_no_sep: "printable s \<Longrightarrow> CHR 0x1F \<notin> set s"
  by (auto simp: printable_def)

lemma printable_join: "printable sep \<Longrightarrow> \<forall>p \<in> set ps. printable p \<Longrightarrow> printable (join_with sep ps)"
  by (induction sep ps rule: join_with.induct) auto

lemma printable_digits: "\<forall>c \<in> set s. is_digit c \<Longrightarrow> printable s"
  by (auto simp: printable_def is_digit_def)

lemma printable_itoa [simp]: "printable (itoa n)"
  using itoa_digits by (blast intro: printable_digits)

lemma printable_itoa_int [simp]: "printable (itoa_int i)"
  by (simp add: itoa_int_def)

lemma printable_hex [simp]: "d < 16 \<Longrightarrow> 32 \<le> byte_of (hex_char d)"
  by (simp add: hex_char_def)

lemma byte_of_less [simp]: "byte_of c < 256"
  by (rule nat_of_char_less_256)

lemma printable_escape [simp]: "byte_of c < 128 \<Longrightarrow> printable (escape_ascii c)"
  by (auto simp: escape_ascii_def html_safe_def)

lemma printable_utf:
  "utf2 s \<Longrightarrow> printable (take 2 s)" "utf3 s \<Longrightarrow> printable (take 3 s)" "utf4 s \<Longrightarrow> printable (take 4 s)"
  by (auto simp: utf2_def utf3_def utf4_def cont_byte_def numeral_eq_Suc split: list.splits)

lemma printable_rune: "rune_len s \<noteq> 0 \<Longrightarrow> 128 \<le> byte_of (hd s) \<Longrightarrow> printable (take (rune_len s) s)"
  by (simp add: rune_len_def printable_utf split: if_splits)

lemma printable_json_body [simp]: "printable (json_body s)"
proof (induction s rule: json_body.induct)
  case (1 s)
  show ?case
  proof (cases s)
    case Nil
    then show ?thesis by (simp add: json_body.simps)
  next
    case (Cons c t)
    show ?thesis
    proof (cases "byte_of c < 128")
      case True
      then show ?thesis using 1 Cons by (simp add: json_body.simps [of "c # t"])
    next
      case False
      then have "rune_len s \<noteq> 0 \<Longrightarrow> printable (take (rune_len s) s)"
        using printable_rune [of s] Cons by simp
      then show ?thesis
        using 1 Cons False by (simp add: json_body.simps [of "c # t"] Let_def)
    qed
  qed
qed

lemma printable_json_string [simp]: "printable (json_string s)"
  by (simp add: json_string_def)

lemma printable_chars:
  "(\<And>c. c \<in> set s \<Longrightarrow> is_digit c \<or> c = CHR ''.'' \<or> c = CHR ''e'' \<or> c = CHR ''+'' \<or> c = CHR ''-'') \<Longrightarrow> printable s"
  unfolding printable_def is_digit_def by fastforce

lemma printable_zeros [simp]: "printable (zeros n)"
  by (simp add: printable_def zeros_def)

lemma printable_tl: "printable s \<Longrightarrow> printable (tl s)" and printable_hd: "printable s \<Longrightarrow> s \<noteq> [] \<Longrightarrow> 32 \<le> byte_of (hd s)"
  by (cases s; simp)+

lemma printable_drop: "printable s \<Longrightarrow> printable (drop n s)"
  by (auto simp: printable_def dest: in_set_dropD)

lemma printable_fmt_e [simp]: "printable (fmt_e c e)"
  using printable_tl [OF printable_itoa] printable_hd [OF printable_itoa itoa_nonempty]
  by (auto simp: fmt_e_def Let_def)

lemma printable_fmt_f [simp]: "printable (fmt_f c e)"
  by (auto simp: fmt_f_def Let_def printable_take printable_drop)

lemma printable_trim_exp: "printable s \<Longrightarrow> printable (trim_exp s)"
  by (auto simp: trim_exp_def Let_def printable_take) (auto simp: printable_def)

lemma printable_json_float: "json_float x = Some s \<Longrightarrow> printable s"
  by (auto simp: json_float_def json_mag_def printable_trim_exp split: if_splits prod.splits)

lemma those_Some_set: "those xs = Some ys \<Longrightarrow> y \<in> set ys \<Longrightarrow> Some y \<in> set xs"
  by (induction xs arbitrary: ys) (auto split: option.splits)

lemma printable_json_object:
  assumes "json_object fs = Some s" and "\<And>k t. (k, Some t) \<in> set fs \<Longrightarrow> printable t"
  shows "printable s"
proof -
  obtain es where es: "those (map (\<lambda>p. map_option (Pair (fst p)) (snd p)) fs) = Some es"
    and s: "s = bracket ''{'' (map json_field (sort_key fst es)) ''}''"
    using assms(1) by (auto simp: json_object_def)
  have "printable (snd p)" if "p \<in> set es" for p
    using those_Some_set [OF es that] assms(2) by (auto simp: map_option_case split: option.splits)
  then show ?thesis
    unfolding s bracket_def by (auto intro!: printable_join simp: json_field_def)
qed

lemma printable_json_enc: "json_enc v = Some s \<Longrightarrow> printable s"
proof (induction v arbitrary: s rule: json_enc.induct)
  case (6 xs)
  then obtain ps where ps: "those (map json_enc xs) = Some ps" and s: "s = bracket ''['' ps '']''"
    by auto
  have "printable p" if "p \<in> set ps" for p
    using those_Some_set [OF ps that] 6 by auto
  then show ?case by (auto simp: s bracket_def intro: printable_join)
next
  case (7 m)
  then show ?case by (auto intro!: printable_json_object [of _ s])
next
  case (8 m)
  then show ?case by (auto intro!: printable_json_object [of _ s])
next
  case (9 ds)
  then obtain ps where
    ps: "those (map (\<lambda>m. json_object (map (\<lambda>p. (fst p, json_enc (snd p))) m)) ds) = Some ps"
    and s: "s = bracket ''['' ps '']''" by auto
  have "printable p" if p: "p \<in> set ps" for p
  proof -
    obtain m where m: "m \<in> set ds" "json_object (map (\<lambda>p. (fst p, json_enc (snd p))) m) = Some p"
      using those_Some_set [OF ps p] by auto
    show ?thesis using 9(1) [OF m(1)] by (intro printable_json_object [OF m(2)]) auto
  qed
  then show ?case by (auto simp: s bracket_def intro: printable_join)
next
  case (10 ss)
  then show ?case by (auto simp: bracket_def intro!: printable_join)
qed (auto simp: printable_json_float)


section \<open>One value\<close>

lemma printable_format_float [simp]: "printable (format_float x)"
  by (auto simp: printable_def dest: format_float_chars)

lemma enc_JStr [simp]: "encodeIndexValue (JStr s) = ''s:'' @ itoa (length s) @ '':'' @ s"
  by (simp add: encodeIndexValue_def)

lemma enc_non_string:
  assumes "enc_ok v" and "\<And>s. v \<noteq> JStr s"
  shows "printable (encodeIndexValue v)" and "hd (encodeIndexValue v) \<noteq> CHR ''s''"
    and "encodeIndexValue v \<noteq> []"
  using assms by (cases v; auto simp: encodeIndexValue_def enc_ok_def is_scalar_def printable_json_enc
      simp del: json_enc.simps split: option.splits)+

lemma enc_nonempty: "enc_ok v \<Longrightarrow> encodeIndexValue v \<noteq> []"
  by (cases "\<exists>s. v = JStr s") (auto simp: enc_non_string)

text \<open>What follows a value in a key: nothing, or the separator.\<close>

definition key_tail :: "string \<Rightarrow> bool" where
  "key_tail r \<longleftrightarrow> r = [] \<or> hd r = CHR 0x1F"

lemma key_tail_simps [simp]: "key_tail []" "key_tail (key_sep @ r)"
  by (simp_all add: key_tail_def key_sep_def)

lemma printable_tail_split:
  assumes "p @ r = q @ r'" and "printable p" and "printable q" and "key_tail r" and "key_tail r'"
  shows "p = q \<and> r = r'"
proof -
  have tw: "takeWhile (\<lambda>c. c \<noteq> CHR 0x1F) (p @ r) = p" if "printable p" "key_tail r" for p r
    using printable_no_sep [OF that(1)] that(2)
    by (cases r) (auto simp: takeWhile_append2 takeWhile_tail key_tail_def)
  have "p = q" using tw [OF assms(2,4)] tw [OF assms(3,5)] assms(1) by metis
  then show ?thesis using assms(1) by simp
qed

lemma itoa_no_colon [simp]: "CHR '':'' \<notin> set (itoa n)"
  using itoa_digits [of n] by (auto simp: is_digit_def)

lemma enc_string_split:
  assumes "encodeIndexValue (JStr s) @ r = encodeIndexValue (JStr t) @ r'"
  shows "s = t \<and> r = r'"
proof -
  have eq: "itoa (length s) @ CHR '':'' # (s @ r) = itoa (length t) @ CHR '':'' # (t @ r')"
    using assms by simp
  then have "itoa (length s) = itoa (length t)"
    by (metis before_present(1) itoa_no_colon)
  then show ?thesis using eq by simp
qed

lemma enc_split:
  assumes "encodeIndexValue v @ r = encodeIndexValue w @ r'" and "enc_ok v" and "enc_ok w"
    and "key_tail r" and "key_tail r'"
  shows "encodeIndexValue v = encodeIndexValue w \<and> r = r'"
proof -
  have hd: "hd (encodeIndexValue v) = hd (encodeIndexValue w)"
    using assms(1) enc_nonempty [OF assms(2)] enc_nonempty [OF assms(3)] by (metis hd_append2)
  have s: "hd (encodeIndexValue u) = CHR ''s'' \<longleftrightarrow> (\<exists>s. u = JStr s)" if "enc_ok u" for u
    using enc_non_string(2) [OF that] by auto
  show ?thesis
  proof (cases "\<exists>s. v = JStr s")
    case True
    then obtain s t where "v = JStr s" "w = JStr t" using hd s assms(2,3) by metis
    then show ?thesis using enc_string_split assms(1) by blast
  next
    case False
    then have "\<And>t. w \<noteq> JStr t" using hd s assms(2,3) by metis
    then show ?thesis
      using False assms by (intro printable_tail_split) (auto intro: enc_non_string)
  qed
qed

section \<open>Composite keys\<close>

definition row_ok :: "jval list \<Rightarrow> bool" where
  "row_ok row \<longleftrightarrow> (\<forall>v \<in> set row. enc_ok v)"

lemma row_ok_simps [simp]: "row_ok []" "row_ok (v # row) \<longleftrightarrow> enc_ok v \<and> row_ok row"
  by (auto simp: row_ok_def)

lemma key_Nil [simp]: "encodeIndexKey [] = []"
  by (simp add: encodeIndexKey_def)

lemma key_single [simp]: "encodeIndexKey [v] = encodeIndexValue v"
  by (simp add: encodeIndexKey_def)

lemma key_Cons: "encodeIndexKey (v # row) = encodeIndexValue v @ (if row = [] then [] else key_sep @ encodeIndexKey row)"
  by (cases row) (simp_all add: encodeIndexKey_def)

lemma key_empty_iff: "row_ok row \<Longrightarrow> encodeIndexKey row = [] \<longleftrightarrow> row = []"
  by (cases row) (auto simp: key_Cons enc_nonempty)

text \<open>Two keys with what follows them: the encodings of the values agree.\<close>

lemma key_split:
  assumes "encodeIndexKey p @ r = encodeIndexKey q @ r'" and "row_ok p" and "row_ok q"
    and "p \<noteq> []" and "length p \<le> length q" and "key_tail r" and "key_tail r'"
  shows "map encodeIndexValue p = take (length p) (map encodeIndexValue q) \<and>
    r = (if length p = length q then r' else key_sep @ encodeIndexKey (drop (length p) q) @ r')"
  using assms
proof (induction p arbitrary: q)
  case (Cons v p)
  obtain w q' where q: "q = w # q'" using Cons.prems(5) by (cases q) auto
  have tails: "(if p = [] then [] else key_sep @ encodeIndexKey p) @ r =
      (if q' = [] then [] else key_sep @ encodeIndexKey q') @ r'"
    and ew: "encodeIndexValue v = encodeIndexValue w"
    using enc_split [of v "(if p = [] then [] else key_sep @ encodeIndexKey p) @ r" w
        "(if q' = [] then [] else key_sep @ encodeIndexKey q') @ r'"] Cons.prems
    by (auto simp: key_Cons q split: if_splits)
  show ?case
  proof (cases "p = []")
    case True
    then show ?thesis using tails ew by (auto simp: q)
  next
    case False
    then have "q' \<noteq> []" using Cons.prems(5) q by auto
    then have "encodeIndexKey p @ r = encodeIndexKey q' @ r'" using tails False by (simp add: key_sep_def)
    then show ?thesis using Cons.IH [of q'] Cons.prems False ew by (simp add: q)
  qed
qed simp

lemma encodeIndexKey_eq:
  assumes "encodeIndexKey p = encodeIndexKey q" and "row_ok p" and "row_ok q"
  shows "map encodeIndexValue p = map encodeIndexValue q"
proof -
  have *: "map encodeIndexValue p = map encodeIndexValue q"
    if "encodeIndexKey p = encodeIndexKey q" "row_ok p" "row_ok q" "length p \<le> length q" for p q
  proof (cases "p = []")
    case True
    then show ?thesis using that by (auto simp: key_empty_iff dest: sym)
  next
    case False
    then show ?thesis using key_split [of p "[]" q "[]"] that
      by (auto simp: key_sep_def split: if_splits)
  qed
  show ?thesis using * [of p q] * [of q p] assms by (cases "length p \<le> length q") auto
qed

lemma encodeIndexKey_eq_iff:
  "row_ok p \<Longrightarrow> row_ok q \<Longrightarrow>
    encodeIndexKey p = encodeIndexKey q \<longleftrightarrow> map encodeIndexValue p = map encodeIndexValue q"
  using encodeIndexKey_eq by (auto simp: encodeIndexKey_def)

lemma key_append:
  "p \<noteq> [] \<Longrightarrow> q \<noteq> [] \<Longrightarrow> encodeIndexKey (p @ q) = encodeIndexKey p @ key_sep @ encodeIndexKey q"
  by (induction p) (auto simp: key_Cons)

lemma key_map_cong: "map encodeIndexValue p = map encodeIndexValue q \<Longrightarrow> encodeIndexKey p = encodeIndexKey q"
  by (simp add: encodeIndexKey_def)

text \<open>A prefix of values selects the longer rows that start with their encodings.\<close>

lemma key_prefix_iff:
  assumes "row_ok p" and "row_ok q" and "p \<noteq> []"
  shows "has_prefix (encodeIndexKey q) (encodeIndexKey p @ key_sep) \<longleftrightarrow>
    length p < length q \<and> map encodeIndexValue p = take (length p) (map encodeIndexValue q)"
proof
  assume "has_prefix (encodeIndexKey q) (encodeIndexKey p @ key_sep)"
  then obtain t where t: "encodeIndexKey q = encodeIndexKey p @ key_sep @ t"
    by (auto simp: has_prefix_iff)
  show "length p < length q \<and> map encodeIndexValue p = take (length p) (map encodeIndexValue q)"
  proof (cases "length p \<le> length q")
    case True
    then show ?thesis
      using key_split [of p "key_sep @ t" q "[]"] t assms by (auto split: if_splits)
        (auto simp: key_sep_def)
  next
    case False
    have "q \<noteq> []" using t by (auto simp: key_sep_def)
    then have "[] = key_sep @ encodeIndexKey (drop (length q) p) @ key_sep @ t"
      using key_split [of q "[]" p "key_sep @ t"] t assms False by simp
    then show ?thesis by (simp add: key_sep_def)
  qed
next
  assume a: "length p < length q \<and> map encodeIndexValue p = take (length p) (map encodeIndexValue q)"
  then have "encodeIndexKey (take (length p) q) = encodeIndexKey p"
    by (intro key_map_cong) (simp add: take_map)
  moreover have "encodeIndexKey q = encodeIndexKey (take (length p) q) @ key_sep @ encodeIndexKey (drop (length p) q)"
    using key_append [of "take (length p) q" "drop (length p) q"] a assms(3)
    by (cases "q = []") auto
  ultimately show "has_prefix (encodeIndexKey q) (encodeIndexKey p @ key_sep)"
    by (auto simp: has_prefix_iff)
qed

section \<open>Encodings and equality\<close>

text \<open>Minus zero is the one number whose key differs from that of an equal value.\<close>

definition neg_zero :: "jval \<Rightarrow> bool" where
  "neg_zero v = (case to_float v of Some x \<Rightarrow> f64_mag x = 0 \<and> f64_neg x | None \<Rightarrow> False)"

lemma enc_number: "to_float v = Some x \<Longrightarrow> encodeIndexValue v = ''n:'' @ format_float x"
  by (cases v) (auto simp: encodeIndexValue_def)

lemma scalar_number_hd: "is_scalar v \<Longrightarrow> hd (encodeIndexValue v) = CHR ''n'' \<longleftrightarrow> to_float v \<noteq> None"
  by (cases v) (auto simp: encodeIndexValue_def is_scalar_def)

lemma enc_nonnumber_inject:
  assumes eq: "encodeIndexValue v = encodeIndexValue w" and "is_scalar v" and "is_scalar w"
    and "to_float v = None"
  shows "v = w"
proof -
  have w: "to_float w = None" using scalar_number_hd [of v] scalar_number_hd [of w] assms by simp
  have v': "v = JNull \<or> (\<exists>b. v = JBool b) \<or> (\<exists>s. v = JStr s)"
    using assms(2,4) by (cases v) (auto simp: is_scalar_def)
  have w': "w = JNull \<or> (\<exists>b. w = JBool b) \<or> (\<exists>s. w = JStr s)"
    using assms(3) w by (cases w) (auto simp: is_scalar_def)
  have enc: "encodeIndexValue JNull = ''u:''"
    "encodeIndexValue (JBool b) = (if b then ''b:true'' else ''b:false'')" for b
    by (simp_all add: encodeIndexValue_def)
  have str: "s = t" if "encodeIndexValue (JStr s) = encodeIndexValue (JStr t)" for s t
    using enc_string_split [of s "[]" t "[]"] that by simp
  show ?thesis
  proof (cases "(\<exists>s. v = JStr s) \<and> (\<exists>t. w = JStr t)")
    case True
    then show ?thesis using str eq by blast
  next
    case False
    then show ?thesis
      using v' w' eq by (elim disjE exE) (simp_all add: enc split: if_splits)
  qed
qed

lemma enc_scalar_eq:
  assumes "encodeIndexValue v = encodeIndexValue w" and "is_scalar v" and "is_scalar w"
  shows "equalJSON v w = Inr True"
proof (cases "to_float v")
  case (Some x)
  then obtain y where y: "to_float w = Some y"
    using scalar_number_hd [OF assms(2)] scalar_number_hd [OF assms(3)] assms(1) by auto
  have "\<not> f64_is_nan x" "\<not> f64_is_nan y"
    using assms(2,3) Some y by (cases v; cases w; auto simp: is_scalar_def)+
  moreover have "x = y"
    using calculation assms(1) Some y format_float_inject by (auto simp: enc_number)
  ultimately show ?thesis using Some y by (simp add: equalJSON_def f64_eq_def)
next
  case None
  have "v = w"
    using enc_nonnumber_inject [OF assms(1)] assms None by auto
  then show ?thesis using assms(2) by (simp add: equalJSON_refl)
qed

lemma scalar_eq_enc:
  assumes "equalJSON v w = Inr True" and "\<not> neg_zero v" and "\<not> neg_zero w"
  shows "encodeIndexValue v = encodeIndexValue w"
proof (cases "to_float v = None \<or> to_float w = None")
  case True
  then have "go_eq v w = Inr True" using assms(1) by (auto simp: equalJSON_def split: option.splits)
  then show ?thesis using True by (cases v; cases w) (auto simp: go_eq_def)
next
  case False
  then obtain x y where xy: "to_float v = Some x" "to_float w = Some y" by auto
  then have "x = y \<or> f64_mag x = 0 \<and> f64_mag y = 0" using assms(1) by (auto simp: equalJSON_def f64_eq_bits)
  moreover have "\<not> (f64_mag x = 0 \<and> f64_neg x)" "\<not> (f64_mag y = 0 \<and> f64_neg y)"
    using assms xy by (auto simp: neg_zero_def)
  ultimately have "x = y" by (metis f64_eqI)
  then show ?thesis using xy by (simp add: enc_number)
qed

section \<open>The ordering key\<close>

text \<open>
  A key for \<open>compareOrdered\<close>: the type rank, then the number's order key or the bool, then the
  string.
\<close>

definition ord_key :: "jval \<Rightarrow> nat \<times> int \<times> string" where
  "ord_key v = (typeRank v,
     (case v of JBool b \<Rightarrow> if b then 1 else 0 | _ \<Rightarrow> (case to_float v of Some x \<Rightarrow> f64_key x | None \<Rightarrow> 0)),
     (case v of JStr s \<Rightarrow> s | _ \<Rightarrow> []))"

definition entry_key :: "ord_entry \<Rightarrow> (nat \<times> int \<times> string) \<times> string" where
  "entry_key e = (ord_key (fst e), snd e)"

lemma enc_ok_not_nan: "enc_ok v \<Longrightarrow> to_float v = Some x \<Longrightarrow> \<not> f64_is_nan x"
  by (cases v) (auto simp: enc_ok_def is_scalar_def json_float_def f64_finite_def split: if_splits,
    simp add: f64_is_nan_def)

lemma compareOrdered_sign:
  assumes "enc_ok a" and "enc_ok b"
  shows "compareOrdered a b = sign3 (ord_key a < ord_key b) (ord_key b < ord_key a)"
  using enc_ok_not_nan [OF assms(1)] enc_ok_not_nan [OF assms(2)]
  by (cases a; cases b) (auto simp: compareOrdered_def typeRank_def ord_key_def sign3_def
      compareValues_def f64_lt_def less_prod_def split: if_splits)

lemma less_pair: "((a :: 'a :: linorder), (b :: 'b :: linorder)) < (c, d) \<longleftrightarrow> a < c \<or> a = c \<and> b < d"
  by auto

declare less_prod_simp [simp del]

lemma ordLess_iff:
  "enc_ok (fst a) \<Longrightarrow> enc_ok (fst b) \<Longrightarrow> ordLess a b \<longleftrightarrow> entry_key a < entry_key b"
  by (cases rule: linorder_cases [of "ord_key (fst a)" "ord_key (fst b)"])
    (auto simp: ordLess_def compareOrdered_sign sign3_def entry_key_def Let_def less_pair)

lemma typeRank_ord_key: "typeRank v = fst (ord_key v)"
  by (simp add: ord_key_def)

lemma enc_ord_key:
  assumes "encodeIndexValue v = encodeIndexValue w" and "enc_ok v" and "enc_ok w"
  shows "ord_key v = ord_key w"
proof (cases "is_scalar v \<and> is_scalar w")
  case True
  show ?thesis
  proof (cases "to_float v")
    case (Some x)
    then obtain y where y: "to_float w = Some y"
      using scalar_number_hd [of v] scalar_number_hd [of w] True assms(1) by auto
    have "x = y"
      using assms Some y format_float_inject enc_ok_not_nan by (auto simp: enc_number)
    then show ?thesis using Some y by (cases v; cases w) (auto simp: ord_key_def typeRank_def)
  next
    case None
    have "v = w"
      using enc_nonnumber_inject [OF assms(1)] True None by auto
    then show ?thesis by simp
  qed
next
  case False
  have j: "hd (encodeIndexValue u) = CHR ''j'' \<longleftrightarrow> \<not> is_scalar u" if "enc_ok u" for u
    using that enc_ok_not_nan [OF that]
    by (cases u) (auto simp: encodeIndexValue_def enc_ok_def is_scalar_def simp del: json_enc.simps
        split: option.splits)
  have "\<not> is_scalar v" "\<not> is_scalar w" using False j assms by metis+
  then show ?thesis using enc_ok_not_nan [OF assms(2)] enc_ok_not_nan [OF assms(3)]
    by (cases v; cases w) (auto simp: ord_key_def typeRank_def is_scalar_def)
qed

end
