(* ===== verification/Index_Interface.thy ===== *)
theory Index_Interface
  imports Values
begin

text \<open>
  The contract between the store and its indexes, as a locale: what adding and removing a document
  do to the pairs (key, document id) an index holds, and when adding is rejected. From it follow,
  once for all providers, the lemmas the store rests on: an index stays coherent with the
  collection through insert, update and delete, and a rejected change can be undone.
  \<open>Index_Laws\<close> interprets the locale on the model of \<open>db/index.go\<close>.
\<close>

text \<open>The pairs a collection asks for: one for every key of every live document.\<close>

definition wanted :: "(document \<Rightarrow> string set) \<Rightarrow> (string \<rightharpoonup> document) \<Rightarrow> (string \<times> string) set" where
  "wanted ks docs = {(k, x). \<exists>d. docs x = Some d \<and> k \<in> ks d}"

lemma wanted_insert: "docs x = None \<Longrightarrow> wanted ks (docs(x \<mapsto> d)) = wanted ks docs \<union> ks d \<times> {x}"
  by (auto simp: wanted_def split: if_splits)

lemma wanted_delete: "docs x = Some d \<Longrightarrow> wanted ks (docs(x := None)) = wanted ks docs - ks d \<times> {x}"
  by (auto simp: wanted_def split: if_splits)

lemma wanted_update:
  "docs x = Some d \<Longrightarrow> wanted ks (docs(x \<mapsto> d')) = (wanted ks docs - ks d \<times> {x}) \<union> ks d' \<times> {x}"
  by (auto simp: wanted_def split: if_splits)

lemma wanted_empty [simp]: "wanted ks Map.empty = {}"
  by (simp add: wanted_def)

locale document_index =
  fixes wf :: "'i \<Rightarrow> bool"
    and pairs :: "'i \<Rightarrow> (string \<times> string) set"
    and unique :: "'i \<Rightarrow> bool"
    and flds :: "'i \<Rightarrow> string list"
    and keys_of :: "string list \<Rightarrow> document \<Rightarrow> string set"
    and admissible :: "string list \<Rightarrow> document \<Rightarrow> bool"
    and add :: "document \<Rightarrow> string \<Rightarrow> 'i \<Rightarrow> 'i res"
    and remove :: "document \<Rightarrow> string \<Rightarrow> 'i \<Rightarrow> 'i"
  assumes add_ok: "wf i \<Longrightarrow> admissible (flds i) d \<Longrightarrow> add d x i = Inr j \<Longrightarrow>
      wf j \<and> pairs j = pairs i \<union> keys_of (flds i) d \<times> {x} \<and> flds j = flds i \<and> unique j = unique i"
    and add_rejects: "add d x i = Inl e \<longleftrightarrow> e = ErrDuplicate \<and> unique i
      \<and> (\<exists>k \<in> keys_of (flds i) d. \<exists>y. (k, y) \<in> pairs i \<and> y \<noteq> x)"
    and remove_ok: "wf i \<Longrightarrow> wf (remove d x i) \<and> pairs (remove d x i) = pairs i - keys_of (flds i) d \<times> {x}
      \<and> flds (remove d x i) = flds i \<and> unique (remove d x i) = unique i"
    and one_owner: "unique i \<Longrightarrow> (k, x) \<in> pairs i \<Longrightarrow> (k, y) \<in> pairs i \<Longrightarrow> x = y"
begin

lemma insert_coherent:
  assumes "wf i" and "pairs i = wanted (keys_of (flds i)) docs" and "docs x = None"
    and "admissible (flds i) d" and "add d x i = Inr j"
  shows "wf j" and "pairs j = wanted (keys_of (flds j)) (docs(x \<mapsto> d))"
  using add_ok [OF assms(1,4,5)] assms(2,3) by (simp_all add: wanted_insert)

lemma delete_coherent:
  assumes "wf i" and "pairs i = wanted (keys_of (flds i)) docs" and "docs x = Some d"
  shows "wf (remove d x i)"
    and "pairs (remove d x i) = wanted (keys_of (flds (remove d x i))) (docs(x := None))"
  using remove_ok [OF assms(1)] assms(2,3) by (simp_all add: wanted_delete)

lemma update_coherent:
  assumes "wf i" and "pairs i = wanted (keys_of (flds i)) docs" and "docs x = Some d"
    and "admissible (flds i) d'" and "add d' x (remove d x i) = Inr j"
  shows "wf j" and "pairs j = wanted (keys_of (flds j)) (docs(x \<mapsto> d'))"
proof -
  have r: "wf (remove d x i)" "flds (remove d x i) = flds i"
    "pairs (remove d x i) = pairs i - keys_of (flds i) d \<times> {x}"
    using remove_ok [OF assms(1)] by auto
  have a: "admissible (flds (remove d x i)) d'" using assms(4) r(2) by simp
  show "wf j" "pairs j = wanted (keys_of (flds j)) (docs(x \<mapsto> d'))"
    using add_ok [OF r(1) a assms(5)] r assms(2,3) by (simp_all add: wanted_update)
qed

text \<open>
  The keys of a live document can always be put back: no other document took one while the index,
  which held them before, was without them. A rollback cannot be rejected.
\<close>

lemma put_back:
  assumes "unique i \<Longrightarrow> pairs i = wanted (keys_of (flds i)) docs" and "docs x = Some d" and "admissible (flds i) d"
    and "wf j" and "pairs j = wanted (keys_of (flds i)) (docs(x := None))" and "flds j = flds i" and "unique j = unique i"
  obtains j' where "add d x j = Inr j'" and "wf j'" and "pairs j' = wanted (keys_of (flds i)) docs"
    and "flds j' = flds i" and "unique j' = unique i"
proof (cases "add d x j")
  case (Inl e)
  then obtain k y where k: "unique i" "k \<in> keys_of (flds i) d" "(k, y) \<in> pairs j" "y \<noteq> x"
    using add_rejects assms(6,7) by metis
  have "(k, x) \<in> pairs i" using assms(1) [OF k(1)] assms(2) k(2) by (auto simp: wanted_def)
  moreover have "(k, y) \<in> pairs i" using assms(1) [OF k(1)] assms(5) k(3,4) by (auto simp: wanted_def)
  ultimately show ?thesis using one_owner [OF k(1)] k(4) by blast
next
  case (Inr j')
  have "docs = (docs(x := None))(x \<mapsto> d)" using assms(2) by auto
  then have "wanted ks docs = wanted ks (docs(x := None)) \<union> ks d \<times> {x}" for ks
    using wanted_insert [of "docs(x := None)" x ks d] by simp
  moreover have "admissible (flds j) d" using assms(3,6) by simp
  ultimately show ?thesis using that [OF Inr] add_ok [OF assms(4) _ Inr] assms(5-7) by simp
qed

text \<open>Taking out the keys of an id the index does not hold changes nothing.\<close>

lemma remove_absent:
  assumes "wf i" and "pairs i = wanted (keys_of (flds i)) docs" and "docs x = None"
  shows "wf (remove d x i)" and "pairs (remove d x i) = wanted (keys_of (flds i)) docs"
    and "flds (remove d x i) = flds i" and "unique (remove d x i) = unique i"
  using remove_ok [OF assms(1), of d x] assms(2,3) by (auto simp: wanted_def)

text \<open>When every change is coherent, a unique index never holds one key for two documents.\<close>

lemma unique_keys:
  assumes "unique i" and "pairs i = wanted (keys_of (flds i)) docs"
    and "docs x = Some d" and "docs y = Some d'" and "k \<in> keys_of (flds i) d" and "k \<in> keys_of (flds i) d'"
  shows "x = y"
  using one_owner [OF assms(1), of k x y] assms by (auto simp: wanted_def)

end

end
