(* ===== verification/Index_Laws.thy ===== *)
theory Index_Laws
  imports Index_Keys Index_Interface
begin

text \<open>
  What the index of \<open>db/index.go\<close> promises. The abstraction \<open>rel\<close> is the set of (key, document id)
  pairs it holds; \<open>wf_index\<close> is its invariant (distinct keys, no empty id set, \<open>ord\<close> holding exactly
  the keys in use, sorted unless marked dirty, a consistent CSR view). Adding and removing a document
  are set union and difference, a rejected document changes nothing, and exact, prefix and range
  lookups return exactly the pairs they are about. The locale \<open>document_index\<close> is the interface the
  store relies on; it is interpreted here on the model's operations.
\<close>

section \<open>Sorting\<close>

definition ord_ok :: "ord_entry list \<Rightarrow> bool" where
  "ord_ok xs \<longleftrightarrow> (\<forall>e \<in> set xs. enc_ok (fst e))"

definition ord_sorted :: "ord_entry list \<Rightarrow> bool" where
  "ord_sorted xs \<longleftrightarrow> sorted_wrt (\<lambda>a b. entry_key a < entry_key b) xs"

lemma ord_ok_simps [simp]:
  "ord_ok []" "ord_ok (e # xs) \<longleftrightarrow> enc_ok (fst e) \<and> ord_ok xs"
  "ord_ok (xs @ ys) \<longleftrightarrow> ord_ok xs \<and> ord_ok ys"
  by (auto simp: ord_ok_def)

lemma set_ord_insert [simp]: "set (ord_insert e xs) = insert e (set xs)"
  by (induction xs) auto

lemma set_ord_sort [simp]: "set (ord_sort xs) = set xs"
  by (induction xs) (auto simp: ord_sort_def)

lemma map_snd_ord_insert: "distinct (map snd (ord_insert e xs)) \<longleftrightarrow> distinct (map snd (e # xs))"
  by (induction xs) auto

lemma distinct_ord_sort [simp]: "distinct (map snd (ord_sort xs)) \<longleftrightarrow> distinct (map snd xs)"
proof (induction xs)
  case (Cons e xs)
  have "set (map snd (ord_sort xs)) = set (map snd xs)" by simp
  then show ?case using Cons map_snd_ord_insert [of e "ord_sort xs"] by (simp add: ord_sort_def)
qed (simp add: ord_sort_def)

lemma ord_insert_sorted:
  "ord_sorted xs \<Longrightarrow> ord_ok (e # xs) \<Longrightarrow> snd e \<notin> snd ` set xs \<Longrightarrow> ord_sorted (ord_insert e xs)"
proof (induction xs)
  case (Cons x xs)
  have "entry_key e \<noteq> entry_key x" using Cons.prems by (auto simp: entry_key_def)
  then show ?case using Cons
    by (fastforce simp: ord_sorted_def ordLess_iff)
qed (simp add: ord_sorted_def)

lemma ord_sort_sorted:
  "ord_ok xs \<Longrightarrow> distinct (map snd xs) \<Longrightarrow> ord_sorted (ord_sort xs)"
proof (induction xs)
  case (Cons e xs)
  have "ord_sorted (ord_insert e (ord_sort xs))"
    using Cons by (intro ord_insert_sorted) (auto simp: ord_ok_def)
  then show ?case by (simp add: ord_sort_def)
qed (simp add: ord_sort_def ord_sorted_def)

text \<open>With distinct keys there is one sorted arrangement: Go's unstable sort has no choice.\<close>

lemma ord_sort_unique:
  assumes "ord_ok xs" and "distinct (map snd xs)" and "set ys = set xs" and "ord_sorted ys"
  shows "ys = ord_sort xs"
proof -
  have inj: "inj_on entry_key (set xs)"
    using assms(2) by (auto simp: inj_on_def entry_key_def distinct_map)
  have s: "sorted (map entry_key zs) \<and> distinct (map entry_key zs)" if "ord_sorted zs" for zs
    using that unfolding ord_sorted_def strict_sorted_iff [symmetric] by (simp add: sorted_wrt_map)
  have "map entry_key ys = map entry_key (ord_sort xs)"
    using s [OF assms(4)] s [OF ord_sort_sorted [OF assms(1,2)]] assms(3)
    by (intro sorted_distinct_set_unique) simp_all
  moreover have "inj_on entry_key (set ys \<union> set (ord_sort xs))" using inj assms(3) by simp
  ultimately show ?thesis by (rule map_inj_on)
qed

lemma insert_at_set [simp]: "set (insert_at i x xs) = insert x (set xs)"
proof -
  have "set xs = set (take i xs) \<union> set (drop i xs)"
    using set_append [of "take i xs" "drop i xs"] unfolding append_take_drop_id .
  then show ?thesis by (auto simp: insert_at_def)
qed

lemma sorted_wrt_insert_at:
  assumes "sorted_wrt R xs" and "i \<le> length xs" and "\<forall>j < i. R (xs ! j) x"
    and "\<forall>j. i \<le> j \<longrightarrow> j < length xs \<longrightarrow> R x (xs ! j)"
  shows "sorted_wrt R (insert_at i x xs)"
proof -
  have "y \<in> set (take i xs) \<Longrightarrow> R y x" for y using assms(2,3) by (auto simp: in_set_conv_nth)
  moreover have "y \<in> set (drop i xs) \<Longrightarrow> R x y" for y using assms(2,4) by (auto simp: in_set_conv_nth)
  moreover have "sorted_wrt R (take i xs @ drop i xs)" using assms(1) by simp
  ultimately show ?thesis
    by (auto simp: insert_at_def sorted_wrt_append simp del: append_take_drop_id)
qed

lemma ord_pos_mono:
  assumes "ord_sorted xs" and "ord_ok xs" and "enc_ok (fst e)"
  shows "mono_pred (length xs) (\<lambda>i. \<not> ordLess (xs ! i) e)"
  unfolding mono_pred_def
proof (intro allI impI)
  fix i j assume ij: "i \<le> j" "j < length xs" "\<not> ordLess (xs ! i) e"
  have "entry_key (xs ! i) \<le> entry_key (xs ! j)"
    using assms(1) ij unfolding ord_sorted_def by (cases "i = j") (auto simp: sorted_wrt_iff_nth_less less_imp_le)
  moreover have "enc_ok (fst (xs ! k))" if "k < length xs" for k using assms(2) that by (auto simp: ord_ok_def)
  ultimately show "\<not> ordLess (xs ! j) e" using ij assms(3) by (auto simp: ordLess_iff)
qed

lemma ordAdd_list_sorted:
  assumes "ord_sorted xs" and "ord_ok xs" and "enc_ok (fst e)" and "snd e \<notin> snd ` set xs"
  shows "ord_sorted (insert_at (ord_pos xs e) e xs)"
  unfolding ord_sorted_def
proof (rule sorted_wrt_insert_at)
  note mono = ord_pos_mono [OF assms(1-3)]
  have ok: "enc_ok (fst (xs ! k))" if "k < length xs" for k using assms(2) that by (auto simp: ord_ok_def)
  show le: "ord_pos xs e \<le> length xs" by (simp add: ord_pos_def)
  show "\<forall>j < ord_pos xs e. entry_key (xs ! j) < entry_key e"
  proof (intro allI impI)
    fix j assume j: "j < ord_pos xs e"
    then have "Index.ordLess (xs ! j) e"
      using sort_search_correct(2) [OF mono] unfolding ord_pos_def by blast
    then show "entry_key (xs ! j) < entry_key e"
      using ordLess_iff ok [of j] assms(3) j le by simp
  qed
  have ne: "entry_key (xs ! j) \<noteq> entry_key e" if "j < length xs" for j
    using assms(4) that by (metis Pair_inject entry_key_def image_eqI nth_mem)
  show "\<forall>j. ord_pos xs e \<le> j \<longrightarrow> j < length xs \<longrightarrow> entry_key e < entry_key (xs ! j)"
  proof (intro allI impI)
    fix j assume j: "ord_pos xs e \<le> j" "j < length xs"
    then have "\<not> Index.ordLess (xs ! j) e"
      using sort_search_correct(3) [OF mono] unfolding ord_pos_def by blast
    then show "entry_key e < entry_key (xs ! j)"
      using ordLess_iff ok [of j] assms(3) j ne [of j] by simp
  qed
  show "sorted_wrt (\<lambda>a b. entry_key a < entry_key b) xs" using assms(1) by (simp add: ord_sorted_def)
qed

lemma remove_key_filter: "distinct (map snd xs) \<Longrightarrow> remove_key k xs = filter (\<lambda>e. snd e \<noteq> k) xs"
proof (induction xs)
  case (Cons x xs)
  have "filter (\<lambda>e. snd e \<noteq> snd x) xs = xs" using Cons.prems
    by (intro filter_True) (simp, metis imageI)
  then show ?case using Cons by auto
qed simp

lemma remove_at_key:
  "distinct (map snd xs) \<Longrightarrow> i < length xs \<Longrightarrow> snd (xs ! i) = k \<Longrightarrow> remove_at i xs = remove_key k xs"
proof (induction xs arbitrary: i)
  case (Cons x xs)
  then show ?case
  proof (cases i)
    case (Suc j)
    then have "snd x \<noteq> k" using Cons.prems by (metis Suc_less_SucD distinct.simps(2) length_Cons
      length_map list.simps(9) nth_Cons_Suc nth_map nth_mem)
    then show ?thesis using Cons Suc by (simp add: remove_at_def)
  qed (simp add: remove_at_def)
qed simp

text \<open>Whatever the binary search finds, \<open>ordRemove\<close> drops the entry of the key.\<close>

lemma ordRemove_eq:
  "distinct (map snd (ix_ord idx)) \<Longrightarrow>
    ordRemove e idx = idx\<lparr>ix_ord := filter (\<lambda>x. snd x \<noteq> snd e) (ix_ord idx)\<rparr>"
  by (auto simp: ordRemove_def Let_def remove_at_key remove_key_filter)


section \<open>The invariant and the relation an index holds\<close>

abbreviation active_keys :: "index \<Rightarrow> string set" where
  "active_keys idx \<equiv> (if ix_unique idx then keys (ix_uniq idx) else keys (ix_entries idx))"

text \<open>The pairs of key and document id that the index holds.\<close>

definition rel :: "index \<Rightarrow> (string \<times> string) set" where
  "rel idx = {(k, d). d \<in> set (key_ids idx k)}"

text \<open>Where a key of \<open>ord\<close> comes from: a row with the index's number of values, headed by \<open>v\<close>.\<close>

definition key_row :: "index \<Rightarrow> ord_entry \<Rightarrow> jval list \<Rightarrow> bool" where
  "key_row idx e row \<longleftrightarrow> row_ok row \<and> length row = length (ix_fields idx)
     \<and> snd e = encodeIndexKey row \<and> fst e = row_val row"

text \<open>The CSR view agrees with the hash, row by row in the order of \<open>ord\<close>.\<close>

definition matrix_ok :: "index \<Rightarrow> csr_matrix \<Rightarrow> bool" where
  "matrix_ok idx m \<longleftrightarrow>
     (length (m_indptr m) = length (ix_ord idx) + 1 \<longrightarrow>
        (\<forall>i < length (ix_ord idx). csr_row_ids m i = map_row_ids idx (snd (ix_ord idx ! i)))
        \<and> map (\<lambda>col. m_ids m ! nat col) (m_indices m)
            = concat (map (\<lambda>e. map_row_ids idx (snd e)) (ix_ord idx)))"

definition wf_index :: "index \<Rightarrow> bool" where
  "wf_index idx \<longleftrightarrow>
     distinct_keys (ix_entries idx) \<and> distinct_keys (ix_uniq idx)
     \<and> (\<forall>(k, ids) \<in> set (ix_entries idx). ids \<noteq> [] \<and> distinct ids)
     \<and> distinct (map snd (ix_ord idx)) \<and> snd ` set (ix_ord idx) = active_keys idx
     \<and> (\<forall>e \<in> set (ix_ord idx). \<exists>row. key_row idx e row)
     \<and> (\<not> ix_dirty idx \<longrightarrow> ord_sorted (ix_ord idx))
     \<and> (\<forall>m. ix_matrix idx = Some m \<longrightarrow> \<not> ix_dirty idx \<and> matrix_ok idx m)"

lemma enc_ok_JNull [simp]: "enc_ok JNull"
  by (simp add: enc_ok_def is_scalar_def)

lemma enc_ok_row_val: "row_ok row \<Longrightarrow> enc_ok (row_val row)"
  by (cases row) (auto simp: row_val_def)

lemma key_row_enc_ok: "key_row idx e row \<Longrightarrow> enc_ok (fst e)"
  by (auto simp: key_row_def enc_ok_row_val)

lemma wf_ord_ok: "wf_index idx \<Longrightarrow> ord_ok (ix_ord idx)"
  by (auto simp: wf_index_def ord_ok_def dest: key_row_enc_ok)

lemma wf_newIndex [simp]: "wf_index (newIndex flds unique)"
  by (simp add: wf_index_def newIndex_def)

lemma rel_newIndex [simp]: "rel (newIndex flds unique) = {}"
  by (auto simp: rel_def newIndex_def key_ids_def ids_at_def)

lemma key_ids_None: "k \<notin> active_keys idx \<Longrightarrow> key_ids idx k = []"
  by (auto simp: key_ids_def ids_at_def split: option.splits if_splits dest!: map_of_SomeD)
    (metis fst_conv image_eqI)+

lemma key_ids_active: "wf_index idx \<Longrightarrow> k \<in> active_keys idx \<Longrightarrow> key_ids idx k \<noteq> []"
  by (fastforce simp: key_ids_def ids_at_def wf_index_def split: option.splits if_splits
      dest!: map_of_SomeD map_of_eq_None_iff [THEN iffD1])

lemma key_ids_distinct: "wf_index idx \<Longrightarrow> distinct (key_ids idx k)"
  by (fastforce simp: key_ids_def ids_at_def wf_index_def split: option.splits dest!: map_of_SomeD)

lemma rel_active: "wf_index idx \<Longrightarrow> (\<exists>d. (k, d) \<in> rel idx) \<longleftrightarrow> k \<in> active_keys idx"
proof -
  have "(\<exists>d. (k, d) \<in> rel idx) \<longleftrightarrow> key_ids idx k \<noteq> []"
    by (cases "key_ids idx k") (auto simp: rel_def)
  then show "wf_index idx \<Longrightarrow> ?thesis" using key_ids_None [of k idx] key_ids_active [of idx k] by blast
qed

text \<open>In a unique index a key has one owner.\<close>

lemma rel_unique: "ix_unique idx \<Longrightarrow> (k, d) \<in> rel idx \<longleftrightarrow> map_of (ix_uniq idx) k = Some d"
  by (auto simp: rel_def key_ids_def split: option.splits)


section \<open>Adding and removing one key\<close>

lemma map_insert_at: "map f (insert_at i x xs) = insert_at i (f x) (map f xs)"
  by (simp add: insert_at_def take_map drop_map)

lemma distinct_insert_at: "distinct xs \<Longrightarrow> x \<notin> set xs \<Longrightarrow> distinct (insert_at i x xs)"
  using distinct_append [of "take i xs" "drop i xs"]
  by (auto simp: insert_at_def dest: in_set_takeD in_set_dropD)

lemma ordAdd_cases:
  assumes "distinct (map snd (ix_ord idx))" and "snd e \<notin> snd ` set (ix_ord idx)"
    and "ord_ok (e # ix_ord idx)"
  obtains xs where "ordAdd e idx = idx\<lparr>ix_ord := xs\<rparr>" and "set xs = insert e (set (ix_ord idx))"
    and "distinct (map snd xs)"
    and "\<not> ix_dirty idx \<Longrightarrow> ord_sorted (ix_ord idx) \<Longrightarrow> ord_sorted xs"
proof (cases "ix_dirty idx")
  case True
  then show ?thesis using assms by (intro that [of "ix_ord idx @ [e]"]) (auto simp: ordAdd_def)
next
  case False
  then show ?thesis using assms
    by (intro that [of "insert_at (ord_pos (ix_ord idx) e) e (ix_ord idx)"])
      (auto simp: ordAdd_def map_insert_at distinct_insert_at ordAdd_list_sorted)
qed

lemma set_add_id [simp]: "set (add_id d ids) = insert d (set ids)"
  by (auto simp: add_id_def)

lemma distinct_add_id [simp]: "distinct ids \<Longrightarrow> distinct (add_id d ids)"
  by (simp add: add_id_def)

lemma add_id_nonempty [simp]: "add_id d ids \<noteq> []"
  by (auto simp: add_id_def)

lemma key_row_shape:
  "ix_fields idx' = ix_fields idx \<Longrightarrow> key_row idx' e row = key_row idx e row"
  by (simp add: key_row_def)

lemma ordAdd_frame [simp]:
  "ix_fields (ordAdd e idx) = ix_fields idx" "ix_unique (ordAdd e idx) = ix_unique idx"
  "ix_entries (ordAdd e idx) = ix_entries idx" "ix_uniq (ordAdd e idx) = ix_uniq idx"
  "ix_dirty (ordAdd e idx) = ix_dirty idx" "ix_matrix (ordAdd e idx) = ix_matrix idx"
  by (simp_all add: ordAdd_def)

lemma ordRemove_frame [simp]:
  "ix_fields (ordRemove e idx) = ix_fields idx" "ix_unique (ordRemove e idx) = ix_unique idx"
  "ix_entries (ordRemove e idx) = ix_entries idx" "ix_uniq (ordRemove e idx) = ix_uniq idx"
  "ix_dirty (ordRemove e idx) = ix_dirty idx" "ix_matrix (ordRemove e idx) = ix_matrix idx"
  by (simp_all add: ordRemove_def Let_def)

lemma addKey_frame [simp]:
  "ix_fields (addKey k v d idx) = ix_fields idx" "ix_unique (addKey k v d idx) = ix_unique idx"
  by (simp_all add: addKey_def Let_def split: option.splits)

lemma removeKey_frame [simp]:
  "ix_fields (removeKey k v d idx) = ix_fields idx" "ix_unique (removeKey k v d idx) = ix_unique idx"
  by (simp_all add: removeKey_def Let_def split: option.splits)

text \<open>The invariant with the hashes replaced and one key's entry possibly added to \<open>ord\<close>.\<close>

lemma wf_put:
  assumes wf: "wf_index idx" and row: "key_row idx (v, k) row" and d: "ids \<noteq> []" "distinct ids"
    and new: "if k \<in> active_keys idx then idx' = idx\<lparr>ix_matrix := None\<rparr>
              else idx' = ordAdd (v, k) (idx\<lparr>ix_matrix := None\<rparr>)"
  shows "wf_index (if ix_unique idx then idx'\<lparr>ix_uniq := mput k o' (ix_uniq idx)\<rparr>
                   else idx'\<lparr>ix_entries := mput k ids (ix_entries idx)\<rparr>)" (is "wf_index ?new")
proof -
  have ents: "\<forall>(k, ids) \<in> set (mput k ids (ix_entries idx)). ids \<noteq> [] \<and> distinct ids"
    using wf d by (auto simp: wf_index_def set_mput)
  have kr: "key_row ?new e r = key_row idx e r" for e r
    using new by (intro key_row_shape) (auto split: if_splits)
  show ?thesis
  proof (cases "k \<in> active_keys idx")
    case True
    then have "idx' = idx\<lparr>ix_matrix := None\<rparr>" using new by (simp split: if_splits)
    then show ?thesis using wf True ents kr
      by (auto simp: wf_index_def insert_absorb split: if_splits)
  next
    case False
    then have idx': "idx' = ordAdd (v, k) (idx\<lparr>ix_matrix := None\<rparr>)" using new by (simp split: if_splits)
    have "snd (v, k) \<notin> snd ` set (ix_ord idx)" using False wf by (auto simp: wf_index_def)
    then obtain xs where xs: "idx' = idx\<lparr>ix_matrix := None, ix_ord := xs\<rparr>"
      "set xs = insert (v, k) (set (ix_ord idx))" "distinct (map snd xs)"
      "\<not> ix_dirty idx \<Longrightarrow> ord_sorted (ix_ord idx) \<Longrightarrow> ord_sorted xs"
      using ordAdd_cases [of "idx\<lparr>ix_matrix := None\<rparr>" "(v, k)"] wf wf_ord_ok [OF wf] key_row_enc_ok [OF row] idx'
      by (auto simp: wf_index_def)
    then show ?thesis using wf ents kr row
      by (auto simp: wf_index_def split: if_splits)
  qed
qed

lemma wf_addKey:
  assumes wf: "wf_index idx" and row: "key_row idx (v, k) row"
  shows "wf_index (addKey k v d idx)"
proof (cases "ix_unique idx")
  case True
  have "wf_index (if ix_unique idx then
      (if k \<in> active_keys idx then idx\<lparr>ix_matrix := None\<rparr> else ordAdd (v, k) (idx\<lparr>ix_matrix := None\<rparr>))
        \<lparr>ix_uniq := mput k d (ix_uniq idx)\<rparr> else idx)"
    using wf_put [OF wf row, of "[d]" _ d] True by auto
  then show ?thesis using True
    by (auto simp: addKey_def Let_def map_of_None_keys split: if_splits)
next
  case False
  show ?thesis
  proof (cases "map_of (ix_entries idx) k")
    case None
    then have "wf_index ((ordAdd (v, k) (idx\<lparr>ix_matrix := None\<rparr>))\<lparr>ix_entries := mput k [d] (ix_entries idx)\<rparr>)"
      using wf_put [OF wf row, of "[d]" "ordAdd (v, k) (idx\<lparr>ix_matrix := None\<rparr>)"] False
      by (auto simp: map_of_None_keys)
    then show ?thesis using False None by (simp add: addKey_def)
  next
    case (Some ids)
    then have "distinct ids" "k \<in> keys (ix_entries idx)"
      using wf by (auto simp: wf_index_def dest!: map_of_SomeD intro: rev_image_eqI)
    then show ?thesis
      using wf_put [OF wf row, of "add_id d ids" "idx\<lparr>ix_matrix := None\<rparr>"] False Some
      by (auto simp: addKey_def)
  qed
qed

lemma rel_addKey:
  assumes "\<And>d'. ix_unique idx \<Longrightarrow> (k, d') \<in> rel idx \<Longrightarrow> d' = d"
  shows "rel (addKey k v d idx) = insert (k, d) (rel idx)"
proof (cases "ix_unique idx")
  case True
  then show ?thesis using assms
    by (auto simp: addKey_def Let_def rel_def key_ids_def split: option.splits if_splits)
next
  case False
  then show ?thesis
    by (auto simp: addKey_def Let_def rel_def key_ids_def ids_at_def split: option.splits if_splits)
qed


text \<open>Removing the last id of a key drops its entry from \<open>ord\<close>.\<close>

lemma sorted_wrt_filter': "ord_sorted xs \<Longrightarrow> ord_sorted (filter P xs)"
  by (simp add: ord_sorted_def sorted_wrt_filter)

lemma distinct_map_filter': "distinct (map f xs) \<Longrightarrow> distinct (map f (filter P xs))"
  by (rule distinct_map_filter)

lemma wf_drop_key:
  assumes wf: "wf_index idx"
  shows "wf_index (ordRemove (v, k) (if ix_unique idx
      then idx\<lparr>ix_matrix := None, ix_uniq := mdel k (ix_uniq idx)\<rparr>
      else idx\<lparr>ix_matrix := None, ix_entries := mdel k (ix_entries idx)\<rparr>))" (is "wf_index ?new")
proof -
  have d: "distinct (map snd (ix_ord idx))" using wf by (simp add: wf_index_def)
  have kr: "key_row ?new e r = key_row idx e r" for e r by (intro key_row_shape) simp
  have ord: "ix_ord ?new = filter (\<lambda>x. snd x \<noteq> k) (ix_ord idx)" using d by (simp add: ordRemove_eq)
  have "snd ` {x \<in> set (ix_ord idx). snd x \<noteq> k} = snd ` set (ix_ord idx) - {k}" by auto
  then have act: "snd ` {x \<in> set (ix_ord idx). snd x \<noteq> k} = active_keys idx - {k}"
    using wf by (simp add: wf_index_def)
  have act': "snd ` set (filter (\<lambda>x. snd x \<noteq> k) (ix_ord idx)) = active_keys ?new"
    unfolding set_filter act by (simp only: ordRemove_frame keys_mdel split: if_split) simp
  have rest: "\<forall>(k, ids) \<in> set (ix_entries ?new). ids \<noteq> [] \<and> distinct ids"
    "distinct_keys (ix_entries ?new)" "distinct_keys (ix_uniq ?new)" "ix_matrix ?new = None"
    "ix_dirty ?new = ix_dirty idx"
    using wf by (auto simp: wf_index_def set_mdel)
  have "\<forall>e \<in> set (filter (\<lambda>x. snd x \<noteq> k) (ix_ord idx)). \<exists>row. key_row idx e row"
    "distinct (map snd (filter (\<lambda>x. snd x \<noteq> k) (ix_ord idx)))"
    "\<not> ix_dirty idx \<longrightarrow> ord_sorted (filter (\<lambda>x. snd x \<noteq> k) (ix_ord idx))"
    using wf by (auto simp: wf_index_def sorted_wrt_filter' distinct_map_filter')
  then show ?thesis unfolding wf_index_def ord kr using rest act' by simp
qed

lemma wf_removeKey:
  assumes wf: "wf_index idx"
  shows "wf_index (removeKey k v d idx)"
proof -
  have none: "wf_index (idx\<lparr>ix_matrix := None\<rparr>)"
    using wf by (auto simp: wf_index_def key_row_def)
  have part: "wf_index (idx\<lparr>ix_matrix := None, ix_entries := mput k ids (ix_entries idx)\<rparr>)"
    if "\<not> ix_unique idx" "map_of (ix_entries idx) k = Some ids'" "ids \<noteq> []" "distinct ids" for ids ids'
  proof -
    have "k \<in> keys (ix_entries idx)" using that(2) by (metis map_of_None_keys option.distinct(1))
    then show ?thesis using wf that by (auto simp: wf_index_def set_mput key_row_def insert_absorb)
  qed
  have dist: "distinct ids" if "map_of (ix_entries idx) k = Some ids" for ids
    using wf that by (auto simp: wf_index_def dest!: map_of_SomeD)
  note drop = wf_drop_key [OF wf, of v k]
  show ?thesis
  proof (cases "ix_unique idx")
    case True
    then show ?thesis using none drop by (simp add: removeKey_def Let_def)
  next
    case False
    show ?thesis
    proof (cases "map_of (ix_entries idx) k")
      case None
      then show ?thesis using none False by (simp add: removeKey_def)
    next
      case (Some ids)
      then show ?thesis
        using drop False part [OF False Some, of "removeAll d ids"] dist [OF Some]
        by (simp add: removeKey_def Let_def distinct_removeAll)
    qed
  qed
qed

lemma rel_removeKey: "wf_index idx \<Longrightarrow> rel (removeKey k v d idx) = rel idx - {(k, d)}"
proof -
  have "removeAll d ids = [] \<longleftrightarrow> set ids \<subseteq> {d}" for ids
    using set_removeAll [of d ids] by (metis Diff_eq_empty_iff set_empty)
  then show ?thesis
    by (auto simp: removeKey_def Let_def rel_def key_ids_def ids_at_def split: option.splits if_splits)
qed


section \<open>Adding and removing a document\<close>

definition doc_keys :: "string list \<Rightarrow> document \<Rightarrow> string set" where
  "doc_keys flds doc = encodeIndexKey ` set (extractIndexRows doc flds)"

text \<open>Documents whose indexed values the encoding keeps apart.\<close>

definition rows_ok :: "string list \<Rightarrow> document \<Rightarrow> bool" where
  "rows_ok flds doc \<longleftrightarrow> (\<forall>row \<in> set (extractIndexRows doc flds). row_ok row)"

lemma extend_rows_lengths:
  "\<forall>row \<in> set rows. length row = n \<Longrightarrow> \<forall>row \<in> set (extend_rows rows vs). length row = Suc n"
  by (auto simp: extend_rows_def)

lemma extractIndexRows_length:
  assumes "row \<in> set (extractIndexRows doc flds)"
  shows "length row = length flds"
proof -
  have "\<forall>row \<in> set (foldl (\<lambda>rows f. extend_rows rows (index_values doc f)) rows flds).
      length row = n + length flds"
    if "\<forall>row \<in> set rows. length row = n" for rows n
    using that
  proof (induction flds arbitrary: rows n)
    case (Cons f flds)
    have "\<forall>row \<in> set (extend_rows rows (index_values doc f)). length row = Suc n"
      using extend_rows_lengths Cons.prems by blast
    from Cons.IH [OF this] show ?case by simp
  qed simp
  from this [of "[[]]" 0] assms show ?thesis by (simp add: extractIndexRows_def)
qed

lemma index_values_nonempty [simp]: "index_values doc f \<noteq> []"
  by (auto simp: index_values_def split: option.splits jval.splits)

lemma extractIndexRows_nonempty [simp]: "extractIndexRows doc flds \<noteq> []"
proof -
  have "rows \<noteq> [] \<Longrightarrow> foldl (\<lambda>rows f. extend_rows rows (index_values doc f)) rows flds \<noteq> []" for rows
  proof (induction flds arbitrary: rows)
    case (Cons f flds)
    have "extend_rows rows (index_values doc f) \<noteq> []"
      using Cons.prems index_values_nonempty [of doc f]
      by (cases "index_values doc f") (auto simp: extend_rows_def simp del: index_values_nonempty)
    then show ?case using Cons.IH by simp
  qed simp
  then show ?thesis by (simp add: extractIndexRows_def)
qed

lemma doc_key_row:
  "row \<in> set (extractIndexRows doc (ix_fields idx)) \<Longrightarrow> rows_ok (ix_fields idx) doc \<Longrightarrow>
    key_row idx (row_val row, encodeIndexKey row) row"
  by (simp add: key_row_def rows_ok_def extractIndexRows_length)

text \<open>What the staging loop collects.\<close>

lemma stage_keys_step:
  assumes "stage_keys idx d seen (row # rows) = Inr kvs" and "encodeIndexKey row \<notin> set seen"
  obtains r where "kvs = (encodeIndexKey row, row_val row) # r"
    and "stage_keys idx d (encodeIndexKey row # seen) rows = Inr r"
    and "\<And>d'. ix_unique idx \<Longrightarrow> (encodeIndexKey row, d') \<in> rel idx \<Longrightarrow> d' = d"
  using assms by (auto simp: Let_def result_simps rel_unique split: if_splits option.splits)

lemma stage_keys_ok:
  assumes "stage_keys idx d seen rows = Inr kvs"
  shows "keys kvs = encodeIndexKey ` set rows - set seen \<and> distinct (map fst kvs)
    \<and> (\<forall>p \<in> set kvs. \<exists>row \<in> set rows. fst p = encodeIndexKey row \<and> snd p = row_val row)
    \<and> (\<forall>p \<in> set kvs. \<forall>d'. ix_unique idx \<longrightarrow> (fst p, d') \<in> rel idx \<longrightarrow> d' = d)"
  using assms
proof (induction rows arbitrary: seen kvs)
  case (Cons row rows)
  show ?case
  proof (cases "encodeIndexKey row \<in> set seen")
    case True
    then have "stage_keys idx d seen rows = Inr kvs" using Cons.prems by simp
    from Cons.IH [OF this] True show ?thesis by auto
  next
    case False
    then obtain r where r: "kvs = (encodeIndexKey row, row_val row) # r"
      "stage_keys idx d (encodeIndexKey row # seen) rows = Inr r"
      "\<And>d'. ix_unique idx \<Longrightarrow> (encodeIndexKey row, d') \<in> rel idx \<Longrightarrow> d' = d"
      using stage_keys_step Cons.prems by blast
    note IH = Cons.IH [OF r(2)]
    have "keys kvs = encodeIndexKey ` set (row # rows) - set seen"
      using IH False by (auto simp: r(1))
    moreover have "encodeIndexKey row \<notin> fst ` set r" using IH by auto
    then have "distinct (map fst kvs)" using IH by (simp add: r(1))
    ultimately show ?thesis using IH r(3) by (simp add: r(1))
  qed
qed simp

lemma stage_keys_error:
  "stage_keys idx d seen rows = Inl e \<longleftrightarrow>
     e = ErrDuplicate \<and> ix_unique idx
     \<and> (\<exists>k \<in> encodeIndexKey ` set rows - set seen. \<exists>d'. (k, d') \<in> rel idx \<and> d' \<noteq> d)"
  by (induction idx d seen rows rule: stage_keys.induct)
    (auto simp: Let_def result_simps rel_unique split: option.splits)

lemma addKeys_laws:
  assumes "wf_index idx" and "\<forall>p \<in> set kvs. \<exists>row. key_row idx (snd p, fst p) row"
    and "\<forall>p \<in> set kvs. \<forall>d'. ix_unique idx \<longrightarrow> (fst p, d') \<in> rel idx \<longrightarrow> d' = d"
  shows "wf_index (addKeys kvs d idx) \<and> rel (addKeys kvs d idx) = rel idx \<union> keys kvs \<times> {d}
    \<and> ix_fields (addKeys kvs d idx) = ix_fields idx \<and> ix_unique (addKeys kvs d idx) = ix_unique idx"
  using assms
proof (induction kvs arbitrary: idx)
  case (Cons p kvs)
  obtain row where row: "key_row idx (snd p, fst p) row" using Cons.prems by auto
  have r: "rel (addKey (fst p) (snd p) d idx) = insert (fst p, d) (rel idx)"
    using Cons.prems(3) by (intro rel_addKey) auto
  have "key_row (addKey (fst p) (snd p) d idx) e row = key_row idx e row" for e row
    by (intro key_row_shape) simp
  then show ?case
    using Cons.IH [of "addKey (fst p) (snd p) d idx"] wf_addKey [OF Cons.prems(1) row] r Cons.prems
    by (auto simp: addKeys_def)
qed (simp add: addKeys_def)


lemma addDoc_ok:
  assumes "wf_index idx" and "rows_ok (ix_fields idx) doc" and "addDoc doc d idx = Inr idx'"
  shows "wf_index idx' \<and> rel idx' = rel idx \<union> doc_keys (ix_fields idx) doc \<times> {d}
    \<and> ix_fields idx' = ix_fields idx \<and> ix_unique idx' = ix_unique idx"
proof -
  obtain kvs where kvs: "stage_keys idx d [] (extractIndexRows doc (ix_fields idx)) = Inr kvs"
    and idx': "idx' = addKeys kvs d idx"
    using assms(3) by (auto simp: addDoc_def result_simps)
  note st = stage_keys_ok [OF kvs]
  have "\<forall>p \<in> set kvs. \<exists>row. key_row idx (snd p, fst p) row"
    using st doc_key_row [OF _ assms(2)] by metis
  then show ?thesis
    using addKeys_laws [OF assms(1)] st unfolding idx' doc_keys_def by simp
qed

lemma addDoc_error:
  "addDoc doc d idx = Inl e \<longleftrightarrow> e = ErrDuplicate \<and> ix_unique idx
    \<and> (\<exists>k \<in> doc_keys (ix_fields idx) doc. \<exists>d'. (k, d') \<in> rel idx \<and> d' \<noteq> d)"
  unfolding addDoc_def and_then_Inl_iff stage_keys_error doc_keys_def by simp

lemma removeDoc_laws:
  assumes "wf_index idx"
  shows "wf_index (removeDoc doc d idx) \<and> rel (removeDoc doc d idx) = rel idx - doc_keys (ix_fields idx) doc \<times> {d}
    \<and> ix_fields (removeDoc doc d idx) = ix_fields idx \<and> ix_unique (removeDoc doc d idx) = ix_unique idx"
proof -
  define step where "step = (\<lambda>ix row. removeKey (encodeIndexKey row) (row_val row) d ix)"
  have "wf_index (foldl step idx rows) \<and> rel (foldl step idx rows) = rel idx - (encodeIndexKey ` set rows) \<times> {d}
    \<and> ix_fields (foldl step idx rows) = ix_fields idx \<and> ix_unique (foldl step idx rows) = ix_unique idx"
    if "wf_index idx" for rows idx
    using that
  proof (induction rows arbitrary: idx)
    case (Cons row rows)
    have "wf_index (step idx row)" "rel (step idx row) = rel idx - {(encodeIndexKey row, d)}"
      "ix_fields (step idx row) = ix_fields idx" "ix_unique (step idx row) = ix_unique idx"
      using Cons.prems by (simp_all add: step_def wf_removeKey rel_removeKey)
    then show ?case using Cons.IH [of "step idx row"] by auto
  qed simp
  then show ?thesis using assms by (simp add: removeDoc_def step_def doc_keys_def)
qed

section \<open>Lookups\<close>

lemma lookupIDs_rel: "set (lookupIDs idx vals) = {d. (encodeIndexKey vals, d) \<in> rel idx}"
  by (simp add: lookupIDs_def rel_def)

lemma countKey_length: "countKey idx vals = length (lookupIDs idx vals)"
  by (auto simp: countKey_def lookupIDs_def key_ids_def Let_def split: option.splits)

lemma covers_iff: "covers idx doc d \<longleftrightarrow> doc_keys (ix_fields idx) doc \<times> {d} \<subseteq> rel idx"
proof -
  have "covers idx doc d \<longleftrightarrow> (\<forall>row \<in> set (extractIndexRows doc (ix_fields idx)). (encodeIndexKey row, d) \<in> rel idx)"
    by (auto simp: covers_def rel_def key_ids_def Let_def split: option.splits)
  then show ?thesis by (auto simp: doc_keys_def)
qed

lemma ensureOrd_frame [simp]:
  "ix_fields (ensureOrd idx) = ix_fields idx" "ix_unique (ensureOrd idx) = ix_unique idx"
  "ix_entries (ensureOrd idx) = ix_entries idx" "ix_uniq (ensureOrd idx) = ix_uniq idx"
  "ix_matrix (ensureOrd idx) = ix_matrix idx" "set (ix_ord (ensureOrd idx)) = set (ix_ord idx)"
  "\<not> ix_dirty (ensureOrd idx)"
  by (simp_all add: ensureOrd_def)

lemma key_ids_ensureOrd [simp]: "key_ids (ensureOrd idx) k = key_ids idx k"
  by (simp add: key_ids_def ids_at_def)

lemma rel_ensureOrd [simp]: "rel (ensureOrd idx) = rel idx"
  by (simp add: rel_def)

lemma wf_ensureOrd: "wf_index idx \<Longrightarrow> wf_index (ensureOrd idx)"
proof -
  assume wf: "wf_index idx"
  have "ord_sorted (ord_sort (ix_ord idx))"
    using wf wf_ord_ok [OF wf] by (intro ord_sort_sorted) (auto simp: wf_index_def)
  moreover have "key_row (ensureOrd idx) e row = key_row idx e row" for e row
    by (intro key_row_shape) simp
  ultimately show ?thesis using wf
    by (auto simp: wf_index_def ensureOrd_def matrix_ok_def)
qed

lemma wf_sorted: "wf_index idx \<Longrightarrow> ord_sorted (ix_ord (ensureOrd idx))"
  using wf_ensureOrd by (simp add: wf_index_def)


text \<open>Every key in use comes from a row of the index's width.\<close>

lemma rel_row:
  assumes "wf_index idx" and "(k, d) \<in> rel idx"
  obtains e row where "e \<in> set (ix_ord idx)" and "snd e = k" and "key_row idx e row"
proof -
  have "k \<in> snd ` set (ix_ord idx)" using rel_active [OF assms(1)] assms unfolding wf_index_def by blast
  then obtain e where e: "e \<in> set (ix_ord idx)" "snd e = k" by auto
  moreover from e(1) obtain row where "key_row idx e row" using assms(1) unfolding wf_index_def by blast
  ultimately show ?thesis by (rule that)
qed

subsection \<open>Bands of the ordered keys\<close>

definition band_above :: "nat \<Rightarrow> (jval \<Rightarrow> bool) \<Rightarrow> jval \<Rightarrow> bool" where
  "band_above rank inside v \<longleftrightarrow> (if typeRank v \<noteq> rank then rank < typeRank v else inside v)"

definition up_closed :: "(jval \<Rightarrow> bool) \<Rightarrow> bool" where
  "up_closed P \<longleftrightarrow> (\<forall>v w. enc_ok v \<longrightarrow> enc_ok w \<longrightarrow> ord_key v \<le> ord_key w \<longrightarrow> P v \<longrightarrow> P w)"

lemma ord_key_rank: "ord_key v \<le> ord_key w \<Longrightarrow> typeRank v \<le> typeRank w"
  by (auto simp: typeRank_ord_key less_eq_prod_def)

lemma up_closedD: "up_closed P \<Longrightarrow> enc_ok v \<Longrightarrow> enc_ok w \<Longrightarrow> ord_key v \<le> ord_key w \<Longrightarrow> P v \<Longrightarrow> P w"
  unfolding up_closed_def by blast

lemma up_closed_band:
  assumes "up_closed inside"
  shows "up_closed (band_above rank inside)"
  unfolding up_closed_def
proof (intro allI impI)
  fix v w assume a: "enc_ok v" "enc_ok w" "ord_key v \<le> ord_key w" "band_above rank inside v"
  then show "band_above rank inside w"
    using ord_key_rank [OF a(3)] up_closedD [OF assms a(1-3)] by (simp add: band_above_def split: if_splits)
qed

lemma up_closed_rank: "up_closed (\<lambda>v. rank \<le> typeRank v)" "up_closed (\<lambda>v. rank < typeRank v)"
  unfolding up_closed_def by (meson ord_key_rank order_trans, meson ord_key_rank less_le_trans)

lemma sign3_less:
  fixes a b :: "'a :: linorder"
  shows "0 \<le> sign3 (a < b) (b < a) \<longleftrightarrow> b \<le> a" and "0 < sign3 (a < b) (b < a) \<longleftrightarrow> b < a"
  by (auto simp: sign3_def)

lemma compareOrdered_less:
  assumes "enc_ok v" and "enc_ok t"
  shows "0 \<le> compareOrdered v t \<longleftrightarrow> ord_key t \<le> ord_key v"
    and "0 < compareOrdered v t \<longleftrightarrow> ord_key t < ord_key v"
  unfolding compareOrdered_sign [OF assms] by (rule sign3_less)+

lemma up_closed_compare:
  assumes "enc_ok t"
  shows "up_closed (\<lambda>v. 0 \<le> compareOrdered v t)" and "up_closed (\<lambda>v. 0 < compareOrdered v t)"
  using compareOrdered_less [OF _ assms] by (auto simp: up_closed_def)

lemma up_closed_bounds:
  "enc_ok (rb_lo rb) \<Longrightarrow> up_closed (above_lo rb)" "enc_ok (rb_hi rb) \<Longrightarrow> up_closed (beyond_hi rb)"
  using up_closed_compare unfolding above_lo_def [abs_def] beyond_hi_def [abs_def] Let_def
  by (cases "rb_loIncl rb"; cases "rb_hiIncl rb"; simp)+

lemma sorted_search:
  assumes "ord_sorted xs" and "ord_ok xs" and "up_closed P" and "i < length xs"
  shows "sort_search (length xs) (\<lambda>i. P (fst (xs ! i))) \<le> i \<longleftrightarrow> P (fst (xs ! i))"
proof (rule sort_search_iff [OF _ assms(4)])
  show "mono_pred (length xs) (\<lambda>i. P (fst (xs ! i)))"
    unfolding mono_pred_def
  proof (intro allI impI)
    fix i j assume ij: "i \<le> j" "j < length xs" "P (fst (xs ! i))"
    have "entry_key (xs ! i) \<le> entry_key (xs ! j)"
      using assms(1) ij unfolding ord_sorted_def
      by (cases "i = j") (auto simp: sorted_wrt_iff_nth_less less_imp_le)
    then have "ord_key (fst (xs ! i)) \<le> ord_key (fst (xs ! j))"
      by (auto simp: entry_key_def less_eq_prod_def [where ?'a = "nat \<times> int \<times> string"])
    moreover have "enc_ok (fst (xs ! k))" if "k < length xs" for k using assms(2) that by (auto simp: ord_ok_def)
    ultimately show "P (fst (xs ! j))" using assms(3) ij unfolding up_closed_def by (meson le_less_trans)
  qed
qed

lemma band_pred_above: "band_pred idx rank inside i = band_above rank inside (fst (ix_ord idx ! i))"
  by (simp add: band_pred_def band_above_def Let_def)

lemma slice_filter:
  assumes "\<And>i. i < length xs \<Longrightarrow> a \<le> i \<longleftrightarrow> P (xs ! i)" and "\<And>i. i < length xs \<Longrightarrow> b \<le> i \<longleftrightarrow> Q (xs ! i)"
  shows "take (b - a) (drop a xs) = filter (\<lambda>e. P e \<and> \<not> Q e) xs"
proof -
  have low: "filter (\<lambda>e. P e \<and> \<not> Q e) (take a xs) = []"
    using assms(1) by (fastforce simp: filter_empty_conv in_set_conv_nth)
  have mid: "filter (\<lambda>e. P e \<and> \<not> Q e) (take (b - a) (drop a xs)) = take (b - a) (drop a xs)"
  proof (rule filter_True, rule ballI)
    fix e assume "e \<in> set (take (b - a) (drop a xs))"
    then obtain j where j: "j < b - a" "j < length xs - a" "e = xs ! (a + j)"
      by (auto simp: in_set_conv_nth)
    then have "a + j < length xs" "\<not> b \<le> a + j" by linarith+
    then show "P e \<and> \<not> Q e" using assms(1) [of "a + j"] assms(2) [of "a + j"] j by simp
  qed
  have high: "filter (\<lambda>e. P e \<and> \<not> Q e) (drop (b - a) (drop a xs)) = []"
  proof (cases "a \<le> b")
    case True
    have "Q e" if "e \<in> set (drop b xs)" for e
    proof -
      obtain j where "j < length xs - b" "e = xs ! (b + j)" using \<open>e \<in> _\<close> by (auto simp: in_set_conv_nth)
      then show ?thesis using assms(2) [of "b + j"] by auto
    qed
    then show ?thesis using True by (auto simp: filter_empty_conv)
  next
    case False
    have "Q e" if "e \<in> set (drop a xs)" for e
    proof -
      obtain j where "j < length xs - a" "e = xs ! (a + j)" using \<open>e \<in> _\<close> by (auto simp: in_set_conv_nth)
      then show ?thesis using assms(2) [of "a + j"] False by auto
    qed
    then show ?thesis using False by (auto simp: filter_empty_conv)
  qed
  have "filter (\<lambda>e. P e \<and> \<not> Q e) (take a xs @ take (b - a) (drop a xs) @ drop (b - a) (drop a xs))
      = take (b - a) (drop a xs)"
    by (simp only: filter_append low mid high append_Nil append_Nil2)
  then show ?thesis by (simp only: append_take_drop_id)
qed

lemma union_ids_set [simp]: "set (union_ids out ids) = set out \<union> set ids"
  unfolding union_ids_def by (induction ids arbitrary: out) auto

lemma union_ids_distinct [simp]: "distinct out \<Longrightarrow> distinct (union_ids out ids)"
  unfolding union_ids_def by (induction ids arbitrary: out) auto

lemma fold_union:
  "set (foldl (\<lambda>out e. if P e then union_ids out (f e) else out) out es)
     = set out \<union> (\<Union>e \<in> {e \<in> set es. P e}. set (f e))"
  by (induction es arbitrary: out) auto

lemma fold_union_distinct:
  "distinct out \<Longrightarrow> distinct (foldl (\<lambda>out e. if P e then union_ids out (f e) else out) out es)"
  by (induction es arbitrary: out) auto

lemma union_ids_single: "union_ids out [d] = add_id d out"
  by (simp add: union_ids_def)

lemma collectPrefixScan_eq:
  "collectPrefixScan idx p =
     (if ix_unique idx
      then foldl (\<lambda>out e. if has_prefix (fst e) p then union_ids out [snd e] else out) [] (ix_uniq idx)
      else foldl (\<lambda>out e. if has_prefix (fst e) p then union_ids out (snd e) else out) [] (ix_entries idx))"
  by (simp add: collectPrefixScan_def union_ids_single cong: if_cong)

lemma hash_row: "distinct_keys m \<Longrightarrow> d \<in> set (case map_of m k of Some ids \<Rightarrow> f ids | None \<Rightarrow> [])
    \<longleftrightarrow> (\<exists>e \<in> set m. fst e = k \<and> d \<in> set (f (snd e)))"
proof (cases "map_of m k")
  case None
  then have "k \<notin> keys m" by (simp add: map_of_None_keys)
  then show ?thesis by (auto simp: None)
next
  case (Some ids)
  assume "distinct_keys m"
  then have "(k, y) \<in> set m \<longleftrightarrow> y = ids" for y using Some distinct_keys_map_of_iff [of m k y] by auto
  then show ?thesis using Some by force
qed

lemma collectPrefixScan_set:
  assumes "wf_index idx"
  shows "set (collectPrefixScan idx p) = {d. \<exists>k. has_prefix k p \<and> (k, d) \<in> rel idx}"
proof -
  have d: "distinct_keys (ix_entries idx)" "distinct_keys (ix_uniq idx)"
    using assms by (simp_all add: wf_index_def)
  show ?thesis
    unfolding collectPrefixScan_eq rel_def key_ids_def ids_at_def
    using hash_row [OF d(2), where f = "\<lambda>d. [d]"] hash_row [OF d(1), where f = "\<lambda>ids. ids"]
    by (auto simp: fold_union)
qed

lemma collectPrefixScan_distinct: "distinct (collectPrefixScan idx p)"
  unfolding collectPrefixScan_eq by (simp add: fold_union_distinct)


subsection \<open>Prefix lookup\<close>

lemma ord_search_slice:
  assumes "wf_index idx" and "up_closed P" and "up_closed Q"
  shows "ord_slice (ensureOrd idx) (sort_search (length (ix_ord (ensureOrd idx))) (\<lambda>i. P (fst (ix_ord (ensureOrd idx) ! i))))
           (sort_search (length (ix_ord (ensureOrd idx))) (\<lambda>i. Q (fst (ix_ord (ensureOrd idx) ! i))))
         = filter (\<lambda>e. P (fst e) \<and> \<not> Q (fst e)) (ix_ord (ensureOrd idx))"
proof -
  have wf: "wf_index (ensureOrd idx)" using assms(1) by (rule wf_ensureOrd)
  have s: "ord_sorted (ix_ord (ensureOrd idx))" "ord_ok (ix_ord (ensureOrd idx))"
    using wf_sorted [OF assms(1)] wf_ord_ok [OF wf] by auto
  show ?thesis
    unfolding ord_slice_def
    by (rule slice_filter [OF sorted_search [OF s assms(2)] sorted_search [OF s assms(3)]])
qed

text \<open>The rows a prefix of values selects.\<close>

definition prefix_ids :: "index \<Rightarrow> jval list \<Rightarrow> string set" where
  "prefix_ids idx vals = {d. \<exists>row. row_ok row \<and> length row = length (ix_fields idx)
     \<and> map encodeIndexValue vals = take (length vals) (map encodeIndexValue row)
     \<and> (encodeIndexKey row, d) \<in> rel idx}"

lemma prefix_ids_full:
  assumes "row_ok vals" and "length vals = length (ix_fields idx)"
  shows "prefix_ids idx vals = {d. (encodeIndexKey vals, d) \<in> rel idx}"
proof (intro equalityI subsetI)
  fix d assume "d \<in> prefix_ids idx vals"
  then obtain row where row: "length row = length (ix_fields idx)" "(encodeIndexKey row, d) \<in> rel idx"
    "map encodeIndexValue vals = take (length vals) (map encodeIndexValue row)"
    by (auto simp: prefix_ids_def)
  then have "encodeIndexKey row = encodeIndexKey vals" using assms(2) by (intro key_map_cong) simp
  then show "d \<in> {d. (encodeIndexKey vals, d) \<in> rel idx}" using row by simp
next
  fix d assume "d \<in> {d. (encodeIndexKey vals, d) \<in> rel idx}"
  then show "d \<in> prefix_ids idx vals" using assms by (auto simp: prefix_ids_def intro: exI [of _ vals])
qed

lemma prefix_ids_scan:
  assumes wf: "wf_index idx" and "row_ok vals" and "vals \<noteq> []" and "length vals < length (ix_fields idx)"
  shows "prefix_ids idx vals = {d. \<exists>k. has_prefix k (encodeIndexKey vals @ key_sep) \<and> (k, d) \<in> rel idx}"
proof (intro equalityI subsetI)
  fix d assume "d \<in> prefix_ids idx vals"
  then obtain row where row: "row_ok row" "length row = length (ix_fields idx)" "(encodeIndexKey row, d) \<in> rel idx"
    "map encodeIndexValue vals = take (length vals) (map encodeIndexValue row)"
    by (auto simp: prefix_ids_def)
  then have "has_prefix (encodeIndexKey row) (encodeIndexKey vals @ key_sep)"
    using key_prefix_iff [OF assms(2) _ assms(3)] assms(4) by simp
  then show "d \<in> {d. \<exists>k. has_prefix k (encodeIndexKey vals @ key_sep) \<and> (k, d) \<in> rel idx}"
    using row by blast
next
  fix d assume "d \<in> {d. \<exists>k. has_prefix k (encodeIndexKey vals @ key_sep) \<and> (k, d) \<in> rel idx}"
  then obtain k where k: "has_prefix k (encodeIndexKey vals @ key_sep)" "(k, d) \<in> rel idx" by auto
  then obtain e row where "snd e = k" "key_row idx e row" using rel_row [OF wf] by metis
  then show "d \<in> prefix_ids idx vals"
    using key_prefix_iff [OF assms(2) _ assms(3), of row] k
    by (auto simp: prefix_ids_def key_row_def)
qed

lemma prefix_ord_key:
  assumes "key_row idx e row" and "row_ok vals" and "vals \<noteq> []"
    and "has_prefix (snd e) (encodeIndexKey vals @ key_sep)"
  shows "ord_key (fst e) = ord_key (hd vals)"
proof -
  have "length vals < length row" "map encodeIndexValue vals = take (length vals) (map encodeIndexValue row)"
    using key_prefix_iff [of vals row] assms by (auto simp: key_row_def)
  then have "encodeIndexValue (hd row) = encodeIndexValue (hd vals)" "row \<noteq> []"
    using assms(3) by (cases vals; cases row; simp)+
  then show ?thesis
    using assms by (intro enc_ord_key) (cases row; cases vals; auto simp: key_row_def row_val_def)+
qed

lemma seekPrefix_scan:
  assumes wf: "wf_index idx" and "row_ok vals" and "vals \<noteq> []" and "length vals < length (ix_fields idx)"
  shows "set (snd (seekPrefix idx vals)) = {d. \<exists>k. has_prefix k (encodeIndexKey vals @ key_sep) \<and> (k, d) \<in> rel idx}"
    (is "_ = ?R")
proof (cases "typeRank (hd vals) \<in> {0, 3, 4}")
  case True
  then show ?thesis using assms collectPrefixScan_set [OF wf] by (auto simp: seekPrefix_def Let_def)
next
  case False
  let ?t = "hd vals" let ?p = "encodeIndexKey vals @ key_sep"
  have t: "enc_ok ?t" using assms(2,3) by (cases vals) auto
  define P where "P = band_above (typeRank ?t) (\<lambda>v. 0 \<le> compareOrdered v ?t)"
  define Q where "Q = band_above (typeRank ?t) (\<lambda>v. 0 < compareOrdered v ?t)"
  have up: "up_closed P" "up_closed Q"
    unfolding P_def Q_def by (intro up_closed_band up_closed_compare t)+
  have ids: "set (snd (seekPrefix idx vals)) = (\<Union>e \<in> {e \<in> {e \<in> set (ix_ord idx). P (fst e) \<and> \<not> Q (fst e)}.
      has_prefix (snd e) ?p}. set (key_ids idx (snd e)))"
    using False assms(3,4) ord_search_slice [OF wf up]
    by (simp add: seekPrefix_def Let_def fold_union ord_search_def band_pred_above [abs_def] P_def Q_def conj_assoc)
  have band: "P (fst e) \<and> \<not> Q (fst e)" if "key_row idx e row" "has_prefix (snd e) ?p" for e row
  proof -
    have "ord_key (fst e) = ord_key ?t" using prefix_ord_key that assms(2,3) by blast
    then show ?thesis using key_row_enc_ok [OF that(1)] t
      by (simp add: P_def Q_def band_above_def compareOrdered_less typeRank_ord_key)
  qed
  show ?thesis
  proof (intro equalityI subsetI)
    fix d assume "d \<in> ?R"
    then obtain k where k: "has_prefix k ?p" "(k, d) \<in> rel idx" by auto
    then obtain e row where "e \<in> set (ix_ord idx)" "snd e = k" "key_row idx e row" using rel_row [OF wf] by metis
    moreover from calculation have "P (fst e) \<and> \<not> Q (fst e)" using band k by blast
    ultimately show "d \<in> set (snd (seekPrefix idx vals))" using k
      by (auto simp: ids rel_def) (metis prod.collapse)
  qed (auto simp: ids rel_def)
qed

text \<open>A prefix lookup returns exactly the documents with a row that starts with the values.\<close>

lemma seekPrefix_set:
  assumes "wf_index idx" and "row_ok vals" and "vals \<noteq> []" and "length vals \<le> length (ix_fields idx)"
  shows "set (snd (seekPrefix idx vals)) = prefix_ids idx vals"
proof (cases "length vals = length (ix_fields idx)")
  case True
  then show ?thesis using assms prefix_ids_full by (simp add: seekPrefix_def lookupIDs_rel)
next
  case False
  then show ?thesis using assms seekPrefix_scan prefix_ids_scan by simp
qed

lemma seekPrefix_distinct: "wf_index idx \<Longrightarrow> distinct (snd (seekPrefix idx vals))"
  by (simp add: seekPrefix_def Let_def lookupIDs_def key_ids_distinct collectPrefixScan_distinct fold_union_distinct)

lemma seekPrefix_state: "fst (seekPrefix idx vals) \<in> {idx, ensureOrd idx}"
  by (simp add: seekPrefix_def Let_def)


subsection \<open>Range lookup and the ordered walk\<close>

definition in_range :: "range_bound \<Rightarrow> nat \<Rightarrow> jval \<Rightarrow> bool" where
  "in_range rb rank v \<longleftrightarrow> typeRank v = rank \<and> (rb_hasLo rb \<longrightarrow> above_lo rb v)
     \<and> (rb_hasHi rb \<longrightarrow> \<not> beyond_hi rb v)"

definition bounds_ok :: "range_bound \<Rightarrow> bool" where
  "bounds_ok rb \<longleftrightarrow> enc_ok (rb_lo rb) \<and> enc_ok (rb_hi rb)"

lemma set_map_row_ids [simp]: "set (map_row_ids idx k) = set (key_ids idx k)"
  by (auto simp: map_row_ids_def key_ids_def idsSortedForKey_def split: option.splits)

lemma map_row_ids_sorted: "sorted (map_row_ids idx k)"
  by (auto simp: map_row_ids_def idsSortedForKey_def split: option.splits)

lemma map_row_ids_ensureOrd [simp]: "map_row_ids (ensureOrd idx) k = map_row_ids idx k"
  by (simp add: map_row_ids_def idsSortedForKey_def ids_at_def)

lemma ord_slice_upt: "end' \<le> length (ix_ord idx) \<Longrightarrow> ord_slice idx start end' = map ((!) (ix_ord idx)) [start..<end']"
  by (auto simp: ord_slice_def intro!: nth_equalityI)

text \<open>The CSR view gives the same ids as the hash.\<close>

lemma collectRange_eq:
  assumes "wf_index idx" and "end' \<le> length (ix_ord idx)"
  shows "collectRange idx start end' = concat (map (\<lambda>e. map_row_ids idx (snd e)) (ord_slice idx start end'))"
proof (cases "ix_matrix idx")
  case None
  then show ?thesis by (simp add: collectRange_def)
next
  case (Some m)
  then have "matrix_ok idx m" using assms(1) by (simp add: wf_index_def)
  then have "map (csr_row_ids m) [start..<end'] = map (\<lambda>i. map_row_ids idx (snd (ix_ord idx ! i))) [start..<end']"
    if "length (m_indptr m) = length (ix_ord idx) + 1"
    using that assms(2) by (auto simp: matrix_ok_def)
  then have "concat (map (csr_row_ids m) [start..<end']) = concat (map (\<lambda>i. map_row_ids idx (snd (ix_ord idx ! i))) [start..<end'])"
    if "length (m_indptr m) = length (ix_ord idx) + 1"
    using that by (simp only:)
  then show ?thesis using Some by (simp add: collectRange_def ord_slice_upt [OF assms(2)] comp_def)
qed

lemma seekRange_none: "range_rank rb = None \<Longrightarrow> snd (seekRange idx rb) = []"
  by (simp add: seekRange_def)

lemma seekRange_state: "fst (seekRange idx rb) = ensureOrd idx"
  by (simp add: seekRange_def Let_def split: option.splits)

text \<open>A range lookup walks the keys in range in ascending order, each key's ids ascending.\<close>

lemma seekRange_eq:
  assumes wf: "wf_index idx" and rb: "bounds_ok rb" and rank: "range_rank rb = Some rank"
  shows "snd (seekRange idx rb)
    = concat (map (\<lambda>e. map_row_ids idx (snd e)) (filter (\<lambda>e. in_range rb rank (fst e)) (ix_ord (ensureOrd idx))))"
proof -
  let ?os = "ix_ord (ensureOrd idx)"
  define P where "P = (if rb_hasLo rb then band_above rank (above_lo rb) else (\<lambda>v. rank \<le> typeRank v))"
  define Q where "Q = (if rb_hasHi rb then band_above rank (beyond_hi rb) else (\<lambda>v. rank < typeRank v))"
  have up: "up_closed P" "up_closed Q"
    using rb up_closed_band up_closed_bounds up_closed_rank by (auto simp: P_def Q_def bounds_ok_def)
  have band: "(P v \<and> \<not> Q v) = in_range rb rank v" for v
    by (auto simp: P_def Q_def in_range_def band_above_def)
  have "snd (seekRange idx rb) = collectRange (ensureOrd idx)
      (sort_search (length ?os) (\<lambda>i. P (fst (?os ! i)))) (sort_search (length ?os) (\<lambda>i. Q (fst (?os ! i))))"
    using rank by (simp add: seekRange_def Let_def ord_search_def band_pred_above [abs_def] P_def Q_def)
  then show ?thesis
    using collectRange_eq [OF wf_ensureOrd [OF wf]] ord_search_slice [OF wf up] by (simp add: band)
qed

lemma orderedIDs_eq:
  assumes "wf_index idx"
  shows "snd (orderedIDs idx) = concat (map (\<lambda>e. map_row_ids idx (snd e)) (ix_ord (ensureOrd idx)))"
  using wf_ensureOrd [OF assms]
  by (auto simp: orderedIDs_def Let_def wf_index_def matrix_ok_def split: option.splits)

lemma up_closed_eq:
  assumes "up_closed P" and "enc_ok v" and "enc_ok w" and "ord_key v = ord_key w"
  shows "P v = P w"
  using assms up_closedD [of P v w] up_closedD [of P w v] by auto

lemma in_range_key:
  assumes "bounds_ok rb" and "enc_ok v" and "enc_ok w" and "ord_key v = ord_key w"
  shows "in_range rb rank v = in_range rb rank w"
  using up_closed_eq [OF up_closed_bounds(1) assms(2-4)] up_closed_eq [OF up_closed_bounds(2) assms(2-4)]
    assms by (simp add: in_range_def bounds_ok_def typeRank_ord_key)

lemma row_ord_key:
  assumes "encodeIndexKey p = encodeIndexKey q" and "row_ok p" and "row_ok q"
  shows "ord_key (row_val p) = ord_key (row_val q)"
proof (cases p)
  case Nil
  then show ?thesis using encodeIndexKey_eq [OF assms] by simp
next
  case (Cons v p')
  then obtain w q' where q: "q = w # q'" "encodeIndexValue v = encodeIndexValue w"
    using encodeIndexKey_eq [OF assms] by auto
  then show ?thesis using enc_ord_key [OF q(2)] assms(2,3) by (simp add: Cons row_val_def)
qed

lemma seekRange_set:
  assumes wf: "wf_index idx" and rb: "bounds_ok rb" and rank: "range_rank rb = Some rank"
  shows "set (snd (seekRange idx rb)) = {d. \<exists>row. row_ok row \<and> length row = length (ix_fields idx)
    \<and> in_range rb rank (row_val row) \<and> (encodeIndexKey row, d) \<in> rel idx}" (is "_ = ?R")
proof (intro equalityI subsetI)
  fix d assume "d \<in> set (snd (seekRange idx rb))"
  then obtain e where e: "e \<in> set (ix_ord idx)" "in_range rb rank (fst e)" "d \<in> set (key_ids idx (snd e))"
    by (auto simp: seekRange_eq [OF assms])
  then obtain row where "key_row idx e row" using wf unfolding wf_index_def by blast
  then show "d \<in> ?R" using e by (auto simp: key_row_def rel_def)
next
  fix d assume "d \<in> ?R"
  then obtain row where row: "row_ok row" "in_range rb rank (row_val row)" "(encodeIndexKey row, d) \<in> rel idx"
    by auto
  obtain e row' where e: "e \<in> set (ix_ord idx)" "snd e = encodeIndexKey row" "key_row idx e row'"
    using rel_row [OF wf row(3)] .
  have "ord_key (fst e) = ord_key (row_val row)"
    using row_ord_key [of row' row] e row(1) by (auto simp: key_row_def)
  then have "in_range rb rank (fst e)"
    using in_range_key [OF rb key_row_enc_ok [OF e(3)] enc_ok_row_val [OF row(1)]] row(2) by simp
  then show "d \<in> set (snd (seekRange idx rb))"
    using e row(3) unfolding seekRange_eq [OF assms] by (auto simp: rel_def) (metis prod.collapse)
qed


section \<open>The interface\<close>

interpretation doc_index: document_index wf_index rel ix_unique ix_fields doc_keys rows_ok addDoc removeDoc
  by unfold_locales (rule addDoc_ok, assumption+, rule addDoc_error, rule removeDoc_laws, assumption,
    simp add: rel_unique)

lemmas index_laws = addDoc_ok addDoc_error removeDoc_laws lookupIDs_rel

end
