(* ===== verification/Store_Index.thy ===== *)
theory Store_Index
  imports Store_Cache Index_Laws
begin

text \<open>
  Index maintenance of the store. Documents the size check accepts can be indexed (\<open>storable\<close>).
  \<open>applyIndexes\<close> either brings every index of the collection in line with the new document, or fails
  with \<open>ErrDuplicate\<close> and leaves every index in line with the old one.
\<close>

section \<open>Documents that can be indexed\<close>

definition storable :: "document \<Rightarrow> bool" where
  "storable d \<longleftrightarrow> json_doc d \<noteq> None"

lemma those_None: "those xs = None \<longleftrightarrow> None \<in> set xs"
  by (induction xs) (auto split: option.splits)

definition json_ok :: "jval \<Rightarrow> bool" where
  "json_ok v \<longleftrightarrow> json_enc v \<noteq> None"

lemma json_object_ok:
  "json_object (map (\<lambda>p. (fst p, json_enc (snd p))) m) \<noteq> None \<longleftrightarrow> (\<forall>p \<in> set m. json_ok (snd p))"
proof -
  have "json_object (map (\<lambda>p. (fst p, json_enc (snd p))) m) = None \<longleftrightarrow>
      None \<in> set (map (\<lambda>p. map_option (Pair (fst p)) (json_enc (snd p))) m)"
    by (simp add: json_object_def those_None comp_def)
  also have "\<dots> \<longleftrightarrow> (\<exists>p \<in> set m. json_enc (snd p) = None)" by (auto simp: image_iff)
  finally show ?thesis by (auto simp: json_ok_def)
qed

lemma json_ok_containers:
  "json_ok (JArr xs) \<longleftrightarrow> (\<forall>x \<in> set xs. json_ok x)"
  "json_ok (JDoc m) \<longleftrightarrow> (\<forall>p \<in> set m. json_ok (snd p))"
  "json_ok (JMap m) \<longleftrightarrow> (\<forall>p \<in> set m. json_ok (snd p))"
proof -
  show "json_ok (JArr xs) \<longleftrightarrow> (\<forall>x \<in> set xs. json_ok x)"
    unfolding json_ok_def json_enc.simps option.map_disc_iff those_None by (auto simp: image_iff) (metis option.exhaust)
qed (simp_all only: json_ok_def [of "JDoc _"] json_ok_def [of "JMap _"] json_enc.simps json_object_ok)

lemma storable_iff: "storable d \<longleftrightarrow> (\<forall>p \<in> set d. json_ok (snd p))"
  unfolding storable_def json_doc_def json_ok_def [symmetric] by (rule json_ok_containers)

lemma json_ok_lookup: "map_of m k = Some v \<Longrightarrow> \<forall>p \<in> set m. json_ok (snd p) \<Longrightarrow> json_ok v"
  by (metis map_of_SomeD snd_conv)

lemma lookupParts_ok: "json_ok node \<Longrightarrow> v \<in> set (lookupPartsMulti node ps) \<Longrightarrow> json_ok v"
proof (induction node ps rule: lookupPartsMulti.induct)
  case (2 m p ps)
  then show ?case using json_ok_lookup [of m p] by (cases "map_of m p") (simp_all add: json_ok_containers)
next
  case (3 m p ps)
  then show ?case using json_ok_lookup [of m p] by (cases "map_of m p") (simp_all add: json_ok_containers)
next
  case (4 els p ps)
  then show ?case by (auto simp: json_ok_containers)
qed simp_all

lemma lookup_first_ok:
  assumes "storable doc" and "lookup_first doc f = Some v"
  shows "json_ok v"
proof (cases "CHR ''.'' \<in> set f")
  case True
  then have "v \<in> set (lookupPartsMulti (JDoc doc) (split_on (CHR ''.'') f))"
    using assms(2) by (auto simp: lookup_first_def lookupMulti_def Let_def split: if_splits option.splits list.splits)
  moreover have "json_ok (JDoc doc)" using assms(1) by (simp add: storable_iff json_ok_containers)
  ultimately show ?thesis using lookupParts_ok by blast
next
  case False
  then have "map_of doc f = Some v" using assms(2)
    by (auto simp: lookup_first_def lookupMulti_def split: if_splits option.splits)
  then show ?thesis using assms(1) json_ok_lookup by (simp add: storable_iff)
qed

lemma json_ok_enc_ok: "json_ok v \<Longrightarrow> enc_ok v"
  by (simp add: enc_ok_def json_ok_def)

lemma index_values_ok:
  assumes "storable doc" and "v \<in> set (index_values doc f)"
  shows "enc_ok v"
proof (cases "lookup_first doc f")
  case None
  then show ?thesis using assms(2) by (simp add: index_values_def)
next
  case (Some w)
  have ok: "json_ok w" using lookup_first_ok [OF assms(1) Some] .
  show ?thesis
  proof (cases "\<exists>arr. w = JArr arr")
    case True
    then have "v = JNull \<or> json_ok v" using assms(2) Some ok
      by (auto simp: index_values_def json_ok_containers split: if_splits)
    then show ?thesis using json_ok_enc_ok by auto
  next
    case False
    then have "index_values doc f = [w]" using Some by (cases w) (auto simp: index_values_def)
    then show ?thesis using assms(2) ok by (simp add: json_ok_enc_ok)
  qed
qed

lemma storable_rows_ok:
  assumes "storable doc"
  shows "rows_ok flds doc"
proof -
  have "\<forall>row \<in> set (foldl (\<lambda>rows f. extend_rows rows (index_values doc f)) rows flds). row_ok row"
    if "\<forall>row \<in> set rows. row_ok row" for rows
    using that
  proof (induction flds arbitrary: rows)
    case (Cons f flds)
    have "\<forall>row \<in> set (extend_rows rows (index_values doc f)). row_ok row"
      using Cons.prems index_values_ok [OF assms] by (auto simp: extend_rows_def row_ok_def)
    then show ?case using Cons.IH by simp
  qed simp
  from this [of "[[]]"] show ?thesis by (simp add: rows_ok_def extractIndexRows_def)
qed

lemma checkDocSize_storable: "checkDocSize doc = Inr u \<Longrightarrow> storable doc"
  by (auto simp: checkDocSize_def storable_def split: option.splits)

lemma storable_mput: "storable doc \<Longrightarrow> json_ok v \<Longrightarrow> storable (mput k v doc)"
proof -
  have "set (mput k v doc) \<subseteq> insert (k, v) (set doc)"
    by (induction doc) (auto simp: mput_def)
  then show "storable doc \<Longrightarrow> json_ok v \<Longrightarrow> storable (mput k v doc)" by (auto simp: storable_iff)
qed

section \<open>Indexes in line with the documents\<close>

definition coherent :: "(string \<rightharpoonup> document) \<Rightarrow> index \<Rightarrow> bool" where
  "coherent docs idx \<longleftrightarrow> wf_index idx \<and> rel idx = wanted (doc_keys (ix_fields idx)) docs"

definition same_shape :: "index \<Rightarrow> index \<Rightarrow> bool" where
  "same_shape i j \<longleftrightarrow> ix_fields j = ix_fields i \<and> ix_unique j = ix_unique i"

lemma same_shape_refl [simp]: "same_shape i i"
  by (simp add: same_shape_def)

lemma same_shape_trans: "same_shape i j \<Longrightarrow> same_shape j k \<Longrightarrow> same_shape i k"
  by (simp add: same_shape_def)

lemma coherent_newIndex: "coherent Map.empty (newIndex flds unique)"
  by (simp add: coherent_def)

lemma coherent_remove:
  assumes "coherent docs idx" and "docs did = old"
  shows "coherent (docs(did := None)) (remove_opt old did idx)" and "same_shape idx (remove_opt old did idx)"
proof -
  have w: "wf_index idx" "rel idx = wanted (doc_keys (ix_fields idx)) docs" using assms(1) by (auto simp: coherent_def)
  show "same_shape idx (remove_opt old did idx)"
    using removeDoc_laws [OF w(1)] by (auto simp: remove_opt_def same_shape_def split: option.splits)
  show "coherent (docs(did := None)) (remove_opt old did idx)"
  proof (cases old)
    case None
    then have "docs(did := None) = docs" using assms(2) by auto
    then show ?thesis using assms(1) None by (simp add: remove_opt_def)
  next
    case (Some o')
    then show ?thesis using doc_index.delete_coherent [OF w, of did o'] assms(2)
      by (simp add: coherent_def remove_opt_def)
  qed
qed

lemma coherent_add:
  assumes "coherent docs idx" and "docs did = None" and "storable d" and "addDoc d did idx = Inr j"
  shows "coherent (docs(did \<mapsto> d)) j \<and> same_shape idx j"
proof -
  have w: "wf_index idx" "rel idx = wanted (doc_keys (ix_fields idx)) docs" using assms(1) by (auto simp: coherent_def)
  have r: "rows_ok (ix_fields idx) d" by (rule storable_rows_ok [OF assms(3)])
  show ?thesis
    using doc_index.insert_coherent [OF w assms(2) r assms(4)] addDoc_ok [OF w(1) r assms(4)]
    by (simp add: coherent_def same_shape_def)
qed

lemma coherent_undo:
  assumes "coherent docs idx" and "docs did = None" and "storable d"
  shows "coherent docs (removeDoc d did (add_or_keep d did idx)) \<and> same_shape idx (removeDoc d did (add_or_keep d did idx))"
proof (cases "addDoc d did idx")
  case (Inl e)
  have w: "wf_index idx" "rel idx = wanted (doc_keys (ix_fields idx)) docs" using assms(1) by (auto simp: coherent_def)
  show ?thesis using doc_index.remove_absent [OF w assms(2)] Inl
    by (simp add: coherent_def same_shape_def add_or_keep_def)
next
  case (Inr j)
  note a = coherent_add [OF assms Inr]
  have "(docs(did \<mapsto> d))(did := None) = docs" using assms(2) by auto
  then show ?thesis
    using coherent_remove [OF conjunct1 [OF a], of did "Some d"] a Inr same_shape_trans
    by (auto simp: add_or_keep_def remove_opt_def)
qed

lemma coherent_restore:
  assumes "coherent docs idx" and "docs did = old" and "\<And>o'. old = Some o' \<Longrightarrow> storable o'"
    and "coherent (docs(did := None)) j" and "same_shape idx j"
  shows "coherent docs (restore_opt old did j) \<and> same_shape idx (restore_opt old did j)"
proof (cases old)
  case None
  then have "docs(did := None) = docs" using assms(2) by auto
  then show ?thesis using assms None by (simp add: restore_opt_def)
next
  case (Some o')
  have 1: "docs did = Some o'" using assms(2) Some by simp
  have r: "rows_ok (ix_fields idx) o'" by (rule storable_rows_ok [OF assms(3) [OF Some]])
  obtain j' where "addDoc o' did j = Inr j'" "wf_index j'" "rel j' = wanted (doc_keys (ix_fields idx)) docs"
    "ix_fields j' = ix_fields idx" "ix_unique j' = ix_unique idx"
    by (rule doc_index.put_back [of idx docs did o' j, OF _ 1 r])
      (use assms(1,4,5) in \<open>auto simp: coherent_def same_shape_def\<close>)
  then show ?thesis by (simp add: Some restore_opt_def add_or_keep_def coherent_def same_shape_def)
qed

lemma first_error_None: "first_error rs = None \<longleftrightarrow> (\<forall>r \<in> set rs. \<exists>x. r = Inr x)"
  by (induction rs rule: first_error.induct) auto

lemma first_error_Some: "first_error rs = Some e \<Longrightarrow> Inl e \<in> set rs"
  by (induction rs rule: first_error.induct) auto

text \<open>The whole of \<open>applyIndexes\<close>: all indexes follow the change, or none does.\<close>

lemma applyIndexes_ok:
  assumes coh: "\<forall>idx \<in> set idxs. coherent docs idx" and old: "docs did = old" and new: "storable new"
    and ap: "applyIndexes idxs old new did = (Inr u, idxs')"
  shows "list_all2 same_shape idxs idxs' \<and> (\<forall>idx \<in> set idxs'. coherent (docs(did \<mapsto> new)) idx)"
proof -
  have res: "idxs' = map (add_or_keep new did) (map (remove_opt old did) idxs)"
    "first_error (map (addDoc new did) (map (remove_opt old did) idxs)) = None"
    using ap by (auto simp: applyIndexes_def Let_def split: option.splits)
  have each: "coherent (docs(did \<mapsto> new)) (add_or_keep new did (remove_opt old did idx))
      \<and> same_shape idx (add_or_keep new did (remove_opt old did idx))" if i: "idx \<in> set idxs" for idx
  proof -
    obtain j where j: "addDoc new did (remove_opt old did idx) = Inr j"
      using res(2) i by (force simp: first_error_None)
    have "coherent docs idx" using coh i by blast
    from coherent_add [OF coherent_remove(1) [OF this old] _ new j] coherent_remove(2) [OF this old] j
    show ?thesis by (auto simp: add_or_keep_def intro: same_shape_trans)
  qed
  then show ?thesis unfolding res(1) by (auto simp: list_all2_conv_all_nth)
qed

lemma applyIndexes_error:
  assumes coh: "\<forall>idx \<in> set idxs. coherent docs idx" and old: "docs did = old" and new: "storable new"
    and olds: "\<And>o'. old = Some o' \<Longrightarrow> storable o'"
    and ap: "applyIndexes idxs old new did = (Inl e, idxs')"
  shows "e = ErrDuplicate \<and> list_all2 same_shape idxs idxs' \<and> (\<forall>idx \<in> set idxs'. coherent docs idx)"
proof -
  let ?undo = "\<lambda>idx. restore_opt old did (removeDoc new did (add_or_keep new did (remove_opt old did idx)))"
  have res: "idxs' = map ?undo idxs"
    "first_error (map (addDoc new did) (map (remove_opt old did) idxs)) = Some e"
    using ap by (auto simp: applyIndexes_def Let_def comp_def split: option.splits)
  have each: "coherent docs (?undo idx) \<and> same_shape idx (?undo idx)" if i: "idx \<in> set idxs" for idx
  proof -
    have c: "coherent docs idx" using coh i by blast
    note u = coherent_undo [OF coherent_remove(1) [OF c old] _ new, simplified]
    from coherent_restore [OF c old olds conjunct1 [OF u] same_shape_trans [OF coherent_remove(2) [OF c old] conjunct2 [OF u]]]
    show ?thesis by simp
  qed
  have "e = ErrDuplicate" using first_error_Some [OF res(2)] addDoc_error by fastforce
  then show ?thesis using each unfolding res(1) by (auto simp: list_all2_conv_all_nth)
qed

end
