(* ===== verification/Store_Laws.thy ===== *)
theory Store_Laws
  imports Store_Index
begin

text \<open>
  What the store promises, in terms of the documents it holds: \<open>docs s name\<close> maps ids to documents.
  \<open>store_ok\<close> is the invariant (slots not shared, every stored document present and indexable, every
  index of every collection coherent with the documents). Each mutation either has exactly its
  abstract effect or fails and leaves every document and index entry as it was.
\<close>

section \<open>The documents of a store and its invariant\<close>

definition slot :: "store \<Rightarrow> string \<Rightarrow> string \<Rightarrow> nat option" where
  "slot s name did = (case collRO name s of None \<Rightarrow> None | Some c \<Rightarrow> map_of (c_entries c) did)"

definition docs :: "store \<Rightarrow> string \<Rightarrow> string \<rightharpoonup> document" where
  "docs s name did = (case slot s name did of None \<Rightarrow> None | Some a \<Rightarrow> doc_at s a)"

definition indexes :: "store \<Rightarrow> string \<Rightarrow> index list" where
  "indexes s name = (case collRO name s of None \<Rightarrow> [] | Some c \<Rightarrow> c_indexes c)"

definition store_ok :: "store \<Rightarrow> bool" where
  "store_ok s \<longleftrightarrow> slots_ok s
     \<and> (\<forall>n i a. slot s n i = Some a \<longrightarrow> a < st_next s \<and> (\<exists>d. doc_at s a = Some d \<and> storable d))
     \<and> (\<forall>n i n' i' a. slot s n i = Some a \<longrightarrow> slot s n' i' = Some a \<longrightarrow> n' = n \<and> i' = i)
     \<and> (\<forall>n c. collRO n s = Some c \<longrightarrow> distinct_keys (c_entries c))
     \<and> (\<forall>n idx. idx \<in> set (indexes s n) \<longrightarrow> coherent (docs s n) idx)"

lemma store_okD:
  assumes "store_ok s"
  shows store_ok_slots: "slots_ok s"
    and store_ok_alloc: "slot s n i = Some a \<Longrightarrow> a < st_next s"
    and store_ok_doc: "slot s n i = Some a \<Longrightarrow> \<exists>d. doc_at s a = Some d \<and> storable d"
    and store_ok_inj: "slot s n i = Some a \<Longrightarrow> slot s n' i' = Some a \<Longrightarrow> n' = n \<and> i' = i"
    and store_ok_keys: "collRO n s = Some c \<Longrightarrow> distinct_keys (c_entries c)"
    and store_ok_coherent: "idx \<in> set (indexes s n) \<Longrightarrow> coherent (docs s n) idx"
  using assms unfolding store_ok_def by blast+

lemma docs_storable: "store_ok s \<Longrightarrow> docs s n i = Some d \<Longrightarrow> storable d"
  using store_ok_doc [of s n i] by (auto simp: docs_def split: option.splits)

lemma docs_slot: "store_ok s \<Longrightarrow> docs s n i = None \<longleftrightarrow> slot s n i = None"
  using store_ok_doc [of s n i] by (auto simp: docs_def split: option.splits)

lemma store_ok_new: "store_ok newStore" "docs newStore = (\<lambda>_. Map.empty)"
  by (auto simp: store_ok_def newStore_def slot_def collRO_def indexes_def slots_ok_def newDocEntry_def
      docs_def fun_eq_iff)

lemma slot_cong: "st_collections s' = st_collections s \<Longrightarrow> slot s' n i = slot s n i"
  and indexes_cong: "st_collections s' = st_collections s \<Longrightarrow> indexes s' n = indexes s n"
  and collRO_cong: "st_collections s' = st_collections s \<Longrightarrow> collRO n s' = collRO n s"
  by (simp_all add: slot_def collRO_def indexes_def)

text \<open>Steps that touch neither collections nor documents keep everything.\<close>

lemma store_ok_same:
  assumes "store_ok s" and "st_collections s' = st_collections s" and "\<And>a. doc_at s' a = doc_at s a"
    and "st_next s \<le> st_next s'" and "slots_ok s'"
  shows "store_ok s' \<and> docs s' = docs s"
proof -
  have d: "docs s' = docs s"
    using slot_cong [OF assms(2)] assms(3) by (auto simp: docs_def fun_eq_iff cong: option.case_cong)
  show ?thesis
    using assms(1,4,5) d less_le_trans unfolding store_ok_def d slot_cong [OF assms(2)] indexes_cong [OF assms(2)]
      collRO_cong [OF assms(2)] assms(3) by blast
qed

lemma store_ok_cache: "store_ok s \<Longrightarrow> cache_step s s' \<Longrightarrow> slots_ok s' \<Longrightarrow> store_ok s' \<and> docs s' = docs s"
  by (rule store_ok_same) (simp_all add: cache_stepD)

text \<open>One document set, in a new slot or in its own.\<close>

lemma store_ok_set:
  assumes ok: "store_ok s" and "slots_ok s'" and "st_next s \<le> st_next s'"
    and other: "\<And>n. n \<noteq> name \<Longrightarrow> collRO n s' = collRO n s"
    and slots: "\<And>i. slot s' name i = (if i = did then Some a else slot s name i)"
    and a: "slot s name did = Some a \<or> st_next s \<le> a" "a < st_next s'"
    and heap: "\<And>b. b \<noteq> a \<Longrightarrow> b < st_next s \<Longrightarrow> doc_at s' b = doc_at s b"
    and d: "doc_at s' a = Some d" "storable d"
    and keys: "\<And>c. collRO name s' = Some c \<Longrightarrow> distinct_keys (c_entries c)"
    and idx: "\<And>idx. idx \<in> set (indexes s' name) \<Longrightarrow> coherent ((docs s name)(did \<mapsto> d)) idx"
  shows "store_ok s' \<and> docs s' = (docs s)(name := (docs s name)(did \<mapsto> d))"
proof -
  have sl: "slot s' n i = (if n = name \<and> i = did then Some a else slot s n i)" for n i
    by (cases "n = name") (simp_all add: slots, simp add: slot_def other)
  have a_fresh: "b \<noteq> a" if "slot s n i = Some b" "\<not> (n = name \<and> i = did)" for n i b
    using a(1) that store_ok_inj [OF ok that(1), of name did] store_ok_alloc [OF ok that(1)] by auto
  have da: "doc_at s' b = doc_at s b" if "slot s n i = Some b" "\<not> (n = name \<and> i = did)" for n i b
    using heap [OF a_fresh [OF that] store_ok_alloc [OF ok that(1)]] .
  have docs': "docs s' n i = (if n = name \<and> i = did then Some d else docs s n i)" for n i
    using da [of n i] d(1) by (auto simp: docs_def sl split: option.splits)
  then have docs'': "docs s' = (docs s)(name := (docs s name)(did \<mapsto> d))" by (auto simp: fun_eq_iff)
  have "store_ok s'"
    unfolding store_ok_def
  proof (intro conjI allI impI)
    fix n i b assume s: "slot s' n i = Some b"
    show "b < st_next s'"
      using s a(2) store_ok_alloc [OF ok, of n i b] assms(3) by (auto simp: sl split: if_splits)
    show "\<exists>d. doc_at s' b = Some d \<and> storable d"
    proof (cases "n = name \<and> i = did")
      case True
      then show ?thesis using s d by (simp add: sl)
    next
      case False
      then show ?thesis using s da [of n i b] store_ok_doc [OF ok, of n i b] by (auto simp: sl)
    qed
    fix n' i' assume s': "slot s' n' i' = Some b"
    show "n' = n" "i' = i"
      using s s' a_fresh [of n i b] a_fresh [of n' i' b] store_ok_inj [OF ok, of n i b n' i']
      by (auto simp: sl split: if_splits)
  next
    fix n c assume "collRO n s' = Some c"
    then show "distinct_keys (c_entries c)" using keys other [of n] store_ok_keys [OF ok, of n c] by (cases "n = name") auto
  next
    fix n idx' assume i: "idx' \<in> set (indexes s' n)"
    show "coherent (docs s' n) idx'"
      using i idx other [of n] store_ok_coherent [OF ok, of idx' n] unfolding docs''
      by (cases "n = name") (auto simp: indexes_def [of _ n])
  qed (use assms(2) in simp_all)
  then show ?thesis using docs'' by simp
qed

text \<open>The indexes of one collection replaced, the documents kept.\<close>

lemma store_ok_reindex:
  assumes ok: "store_ok s" and c: "collRO name s = Some c"
    and idx: "\<And>idx. idx \<in> set idxs \<Longrightarrow> coherent (docs s name) idx"
  shows "store_ok (putColl name (c\<lparr>c_indexes := idxs\<rparr>) s) \<and> docs (putColl name (c\<lparr>c_indexes := idxs\<rparr>) s) = docs s"
proof -
  let ?s = "putColl name (c\<lparr>c_indexes := idxs\<rparr>) s"
  have co: "collRO n ?s = (if n = name then Some (c\<lparr>c_indexes := idxs\<rparr>) else collRO n s)" for n
    by (simp add: putColl_def collRO_def)
  have sl: "slot ?s n i = slot s n i" for n i using c by (simp add: slot_def co)
  have da: "doc_at ?s b = doc_at s b" for b by (simp add: doc_at_def putColl_def)
  have docs': "docs ?s = docs s" by (simp add: docs_def sl da fun_eq_iff cong: option.case_cong)
  have ix: "indexes ?s n = (if n = name then idxs else indexes s n)" for n by (simp add: indexes_def co)
  have "store_ok ?s"
    using ok idx c unfolding store_ok_def docs' da sl ix co
    by (auto simp: slots_ok_def putColl_def split: if_splits)
  then show ?thesis using docs' by simp
qed

lemma store_ok_new_coll:
  assumes ok: "store_ok s" and c: "collRO name s = None"
  shows "store_ok (putColl name empty_collection s) \<and> docs (putColl name empty_collection s) = docs s"
proof -
  let ?s = "putColl name empty_collection s"
  have co: "collRO n ?s = (if n = name then Some empty_collection else collRO n s)" for n
    by (simp add: putColl_def collRO_def)
  have sl: "slot ?s n i = slot s n i" for n i
    unfolding slot_def co using c by (simp add: empty_collection_def)
  have da: "doc_at ?s b = doc_at s b" for b by (simp add: doc_at_def putColl_def)
  have docs': "docs ?s = docs s" by (simp add: docs_def sl da fun_eq_iff cong: option.case_cong)
  have ix: "indexes ?s n = indexes s n" for n
    unfolding indexes_def co using c by (simp add: empty_collection_def)
  have "store_ok ?s"
    using ok unfolding store_ok_def docs' da sl ix co
    by (auto simp: slots_ok_def putColl_def empty_collection_def split: if_splits)
  then show ?thesis using docs' by simp
qed

lemma coll_laws:
  assumes ok: "store_ok s" and "coll name s = (c, s1)"
  shows "store_ok s1 \<and> docs s1 = docs s \<and> collRO name s1 = Some c \<and> indexes s1 = indexes s
    \<and> c_indexes c = indexes s name \<and> (\<forall>i. map_of (c_entries c) i = slot s name i)
    \<and> slot s1 = slot s \<and> st_next s1 = st_next s"
proof (cases "collRO name s")
  case None
  then have c: "c = empty_collection" "s1 = putColl name empty_collection s" using assms(2) by (auto simp: coll_def)
  have co: "collRO n s1 = (if n = name then Some empty_collection else collRO n s)" for n
    by (simp add: c putColl_def collRO_def)
  show ?thesis
    using store_ok_new_coll [OF ok None] None
    by (auto simp: co c(1) indexes_def slot_def fun_eq_iff empty_collection_def) (auto simp: c putColl_def empty_collection_def)
next
  case (Some c')
  then show ?thesis using assms by (auto simp: coll_def indexes_def slot_def)
qed


section \<open>Marks\<close>

lemma markDirty_frame [simp]:
  "st_collections (markDirty s) = st_collections s" "st_heap (markDirty s) = st_heap s"
  "st_path (markDirty s) = st_path s" "st_disk (markDirty s) = st_disk s" "st_next (markDirty s) = st_next s"
  "st_noEvict (markDirty s) = st_noEvict s" "st_cache (markDirty s) = st_cache s" "st_opts (markDirty s) = st_opts s"
  "st_sessions (markDirty s) = st_sessions s" "st_now (markDirty s) = st_now s" "st_hooks (markDirty s) = st_hooks s"
  by (simp_all add: markDirty_def)

lemma markEntryMutated_frame [simp]:
  "st_collections (markEntryMutated a s) = st_collections s"
  "st_heap (markEntryMutated a s) = (st_heap s)(a := (st_heap s a)\<lparr>e_dirty := True, e_mutGen := st_dirtyGen (markDirty s)\<rparr>)"
  "st_path (markEntryMutated a s) = st_path s" "st_disk (markEntryMutated a s) = st_disk s"
  "st_next (markEntryMutated a s) = st_next s" "st_noEvict (markEntryMutated a s) = st_noEvict s"
  "st_cache (markEntryMutated a s) = st_cache s" "st_opts (markEntryMutated a s) = st_opts s"
  by (simp_all add: markEntryMutated_def Let_def put_entry_def)

lemma putColl_frame [simp]:
  "st_heap (putColl n c s) = st_heap s" "st_path (putColl n c s) = st_path s" "st_disk (putColl n c s) = st_disk s"
  "st_next (putColl n c s) = st_next s" "st_noEvict (putColl n c s) = st_noEvict s"
  "st_dirtyGen (putColl n c s) = st_dirtyGen s" "st_cache (putColl n c s) = st_cache s"
  "st_collections (putColl n c s) = mput n c (st_collections s)"
  by (simp_all add: putColl_def)

lemma put_entry_frame [simp]:
  "st_collections (put_entry a e s) = st_collections s" "st_heap (put_entry a e s) = (st_heap s)(a := e)"
  "st_path (put_entry a e s) = st_path s" "st_disk (put_entry a e s) = st_disk s"
  "st_next (put_entry a e s) = st_next s" "st_noEvict (put_entry a e s) = st_noEvict s"
  by (simp_all add: put_entry_def)

lemma collRO_putColl [simp]: "collRO n (putColl m c s) = (if n = m then Some c else collRO n s)"
  by (simp add: collRO_def)

lemma note_ok: "store_ok s \<Longrightarrow> store_ok (noteEdgeMutation name s) \<and> docs (noteEdgeMutation name s) = docs s"
  by (rule store_ok_same) (simp_all add: noteEdgeMutation_def doc_at_def slots_ok_def store_ok_def)

lemma markDirty_ok: "store_ok s \<Longrightarrow> store_ok (markDirty s) \<and> docs (markDirty s) = docs s"
  by (rule store_ok_same) (simp_all add: doc_at_def slots_ok_def store_ok_def)

lemma admit_ok: "store_ok s \<Longrightarrow> store_ok (cacheAdmit a s) \<and> docs (cacheAdmit a s) = docs s"
  using cacheAdmit_step [of s a] store_ok_cache [of s "cacheAdmit a s"] store_ok_slots by blast

lemma slots_ok_dirty:
  "slots_ok s \<Longrightarrow> st_heap s' = (st_heap s)(a := e) \<Longrightarrow> e_dirty e \<Longrightarrow> st_path s' = st_path s \<Longrightarrow>
    st_disk s' = st_disk s \<Longrightarrow> st_noEvict s' = st_noEvict s \<Longrightarrow> slots_ok s'"
  by (simp add: slots_ok_def)

text \<open>A new document enters the collection.\<close>

lemma store_new_entry_ok:
  assumes ok: "store_ok s" and c: "collRO name s = Some c" and new: "slot s name did = None"
    and d: "storable d" and idx: "\<forall>idx \<in> set idxs. coherent ((docs s name)(did \<mapsto> d)) idx"
  shows "store_ok (store_new_entry name c idxs did d s)
    \<and> docs (store_new_entry name c idxs did d s) = (docs s)(name := (docs s name)(did \<mapsto> d))"
proof -
  define a where "a = st_next s"
  define s1 where "s1 = snd (alloc (newDocEntry (Some d)) s)"
  define s3 where "s3 = putColl name (c\<lparr>c_entries := mput did a (c_entries c), c_indexes := idxs\<rparr>) (markEntryMutated a s1)"
  have out: "store_new_entry name c idxs did d s = cacheAdmit a s3"
    by (simp add: store_new_entry_def alloc_def a_def s1_def s3_def Let_def)
  have s1: "st_heap s1 = (st_heap s)(a := newDocEntry (Some d))" "st_next s1 = Suc a" "st_path s1 = st_path s"
    "st_disk s1 = st_disk s" "st_noEvict s1 = st_noEvict s" "st_collections s1 = st_collections s"
    by (simp_all add: s1_def alloc_def a_def)
  have heap: "st_heap s3 = (st_heap s)(a := (newDocEntry (Some d))\<lparr>e_dirty := True, e_mutGen := st_dirtyGen (markDirty s1)\<rparr>)"
    by (simp add: s3_def s1)
  have co: "collRO n s3 = (if n = name then Some (c\<lparr>c_entries := mput did a (c_entries c), c_indexes := idxs\<rparr>) else collRO n s)" for n
    by (simp add: s3_def collRO_def s1)
  have "store_ok s3 \<and> docs s3 = (docs s)(name := (docs s name)(did \<mapsto> d))"
  proof (rule store_ok_set [OF ok, where a = a])
    show "slots_ok s3"
      by (rule slots_ok_dirty [OF store_ok_slots [OF ok] heap]) (simp_all add: s3_def s1)
    show "st_next s \<le> st_next s3" "a < st_next s3" "slot s name did = Some a \<or> st_next s \<le> a"
      by (simp_all add: s3_def s1 a_def)
    show "collRO n s3 = collRO n s" if "n \<noteq> name" for n using that by (simp add: co)
    show "slot s3 name i = (if i = did then Some a else slot s name i)" for i
      using c by (simp add: slot_def co)
    show "doc_at s3 b = doc_at s b" if "b \<noteq> a" for b using that heap by (simp add: doc_at_def s3_def s1)
    show "doc_at s3 a = Some d" by (simp add: doc_at_def heap slot_doc_def newDocEntry_def)
    show "distinct_keys (c_entries c')" if "collRO name s3 = Some c'" for c'
      using that store_ok_keys [OF ok c] by (auto simp: co)
    show "coherent ((docs s name)(did \<mapsto> d)) ix" if "ix \<in> set (indexes s3 name)" for ix
      using that idx by (simp add: indexes_def co)
  qed (rule d)
  then show ?thesis unfolding out using admit_ok by auto
qed

text \<open>A document is replaced in its slot.\<close>

lemma replace_ok:
  assumes ok: "store_ok s" and c: "collRO name s = Some c" and a: "slot s name did = Some a"
    and d: "storable d" and idx: "\<forall>idx \<in> set idxs. coherent ((docs s name)(did \<mapsto> d)) idx"
    and s': "s' = markEntryMutated a (put_entry a ((st_heap s a)\<lparr>e_docP := Some d\<rparr>) (putColl name (c\<lparr>c_indexes := idxs\<rparr>) s))"
  shows "store_ok s' \<and> docs s' = (docs s)(name := (docs s name)(did \<mapsto> d))"
proof (rule store_ok_set [OF ok, where a = a])
  have heap: "st_heap s' = (st_heap s)(a := (st_heap s a)\<lparr>e_docP := Some d, e_dirty := True, e_mutGen := e_mutGen (st_heap s' a)\<rparr>)"
    by (simp add: s' fun_eq_iff)
  have co: "collRO n s' = (if n = name then Some (c\<lparr>c_indexes := idxs\<rparr>) else collRO n s)" for n
    by (simp add: s' collRO_def)
  show "slots_ok s'"
    by (rule slots_ok_dirty [OF store_ok_slots [OF ok] heap]) (simp_all add: s')
  show "st_next s \<le> st_next s'" "a < st_next s'" "slot s name did = Some a \<or> st_next s \<le> a"
    using store_ok_alloc [OF ok a] a by (simp_all add: s')
  show "collRO n s' = collRO n s" if "n \<noteq> name" for n using that by (simp add: co)
  show "slot s' name i = (if i = did then Some a else slot s name i)" for i
    using c a by (auto simp: slot_def co)
  show "doc_at s' b = doc_at s b" if "b \<noteq> a" for b using that by (simp add: doc_at_def s')
  show "doc_at s' a = Some d" by (simp add: doc_at_def s' slot_doc_def)
  show "distinct_keys (c_entries c')" if "collRO name s' = Some c'" for c'
    using that store_ok_keys [OF ok c] by (auto simp: co)
  show "coherent ((docs s name)(did \<mapsto> d)) ix" if "ix \<in> set (indexes s' name)" for ix
    using that idx by (simp add: indexes_def co)
qed (rule d)

section \<open>When a unique index stands in the way\<close>

definition unique_conflict :: "index list \<Rightarrow> (string \<rightharpoonup> document) \<Rightarrow> string \<Rightarrow> document \<Rightarrow> bool" where
  "unique_conflict idxs ds did d \<longleftrightarrow>
     (\<exists>idx \<in> set idxs. ix_unique idx
        \<and> (\<exists>y d'. y \<noteq> did \<and> ds y = Some d' \<and> doc_keys (ix_fields idx) d \<inter> doc_keys (ix_fields idx) d' \<noteq> {}))"

lemma addDoc_conflict:
  assumes "coherent ds idx" and "old = ds did"
  shows "(\<exists>e. addDoc d did (remove_opt old did idx) = Inl e) \<longleftrightarrow> unique_conflict [idx] ds did d"
proof -
  let ?i = "remove_opt old did idx"
  have r: "rel ?i = wanted (doc_keys (ix_fields ?i)) (ds(did := None))" "same_shape idx ?i"
    using coherent_remove [OF assms(1), of did old] assms(2) by (auto simp: coherent_def)
  have "(k, y) \<in> rel ?i \<longleftrightarrow> y \<noteq> did \<and> (\<exists>d'. ds y = Some d' \<and> k \<in> doc_keys (ix_fields idx) d')" for k y
    using r by (auto simp: wanted_def same_shape_def split: if_splits)
  then show ?thesis using r(2) unfolding addDoc_error unique_conflict_def same_shape_def by auto
qed

lemma applyIndexes_conflict:
  assumes "\<forall>idx \<in> set idxs. coherent ds idx" and "old = ds did"
  shows "fst (applyIndexes idxs old d did) = Inr () \<longleftrightarrow> \<not> unique_conflict idxs ds did d"
proof -
  have "fst (applyIndexes idxs old d did) = Inr () \<longleftrightarrow>
      first_error (map (addDoc d did) (map (remove_opt old did) idxs)) = None"
    by (simp add: applyIndexes_def Let_def split: option.splits)
  also have "\<dots> \<longleftrightarrow> (\<forall>idx \<in> set idxs. \<not> (\<exists>e. addDoc d did (remove_opt old did idx) = Inl e))"
    by (auto simp: first_error_None) (metis obj_sumE)
  also have "\<dots> \<longleftrightarrow> (\<forall>idx \<in> set idxs. \<not> unique_conflict [idx] ds did d)"
    using addDoc_conflict [of ds _ old did d] assms by simp
  also have "\<dots> \<longleftrightarrow> \<not> unique_conflict idxs ds did d" by (auto simp: unique_conflict_def)
  finally show ?thesis .
qed


section \<open>The mutations\<close>

text \<open>One document changed in the abstract.\<close>

definition set_doc :: "string \<Rightarrow> string \<Rightarrow> document option \<Rightarrow> (string \<Rightarrow> string \<rightharpoonup> document) \<Rightarrow> string \<Rightarrow> string \<rightharpoonup> document" where
  "set_doc name did d ds = ds(name := (ds name)(did := d))"

lemma insertBody_spec:
  assumes ok: "store_ok s" and d: "storable doc" and run: "insertBody name did doc s = (r, s')"
  shows "store_ok s'" and "docs s name did \<noteq> None \<or> unique_conflict (indexes s name) (docs s name) did doc \<Longrightarrow>
      r = Inl ErrDuplicate \<and> docs s' = docs s"
    and "docs s name did = None \<Longrightarrow> \<not> unique_conflict (indexes s name) (docs s name) did doc \<Longrightarrow>
      r = Inr () \<and> docs s' = set_doc name did (Some doc) (docs s)"
proof -
  obtain c s1 where cs: "coll name s = (c, s1)" by fastforce
  note co = coll_laws [OF ok cs]
  have coh: "\<forall>idx \<in> set (c_indexes c). coherent (docs s1 name) idx"
    using co store_ok_coherent [of s1 _ name] by (simp add: indexes_def)
  have "store_ok s' \<and> (if docs s name did \<noteq> None \<or> unique_conflict (indexes s name) (docs s name) did doc
      then r = Inl ErrDuplicate \<and> docs s' = docs s
      else r = Inr () \<and> docs s' = set_doc name did (Some doc) (docs s))"
  proof (cases "docs s name did")
    case (Some d0)
    then have "map_of (c_entries c) did \<noteq> None" using co docs_slot [OF ok, of name did] by auto
    then show ?thesis using run cs co Some by (auto simp: insertBody_def)
  next
    case None
    then have sl: "slot s name did = None" using docs_slot [OF ok] by blast
    obtain r1 idxs where ap: "applyIndexes (c_indexes c) None doc did = (r1, idxs)" by fastforce
    note conf = applyIndexes_conflict [of "c_indexes c" "docs s1 name" None did doc, OF coh]
    show ?thesis
    proof (cases r1)
      case (Inl e)
      have e: "e = ErrDuplicate" "\<forall>idx \<in> set idxs. coherent (docs s1 name) idx"
        using applyIndexes_error [OF coh _ d _ ap [unfolded Inl]] None co by auto
      have "unique_conflict (indexes s name) (docs s name) did doc" using conf ap Inl None co by simp
      moreover have "r = Inl ErrDuplicate \<and> s' = putColl name (c\<lparr>c_indexes := idxs\<rparr>) s1"
        using run cs co sl ap Inl e by (simp add: insertBody_def)
      ultimately show ?thesis using store_ok_reindex [of s1 name c idxs] co e(2) by simp
    next
      case (Inr u)
      have "\<forall>idx \<in> set idxs. coherent ((docs s1 name)(did \<mapsto> doc)) idx"
        using applyIndexes_ok [OF coh _ d ap [unfolded Inr]] None co by simp
      note st = store_new_entry_ok [of s1 name c did doc idxs, OF _ _ _ d this]
      have "\<not> unique_conflict (indexes s name) (docs s name) did doc" using conf ap Inr None co by simp
      moreover have "r = Inr () \<and> s' = noteEdgeMutation name (store_new_entry name c idxs did doc s1)"
        using run cs co sl ap Inr by (simp add: insertBody_def)
      ultimately show ?thesis using st note_ok co sl None by (simp add: set_doc_def)
    qed
  qed
  then show "store_ok s'" "docs s name did \<noteq> None \<or> unique_conflict (indexes s name) (docs s name) did doc \<Longrightarrow>
      r = Inl ErrDuplicate \<and> docs s' = docs s"
    "docs s name did = None \<Longrightarrow> \<not> unique_conflict (indexes s name) (docs s name) did doc \<Longrightarrow>
      r = Inr () \<and> docs s' = set_doc name did (Some doc) (docs s)"
    by (auto split: if_splits)
qed

text \<open>Loading the document of a slot that exists.\<close>

lemma resident_ok:
  assumes ok: "store_ok s" and c: "collRO name s = Some c" and a: "slot s name did = Some a"
  obtains d s1 where "resident c did s = (Inr d, s1)" and "loadEntry a s = (Inr d, s1)" and "docs s name did = Some d"
    and "cache_step s s1" and "store_ok s1" and "docs s1 = docs s"
proof -
  obtain d where d: "doc_at s a = Some d" using store_ok_doc [OF ok a] by blast
  obtain r s1 where l: "loadEntry a s = (r, s1)" by fastforce
  note st = loadEntry_step [OF store_ok_slots [OF ok] l]
  have r: "r = Inr d" using st(3,4) d by (cases r) auto
  have "map_of (c_entries c) did = Some a" using a c by (simp add: slot_def)
  moreover have "docs s name did = Some d" using a d by (simp add: docs_def)
  ultimately show ?thesis
    using that [of d s1] l r st store_ok_cache [OF ok st(1,2)] by (simp add: resident_def)
qed

lemma upsertBody_spec:
  assumes ok: "store_ok s" and d: "storable doc" and run: "upsertBody name did doc s = (r, s')"
  defines "stored \<equiv> mput ''_id'' (JStr did) doc"
  shows "store_ok s'" and "unique_conflict (indexes s name) (docs s name) did stored \<Longrightarrow>
      r = Inl ErrDuplicate \<and> docs s' = docs s"
    and "\<not> unique_conflict (indexes s name) (docs s name) did stored \<Longrightarrow>
      r = Inr () \<and> docs s' = set_doc name did (Some stored) (docs s)"
proof -
  have d': "storable stored" unfolding stored_def by (rule storable_mput [OF d]) (simp add: json_ok_def)
  obtain c s1 where cs: "coll name s = (c, s1)" by fastforce
  note co = coll_laws [OF ok cs]
  obtain old s2 where os: "upsert_old c did s1 = (old, s2)" by fastforce
  have s2: "old = docs s1 name did \<and> store_ok s2 \<and> docs s2 = docs s1 \<and> st_collections s2 = st_collections s1"
  proof (cases "slot s1 name did")
    case None
    then show ?thesis using os co by (auto simp: upsert_old_def docs_def)
  next
    case (Some a)
    obtain d0 s2' where "resident c did s1 = (Inr d0, s2')" "docs s1 name did = Some d0" "cache_step s1 s2'"
      "store_ok s2'" "docs s2' = docs s1"
      by (rule resident_ok [of s1 name c did a]) (use co Some in simp_all)
    then show ?thesis using os co Some by (auto simp: upsert_old_def cache_stepD)
  qed
  have c2: "collRO name s2 = Some c" "slot s2 = slot s1" using s2 co by (auto simp: collRO_def slot_def fun_eq_iff)
  have coh: "\<forall>idx \<in> set (c_indexes c). coherent (docs s1 name) idx"
    using co store_ok_coherent [of s1 _ name] by (simp add: indexes_def)
  obtain r1 idxs where ap: "applyIndexes (c_indexes c) old stored did = (r1, idxs)" by fastforce
  have conf: "fst (applyIndexes (c_indexes c) old stored did) = Inr () \<longleftrightarrow> \<not> unique_conflict (indexes s name) (docs s name) did stored"
    using applyIndexes_conflict [OF coh, of old did stored] s2 co by simp
  have "store_ok s' \<and> (if unique_conflict (indexes s name) (docs s name) did stored
      then r = Inl ErrDuplicate \<and> docs s' = docs s
      else r = Inr () \<and> docs s' = set_doc name did (Some stored) (docs s))"
  proof (cases r1)
    case (Inl e)
    have e: "e = ErrDuplicate" "\<forall>idx \<in> set idxs. coherent (docs s1 name) idx"
      using applyIndexes_error [OF coh _ d' _ ap [unfolded Inl]] s2 docs_storable [of s1 name did] co by auto
    have "unique_conflict (indexes s name) (docs s name) did stored" using conf ap Inl by simp
    moreover have "r = Inl ErrDuplicate \<and> s' = putColl name (c\<lparr>c_indexes := idxs\<rparr>) s2"
      using run cs os ap Inl e by (simp add: upsertBody_def stored_def)
    ultimately show ?thesis using store_ok_reindex [of s2 name c idxs] c2 s2 co e(2) by simp
  next
    case (Inr u)
    have new: "\<forall>idx \<in> set idxs. coherent ((docs s2 name)(did \<mapsto> stored)) idx"
      using applyIndexes_ok [OF coh _ d' ap [unfolded Inr]] s2 by simp
    have nc: "\<not> unique_conflict (indexes s name) (docs s name) did stored" using conf ap Inr by simp
    show ?thesis
    proof (cases "slot s2 name did")
      case None
      then have "r = Inr () \<and> s' = noteEdgeMutation name (store_new_entry name c idxs did stored s2)"
        using run cs os ap Inr co c2 by (simp add: upsertBody_def stored_def)
      then show ?thesis using store_new_entry_ok [OF _ c2(1) None d' new] note_ok nc s2 co by (simp add: set_doc_def)
    next
      case (Some a)
      let ?m = "markEntryMutated a (put_entry a ((st_heap s2 a)\<lparr>e_docP := Some stored\<rparr>) (putColl name (c\<lparr>c_indexes := idxs\<rparr>) s2))"
      have "r = Inr () \<and> s' = noteEdgeMutation name (cacheAdmit a ?m)"
        using run cs os ap Inr co c2 Some by (simp add: upsertBody_def stored_def)
      then show ?thesis
        using replace_ok [OF _ c2(1) Some d' new refl] admit_ok [of ?m a] note_ok nc s2 co by (simp add: set_doc_def)
    qed
  qed
  then show "store_ok s'" "unique_conflict (indexes s name) (docs s name) did stored \<Longrightarrow>
      r = Inl ErrDuplicate \<and> docs s' = docs s"
    "\<not> unique_conflict (indexes s name) (docs s name) did stored \<Longrightarrow>
      r = Inr () \<and> docs s' = set_doc name did (Some stored) (docs s)"
    by (auto split: if_splits)
qed


lemma updateBody_spec:
  assumes ok: "store_ok s" and run: "updateBody name did patch remove s = (r, s')"
  shows "store_ok s'" and "docs s name did = None \<Longrightarrow> r = Inl ErrNotFound \<and> docs s' = docs s"
    and "docs s name did = Some old \<Longrightarrow> nxt = remove_fields (merge_patch old patch) remove \<Longrightarrow>
      (case checkDocSize nxt of
         Inl e \<Rightarrow> r = Inl e \<and> docs s' = docs s
       | Inr _ \<Rightarrow> if unique_conflict (indexes s name) (docs s name) did nxt
                 then r = Inl ErrDuplicate \<and> docs s' = docs s
                 else r = Inr () \<and> docs s' = set_doc name did (Some nxt) (docs s))"
proof -
  have "store_ok s' \<and> (case docs s name did of None \<Rightarrow> r = Inl ErrNotFound \<and> docs s' = docs s
    | Some old \<Rightarrow> let nxt = remove_fields (merge_patch old patch) remove in
      (case checkDocSize nxt of
         Inl e \<Rightarrow> r = Inl e \<and> docs s' = docs s
       | Inr _ \<Rightarrow> if unique_conflict (indexes s name) (docs s name) did nxt
                 then r = Inl ErrDuplicate \<and> docs s' = docs s
                 else r = Inr () \<and> docs s' = set_doc name did (Some nxt) (docs s)))"
  proof (cases "slot s name did")
    case None
    then have "r = Inl ErrNotFound \<and> s' = s"
      using run by (auto simp: updateBody_def slot_def split: option.splits)
    then show ?thesis using None ok by (simp add: docs_def)
  next
    case (Some a)
    then obtain c where c: "collRO name s = Some c" "map_of (c_entries c) did = Some a"
      by (auto simp: slot_def split: option.splits)
    obtain doc s1 where l: "resident c did s = (Inr doc, s1)" "docs s name did = Some doc" "cache_step s s1"
      "store_ok s1" "docs s1 = docs s"
      by (rule resident_ok [OF ok c(1) Some])
    define nxt where "nxt = remove_fields (merge_patch doc patch) remove"
    have c1: "collRO name s1 = Some c" "slot s1 name did = Some a"
      using c by (simp_all add: collRO_def slot_def cache_stepD [OF l(3)])
    show ?thesis
    proof (cases "checkDocSize nxt")
      case (Inl e)
      then have "r = Inl e \<and> s' = s1" using run c l(1) by (simp add: updateBody_def nxt_def)
      then show ?thesis using l Inl by (simp add: nxt_def)
    next
      case (Inr u)
      note d = checkDocSize_storable [OF Inr]
      have coh: "\<forall>idx \<in> set (c_indexes c). coherent (docs s1 name) idx"
        using store_ok_coherent [OF l(4), of _ name] c1 by (simp add: indexes_def)
      have ds: "docs s1 name did = Some doc" "storable doc" using l docs_storable [OF ok, of name did] by auto
      obtain r1 idxs where ap: "applyIndexes (c_indexes c) (Some doc) nxt did = (r1, idxs)" by fastforce
      have conf: "fst (applyIndexes (c_indexes c) (Some doc) nxt did) = Inr () \<longleftrightarrow>
          \<not> unique_conflict (indexes s name) (docs s name) did nxt"
        using applyIndexes_conflict [OF coh, of "Some doc" did nxt] ds c l(5) by (simp add: indexes_def)
      show ?thesis
      proof (cases r1)
        case I: (Inl e)
        have e: "e = ErrDuplicate" "\<forall>idx \<in> set idxs. coherent (docs s1 name) idx"
          using applyIndexes_error [OF coh ds(1) d _ ap [unfolded I]] ds by auto
        have "r = Inl ErrDuplicate \<and> s' = putColl name (c\<lparr>c_indexes := idxs\<rparr>) s1"
          using run c l(1) Inr ap I e by (simp add: updateBody_def nxt_def)
        moreover have "unique_conflict (indexes s name) (docs s name) did nxt" using conf ap I by simp
        ultimately show ?thesis
          using store_ok_reindex [OF l(4) c1(1), of idxs] e(2) l Inr by (simp add: nxt_def)
      next
        case R: (Inr u')
        have new: "\<forall>idx \<in> set idxs. coherent ((docs s1 name)(did \<mapsto> nxt)) idx"
          using applyIndexes_ok [OF coh ds(1) d ap [unfolded R]] by simp
        have "r = Inr () \<and> s' = noteEdgeMutation name (markEntryMutated a (put_entry a ((st_heap s1 a)\<lparr>e_docP := Some nxt\<rparr>)
            (putColl name (c\<lparr>c_indexes := idxs\<rparr>) s1)))"
          using run c l(1) Inr ap R by (simp add: updateBody_def nxt_def)
        moreover have "\<not> unique_conflict (indexes s name) (docs s name) did nxt" using conf ap R by simp
        ultimately show ?thesis
          using replace_ok [OF l(4) c1 d new refl] note_ok l Inr by (simp add: nxt_def set_doc_def)
      qed
    qed
  qed
  then show "store_ok s'" "docs s name did = None \<Longrightarrow> r = Inl ErrNotFound \<and> docs s' = docs s"
    "docs s name did = Some old \<Longrightarrow> nxt = remove_fields (merge_patch old patch) remove \<Longrightarrow>
      (case checkDocSize nxt of
         Inl e \<Rightarrow> r = Inl e \<and> docs s' = docs s
       | Inr _ \<Rightarrow> if unique_conflict (indexes s name) (docs s name) did nxt
                 then r = Inl ErrDuplicate \<and> docs s' = docs s
                 else r = Inr () \<and> docs s' = set_doc name did (Some nxt) (docs s))"
    by (simp_all add: Let_def split: sum.splits)
qed

text \<open>
  Deleting evicts the slot without asking whether eviction is allowed; the slot leaves the
  collection at the same time, so only its own document may be lost.
\<close>

lemma evictEntry_frame [simp]:
  "st_collections (evictEntryLocked a s) = st_collections s" "st_path (evictEntryLocked a s) = st_path s"
  "st_disk (evictEntryLocked a s) = st_disk s" "st_next (evictEntryLocked a s) = st_next s"
  "st_noEvict (evictEntryLocked a s) = st_noEvict s"
  "b \<noteq> a \<Longrightarrow> st_heap (evictEntryLocked a s) b = st_heap s b"
  by (simp_all add: evictEntryLocked_def Let_def less_resident_def put_entry_def)

lemma evictEntry_slots: "slots_ok s \<Longrightarrow> slots_ok (evictEntryLocked a s)"
  by (auto simp: slots_ok_def evictEntryLocked_def Let_def less_resident_def put_entry_def)

lemma store_ok_delete:
  assumes ok: "store_ok s" and "slots_ok s'" and "st_next s \<le> st_next s'"
    and other: "\<And>n. n \<noteq> name \<Longrightarrow> collRO n s' = collRO n s"
    and slots: "\<And>i. slot s' name i = (if i = did then None else slot s name i)"
    and a: "slot s name did = Some a" and heap: "\<And>b. b \<noteq> a \<Longrightarrow> doc_at s' b = doc_at s b"
    and keys: "\<And>c. collRO name s' = Some c \<Longrightarrow> distinct_keys (c_entries c)"
    and idx: "\<And>idx. idx \<in> set (indexes s' name) \<Longrightarrow> coherent ((docs s name)(did := None)) idx"
  shows "store_ok s' \<and> docs s' = (docs s)(name := (docs s name)(did := None))"
proof -
  have sl: "slot s' n i = (if n = name \<and> i = did then None else slot s n i)" for n i
    by (cases "n = name") (simp_all add: slots, simp add: slot_def other)
  have live: "doc_at s' b = doc_at s b" if "slot s' n i = Some b" for n i b
  proof -
    have "slot s n i = Some b" "\<not> (n = name \<and> i = did)" using that by (simp_all add: sl split: if_splits)
    then have "b \<noteq> a" using store_ok_inj [OF ok a, of n i] by auto
    then show ?thesis by (rule heap)
  qed
  have docs'': "docs s' = (docs s)(name := (docs s name)(did := None))"
  proof (intro ext)
    fix n i
    show "docs s' n i = ((docs s)(name := (docs s name)(did := None))) n i"
      using live [of n i] by (cases "slot s' n i") (auto simp: docs_def sl split: if_splits)
  qed
  have "store_ok s'"
    unfolding store_ok_def
  proof (intro conjI allI impI)
    fix n i b assume s: "slot s' n i = Some b"
    then have s0: "slot s n i = Some b" by (simp add: sl split: if_splits)
    show "b < st_next s'" using store_ok_alloc [OF ok s0] assms(3) by simp
    show "\<exists>d. doc_at s' b = Some d \<and> storable d" using store_ok_doc [OF ok s0] live [OF s] by simp
    fix n' i' assume "slot s' n' i' = Some b"
    then have "slot s n' i' = Some b" by (simp add: sl split: if_splits)
    then show "n' = n" "i' = i" using store_ok_inj [OF ok s0] by auto
  next
    fix n c assume "collRO n s' = Some c"
    then show "distinct_keys (c_entries c)" using keys other [of n] store_ok_keys [OF ok, of n c] by (cases "n = name") auto
  next
    fix n idx' assume i: "idx' \<in> set (indexes s' n)"
    show "coherent (docs s' n) idx'"
      using i idx other [of n] store_ok_coherent [OF ok, of idx' n] unfolding docs''
      by (cases "n = name") (auto simp: indexes_def [of _ n])
  qed (use assms(2) in simp_all)
  then show ?thesis using docs'' by simp
qed

lemma deleteBody_spec:
  assumes ok: "store_ok s" and run: "deleteBody name did s = (r, s')"
  shows "store_ok s'" and "docs s name did = None \<Longrightarrow> r = Inl ErrNotFound \<and> s' = s"
    and "docs s name did \<noteq> None \<Longrightarrow> r = Inr () \<and> docs s' = set_doc name did None (docs s)"
proof -
  have "store_ok s' \<and> (if docs s name did = None then r = Inl ErrNotFound \<and> s' = s
      else r = Inr () \<and> docs s' = set_doc name did None (docs s))"
  proof (cases "slot s name did")
    case None
    then have "r = Inl ErrNotFound \<and> s' = s"
      using run by (auto simp: deleteBody_def slot_def split: option.splits)
    then show ?thesis using None ok by (simp add: docs_def)
  next
    case (Some a)
    then obtain c where c: "collRO name s = Some c" "map_of (c_entries c) did = Some a"
      by (auto simp: slot_def split: option.splits)
    obtain doc s1 where l: "loadEntry a s = (Inr doc, s1)" "docs s name did = Some doc" "cache_step s s1"
      "store_ok s1" "docs s1 = docs s"
      by (rule resident_ok [OF ok c(1) Some])
    have c1: "collRO name s1 = Some c" "slot s1 name did = Some a"
      using c by (simp_all add: collRO_def slot_def cache_stepD [OF l(3)])
    define s2 where "s2 = (if a \<in> set (st_cache s1) then evictEntryLocked a s1 else s1)"
    define s3 where "s3 = putColl name (c\<lparr>c_entries := mdel did (c_entries c), c_indexes := map (removeDoc doc did) (c_indexes c)\<rparr>) s2"
    have s2: "st_collections s2 = st_collections s1" "st_path s2 = st_path s1" "st_disk s2 = st_disk s1"
      "st_next s2 = st_next s1" "slots_ok s2" "\<And>b. b \<noteq> a \<Longrightarrow> st_heap s2 b = st_heap s1 b"
      using store_ok_slots [OF l(4)] by (simp_all add: s2_def evictEntry_slots)
    have co: "collRO n s3 = (if n = name then Some (c\<lparr>c_entries := mdel did (c_entries c),
        c_indexes := map (removeDoc doc did) (c_indexes c)\<rparr>) else collRO n s1)" for n
      by (simp add: s3_def collRO_def s2)
    have s3: "store_ok s3 \<and> docs s3 = (docs s1)(name := (docs s1 name)(did := None))"
    proof (rule store_ok_delete [OF l(4), where a = a])
      show "slots_ok s3" using s2(5) by (simp add: s3_def slots_ok_def)
      show "slot s3 name i = (if i = did then None else slot s1 name i)" for i
        using c1 by (simp add: slot_def co)
      show "doc_at s3 b = doc_at s1 b" if "b \<noteq> a" for b
        using s2(6) [OF that] by (simp add: doc_at_def s3_def s2)
      show "coherent ((docs s1 name)(did := None)) ix" if ix: "ix \<in> set (indexes s3 name)" for ix
      proof -
        obtain i where i: "i \<in> set (c_indexes c)" "ix = removeDoc doc did i" using ix by (auto simp: indexes_def co)
        have "coherent (docs s1 name) i" using store_ok_coherent [OF l(4), of i name] i(1) c1 by (simp add: indexes_def)
        from coherent_remove(1) [OF this, of did "Some doc"] show ?thesis using l i(2) by (simp add: remove_opt_def)
      qed
      show "distinct_keys (c_entries c')" if "collRO name s3 = Some c'" for c'
        using that store_ok_keys [OF l(4) c1(1)] by (auto simp: co)
    qed (use c1 s2(1) in \<open>simp_all add: s3_def s2(4) collRO_def\<close>)
    define s4 where "s4 = noteEdgeMutation name (markDirty s3)"
    have s4: "store_ok s4 \<and> docs s4 = docs s3" using s3 markDirty_ok [of s3] note_ok [of "markDirty s3" name] by (simp add: s4_def)
    have out: "r = Inr () \<and> s' = (if st_sawFile s4 \<or> st_flushInProgress s4
        then s4\<lparr>st_pendingDels := st_pendingDels s4 @ [\<lparr>dl_coll = name, dl_id = did, dl_gen = st_dirtyGen s4\<rparr>]\<rparr> else s4)"
      using run c l(1) unfolding s4_def s3_def s2_def by (auto simp: deleteBody_def Let_def)
    have "store_ok s' \<and> docs s' = docs s4"
    proof (rule store_ok_same)
      show "slots_ok s'" using s4 store_ok_slots [of s4] by (simp add: out slots_ok_def)
    qed (use s4 in \<open>simp_all add: out doc_at_def\<close>)
    then show ?thesis using s4 s3 l out by (simp add: set_doc_def)
  qed
  then show "store_ok s'" "docs s name did = None \<Longrightarrow> r = Inl ErrNotFound \<and> s' = s"
    "docs s name did \<noteq> None \<Longrightarrow> r = Inr () \<and> docs s' = set_doc name did None (docs s)" by (simp_all split: if_splits)
qed

end
