(* ===== verification/Store_Spec.thy ===== *)
theory Store_Spec
  imports Store_Laws
begin

text \<open>
  The abstract store: a map from collection names to documents by id, with the indexes only as the
  uniqueness constraints they impose. \<open>spec_insert\<close>, \<open>spec_upsert\<close>, \<open>spec_update\<close> and
  \<open>spec_delete\<close> say what a mutation answers and does to that map. The lemmas state that the locked
  mutations of \<open>Store_Ops\<close> implement them, whatever moved between cache and file meanwhile.
\<close>

type_synonym contents = "string \<Rightarrow> string \<rightharpoonup> document"

definition spec_insert :: "index list \<Rightarrow> string \<Rightarrow> string \<Rightarrow> document \<Rightarrow> contents \<Rightarrow> unit res \<times> contents" where
  "spec_insert idxs name did doc D =
     (if D name did \<noteq> None \<or> unique_conflict idxs (D name) did doc then (Inl ErrDuplicate, D)
      else (Inr (), set_doc name did (Some doc) D))"

definition spec_upsert :: "index list \<Rightarrow> string \<Rightarrow> string \<Rightarrow> document \<Rightarrow> contents \<Rightarrow> unit res \<times> contents" where
  "spec_upsert idxs name did doc D =
     (let stored = mput ''_id'' (JStr did) doc in
      if unique_conflict idxs (D name) did stored then (Inl ErrDuplicate, D)
      else (Inr (), set_doc name did (Some stored) D))"

definition spec_update :: "index list \<Rightarrow> string \<Rightarrow> string \<Rightarrow> document \<Rightarrow> string list \<Rightarrow> contents \<Rightarrow> unit res \<times> contents" where
  "spec_update idxs name did patch remove D =
     (case D name did of
        None \<Rightarrow> (Inl ErrNotFound, D)
      | Some old \<Rightarrow>
          let nxt = remove_fields (merge_patch old patch) remove in
          case checkDocSize nxt of
            Inl e \<Rightarrow> (Inl e, D)
          | Inr _ \<Rightarrow> if unique_conflict idxs (D name) did nxt then (Inl ErrDuplicate, D)
                    else (Inr (), set_doc name did (Some nxt) D))"

definition spec_delete :: "string \<Rightarrow> string \<Rightarrow> contents \<Rightarrow> unit res \<times> contents" where
  "spec_delete name did D = (if D name did = None then (Inl ErrNotFound, D) else (Inr (), set_doc name did None D))"

text \<open>The abstraction of an outcome: its answer, and the documents of the state it leaves.\<close>

definition view :: "'a outcome \<Rightarrow> 'a res \<times> contents" where
  "view out = (fst out, docs (snd out))"

lemma view_pair [simp]: "view (r, s) = (r, docs s)"
  by (simp add: view_def)

lemma insertBody_refines:
  assumes "store_ok s" and "storable doc"
  shows "view (insertBody name did doc s) = spec_insert (indexes s name) name did doc (docs s)"
    and "store_ok (snd (insertBody name did doc s))"
proof -
  obtain r s' where run: "insertBody name did doc s = (r, s')" by fastforce
  show "view (insertBody name did doc s) = spec_insert (indexes s name) name did doc (docs s)"
    "store_ok (snd (insertBody name did doc s))"
    using insertBody_spec [OF assms run] by (auto simp: run spec_insert_def)
qed

lemma upsertBody_refines:
  assumes "store_ok s" and "storable doc"
  shows "view (upsertBody name did doc s) = spec_upsert (indexes s name) name did doc (docs s)"
    and "store_ok (snd (upsertBody name did doc s))"
proof -
  obtain r s' where run: "upsertBody name did doc s = (r, s')" by fastforce
  show "view (upsertBody name did doc s) = spec_upsert (indexes s name) name did doc (docs s)"
    "store_ok (snd (upsertBody name did doc s))"
    using upsertBody_spec [OF assms run] by (auto simp: run spec_upsert_def Let_def)
qed

lemma updateBody_refines:
  assumes "store_ok s"
  shows "view (updateBody name did patch remove s) = spec_update (indexes s name) name did patch remove (docs s)"
    and "store_ok (snd (updateBody name did patch remove s))"
proof -
  obtain r s' where run: "updateBody name did patch remove s = (r, s')" by fastforce
  note sp = updateBody_spec [OF assms run]
  show "view (updateBody name did patch remove s) = spec_update (indexes s name) name did patch remove (docs s)"
  proof (cases "docs s name did")
    case None
    then show ?thesis using sp(2) by (simp add: run spec_update_def)
  next
    case (Some old)
    then show ?thesis using sp(3) [OF Some refl]
      by (auto simp: run spec_update_def Let_def split: sum.splits if_splits)
  qed
  show "store_ok (snd (updateBody name did patch remove s))" using sp(1) by (simp add: run)
qed

lemma deleteBody_refines:
  assumes "store_ok s"
  shows "view (deleteBody name did s) = spec_delete name did (docs s)" and "store_ok (snd (deleteBody name did s))"
proof -
  obtain r s' where run: "deleteBody name did s = (r, s')" by fastforce
  show "view (deleteBody name did s) = spec_delete name did (docs s)" "store_ok (snd (deleteBody name did s))"
    using deleteBody_spec [OF assms run] by (auto simp: run spec_delete_def)
qed

text \<open>The permission check and the wait come first; what follows is the body on the state then.\<close>

lemma guard_view:
  assumes "\<And>u. chk = Inr u \<Longrightarrow> view (f s) = g"
  shows "view (guard_out chk s f) = (case chk of Inl e \<Rightarrow> (Inl e, docs s) | Inr _ \<Rightarrow> g)"
  using assms by (cases chk) auto

lemma guard_store_ok: "store_ok s \<Longrightarrow> (\<And>u. chk = Inr u \<Longrightarrow> store_ok (snd (f s))) \<Longrightarrow> store_ok (snd (guard_out chk s f))"
  by (cases chk) auto

text \<open>Reading one document, under any treatment of what is read.\<close>

lemma read_view:
  assumes ok: "store_ok s"
  shows "view (read_doc name did f s) =
      (case docs s name did of None \<Rightarrow> (Inl ErrNotFound, docs s) | Some d \<Rightarrow> (Inr (f d), docs s))"
    and "store_ok (snd (read_doc name did f s))"
proof -
  have "view (read_doc name did f s) =
      (case docs s name did of None \<Rightarrow> (Inl ErrNotFound, docs s) | Some d \<Rightarrow> (Inr (f d), docs s))
    \<and> store_ok (snd (read_doc name did f s))"
  proof (cases "slot s name did")
    case None
    then show ?thesis using ok by (auto simp: read_doc_def slot_def docs_def resident_def split: option.splits)
  next
    case (Some a)
    then obtain c where c: "collRO name s = Some c" by (auto simp: slot_def split: option.splits)
    obtain d s1 where "resident c did s = (Inr d, s1)" "docs s name did = Some d" "store_ok s1" "docs s1 = docs s"
      by (rule resident_ok [OF ok c Some])
    then show ?thesis using c by (simp add: read_doc_def)
  qed
  then show "view (read_doc name did f s) =
      (case docs s name did of None \<Rightarrow> (Inl ErrNotFound, docs s) | Some d \<Rightarrow> (Inr (f d), docs s))"
    "store_ok (snd (read_doc name did f s))" by auto
qed

lemma getDoc_refines:
  assumes "store_ok s"
  shows "view (getDoc sess name did s) =
      (case checkReadLocked sess name s of
         Inl e \<Rightarrow> (Inl e, docs s)
       | Inr _ \<Rightarrow> (case docs s name did of
            None \<Rightarrow> (Inl ErrNotFound, docs s)
          | Some d \<Rightarrow> (Inr (redact_for sess name d), docs s)))"
    and "store_ok (snd (getDoc sess name did s))"
  unfolding getDoc_def by (cases "checkReadLocked sess name s"; simp add: read_view [OF assms] assms)+

end
