(* ===== verification/Store_Query.thy ===== *)
theory Store_Query
  imports Store_Spec
begin

text \<open>
  What an index of a well-formed store answers, in terms of the documents stored: the theorems of
  \<open>Index_Laws\<close> about the pairs of an index, joined with the store's invariant that those pairs are
  the keys of its documents.
\<close>

lemma store_index:
  assumes "store_ok s" and "idx \<in> set (indexes s name)"
  shows "wf_index idx" and "rel idx = wanted (doc_keys (ix_fields idx)) (docs s name)"
  using store_ok_coherent [OF assms] by (simp_all add: coherent_def)

text \<open>The rows of an indexed document are the rows of its keys.\<close>

lemma coherent_row:
  assumes coh: "coherent ds idx" and st: "\<And>i d. ds i = Some d \<Longrightarrow> storable d"
    and P: "\<And>p q. map encodeIndexValue p = map encodeIndexValue q \<Longrightarrow> row_ok p \<Longrightarrow> row_ok q \<Longrightarrow> P p = P q"
  shows "(\<exists>row. row_ok row \<and> length row = length (ix_fields idx) \<and> P row \<and> (encodeIndexKey row, did) \<in> rel idx)
    \<longleftrightarrow> (\<exists>d. ds did = Some d \<and> (\<exists>row \<in> set (extractIndexRows d (ix_fields idx)). P row))" (is "?L \<longleftrightarrow> ?R")
proof
  assume ?L
  then obtain row d where row: "row_ok row" "P row" "ds did = Some d"
    "encodeIndexKey row \<in> doc_keys (ix_fields idx) d"
    using coh by (auto simp: wanted_def coherent_def)
  then obtain row' where row': "row' \<in> set (extractIndexRows d (ix_fields idx))" "encodeIndexKey row = encodeIndexKey row'"
    by (auto simp: doc_keys_def)
  have "row_ok row'" using storable_rows_ok [OF st [OF row(3)]] row'(1) by (simp add: rows_ok_def)
  then have "P row'" using P [OF encodeIndexKey_eq [OF row'(2) row(1)]] row(1,2) by simp
  then show ?R using row(3) row'(1) by blast
next
  assume ?R
  then obtain d row where r: "ds did = Some d" "row \<in> set (extractIndexRows d (ix_fields idx))" "P row" by blast
  have "row_ok row" using storable_rows_ok [OF st [OF r(1)]] r(2) by (simp add: rows_ok_def)
  moreover have "(encodeIndexKey row, did) \<in> rel idx"
    using r coh by (auto simp: wanted_def doc_keys_def coherent_def)
  ultimately show ?L using r(3) extractIndexRows_length [OF r(2)] by blast
qed

lemma coherent_prefix:
  assumes coh: "coherent ds idx" and st: "\<And>i d. ds i = Some d \<Longrightarrow> storable d"
    and "row_ok vals" and "vals \<noteq> []" and "length vals \<le> length (ix_fields idx)"
  shows "set (snd (seekPrefix idx vals)) = {did. \<exists>d. ds did = Some d
    \<and> (\<exists>row \<in> set (extractIndexRows d (ix_fields idx)).
         take (length vals) (map encodeIndexValue row) = map encodeIndexValue vals)}"
proof -
  have "wf_index idx" using coh by (simp add: coherent_def)
  from seekPrefix_set [OF this assms(3-5)]
  show ?thesis
    using coherent_row [OF coh st, where P = "\<lambda>row. take (length vals) (map encodeIndexValue row) = map encodeIndexValue vals"]
    unfolding prefix_ids_def by (auto simp: eq_commute [of "map encodeIndexValue vals"])
qed

lemma coherent_range:
  assumes coh: "coherent ds idx" and st: "\<And>i d. ds i = Some d \<Longrightarrow> storable d"
    and rb: "bounds_ok rb" and rank: "range_rank rb = Some rank"
  shows "set (snd (seekRange idx rb)) = {did. \<exists>d. ds did = Some d
    \<and> (\<exists>row \<in> set (extractIndexRows d (ix_fields idx)). in_range rb rank (row_val row))}"
proof -
  have wf: "wf_index idx" using coh by (simp add: coherent_def)
  have P: "in_range rb rank (row_val p) = in_range rb rank (row_val q)"
    if "map encodeIndexValue p = map encodeIndexValue q" "row_ok p" "row_ok q" for p q
    by (rule in_range_key [OF rb enc_ok_row_val enc_ok_row_val row_ord_key [OF key_map_cong]]) (fact that)+
  show ?thesis
    unfolding seekRange_set [OF wf rb rank]
    using coherent_row [OF coh st, where P = "\<lambda>row. in_range rb rank (row_val row)", OF _ P] by (intro Collect_cong) simp
qed

lemma stored_prefix:
  assumes ok: "store_ok s" and idx: "idx \<in> set (indexes s name)"
    and "row_ok vals" and "vals \<noteq> []" and "length vals \<le> length (ix_fields idx)"
  shows "set (snd (seekPrefix idx vals)) = {did. \<exists>d. docs s name did = Some d
    \<and> (\<exists>row \<in> set (extractIndexRows d (ix_fields idx)).
         take (length vals) (map encodeIndexValue row) = map encodeIndexValue vals)}"
  by (rule coherent_prefix [OF store_ok_coherent [OF ok idx] docs_storable [OF ok] assms(3-5)])

lemma stored_range:
  assumes ok: "store_ok s" and idx: "idx \<in> set (indexes s name)"
    and rb: "bounds_ok rb" and rank: "range_rank rb = Some rank"
  shows "set (snd (seekRange idx rb)) = {did. \<exists>d. docs s name did = Some d
    \<and> (\<exists>row \<in> set (extractIndexRows d (ix_fields idx)). in_range rb rank (row_val row))}"
  by (rule coherent_range [OF store_ok_coherent [OF ok idx] docs_storable [OF ok] rb rank])

lemma stored_unique:
  assumes ok: "store_ok s" and idx: "idx \<in> set (indexes s name)" and "ix_unique idx"
    and "docs s name x = Some d" and "docs s name y = Some d'"
    and "k \<in> doc_keys (ix_fields idx) d" and "k \<in> doc_keys (ix_fields idx) d'"
  shows "x = y"
  using doc_index.unique_keys [OF assms(3) store_index(2) [OF ok idx] assms(4-7)] .

lemma stored_covers:
  assumes ok: "store_ok s" and idx: "idx \<in> set (indexes s name)" and d: "docs s name did = Some d"
  shows "covers idx d did"
  using store_index(2) [OF ok idx] d by (auto simp: covers_iff wanted_def)

end
