(* ===== verification/Store_Admin.thy ===== *)
theory Store_Admin
  imports Store_Query
begin

text \<open>
  Indexes and collections created and dropped (\<open>ensureIndex\<close>, \<open>dropIndex\<close>, \<open>createCollection\<close>,
  \<open>dropCollection\<close> of \<open>db/store.go\<close>): none changes a document it should not, a new index starts out
  coherent with the documents that are there, and a unique index that the documents violate is
  refused.
\<close>

section \<open>Building an index\<close>

text \<open>Two documents that a unique index on the fields cannot both hold.\<close>

definition key_clash :: "string list \<Rightarrow> (string \<rightharpoonup> document) \<Rightarrow> bool" where
  "key_clash flds ds \<longleftrightarrow> (\<exists>x y d d'. x \<noteq> y \<and> ds x = Some d \<and> ds y = Some d' \<and> doc_keys flds d \<inter> doc_keys flds d' \<noteq> {})"

lemma build_index_step:
  assumes "store_ok s" and "collRO name s = Some c" and "distinct ids" and "\<forall>i \<in> set ids. slot s name i \<noteq> None"
    and "don \<inter> set ids = {}" and "coherent (docs s name |` don) idx" and "build_index c ids idx s = (r, s')"
  shows "cache_step s s' \<and> store_ok s' \<and> docs s' = docs s \<and> (case r of
      Inl e \<Rightarrow> e = ErrDuplicate \<and> ix_unique idx \<and> key_clash (ix_fields idx) (docs s name)
    | Inr j \<Rightarrow> coherent (docs s name |` (don \<union> set ids)) j \<and> same_shape idx j)"
  using assms
proof (induction c ids idx s arbitrary: don r s' rule: build_index.induct)
  case (1 c idx s)
  then show ?case by auto
next
  case (2 c did ids idx s)
  obtain a where a: "slot s name did = Some a" using 2(5) by auto
  obtain d s1 where l: "resident c did s = (Inr d, s1)" "docs s name did = Some d" "cache_step s s1"
    "store_ok s1" "docs s1 = docs s" by (rule resident_ok [OF 2(2,3) a])
  have st: "storable d" by (rule docs_storable [OF 2(2) l(2)])
  show ?case
  proof (cases "addDoc d did idx")
    case (Inl e)
    then have r: "r = Inl e" "s' = s1" using 2(8) l(1) by auto
    obtain k y where k: "e = ErrDuplicate" "ix_unique idx" "k \<in> doc_keys (ix_fields idx) d" "(k, y) \<in> rel idx" "y \<noteq> did"
      using Inl by (auto simp: addDoc_error)
    obtain d' where "docs s name y = Some d'" "k \<in> doc_keys (ix_fields idx) d'"
      using 2(7) k(4) by (auto simp: coherent_def wanted_def restrict_map_def split: if_splits)
    then have "key_clash (ix_fields idx) (docs s name)" using k l(2) unfolding key_clash_def by blast
    then show ?thesis using l(3-5) k r by simp
  next
    case (Inr j)
    have un: "(docs s name |` don) did = None" using 2(6) by (auto simp: restrict_map_def)
    have ext: "(docs s name |` don)(did \<mapsto> d) = docs s1 name |` insert did don"
      using l(2,5) by (auto simp: restrict_map_def fun_eq_iff)
    have j: "coherent (docs s1 name |` insert did don) j" "same_shape idx j"
      using coherent_add [OF 2(7) un st Inr] unfolding ext by auto
    have cs: "collRO name s1 = Some c" "slot s1 = slot s"
      using 2(3) cache_stepD(1) [OF l(3)] by (auto simp: collRO_def slot_def fun_eq_iff)
    have run: "build_index c ids j s1 = (r, s')" using 2(8) l(1) Inr by simp
    have dj: "insert did don \<inter> set ids = {}" using 2(4,6) by auto
    have sl: "\<forall>i \<in> set ids. slot s1 name i \<noteq> None" and di: "distinct ids" using 2(4,5) cs by auto
    have "cache_step s1 s' \<and> store_ok s' \<and> docs s' = docs s1 \<and> (case r of
        Inl e \<Rightarrow> e = ErrDuplicate \<and> ix_unique j \<and> key_clash (ix_fields j) (docs s1 name)
      | Inr j' \<Rightarrow> coherent (docs s1 name |` (insert did don \<union> set ids)) j' \<and> same_shape j j')"
      by (rule 2(1) [OF Inr l(4) cs(1) di sl dj j(1) run])
    then show ?thesis
      using cache_step_trans [OF l(3)] l(5) j(2) same_shape_trans [OF j(2)]
      by (auto simp: same_shape_def split: sum.splits)
  qed
qed

text \<open>The whole build, from the empty index over every id of the collection.\<close>

lemma build_index_all:
  assumes ok: "store_ok s" and c: "collRO name s = Some c"
    and run: "build_index c (sort (map fst (c_entries c))) (newIndex flds unique) s = (r, s')"
  shows "cache_step s s'" and "store_ok s'" and "docs s' = docs s"
    and "r = Inl e \<Longrightarrow> e = ErrDuplicate \<and> unique \<and> key_clash flds (docs s name)"
    and "r = Inr idx \<Longrightarrow> coherent (docs s name) idx \<and> ix_fields idx = flds \<and> ix_unique idx = unique"
proof -
  let ?ids = "sort (map fst (c_entries c))"
  have di: "distinct ?ids" using store_ok_keys [OF ok c] by (simp add: distinct_keys_def)
  have sl: "\<forall>i \<in> set ?ids. slot s name i \<noteq> None" using c by (auto simp: slot_def map_of_eq_None_iff)
  have all: "docs s name |` set ?ids = docs s name"
  proof
    fix i
    have "i \<notin> set ?ids \<Longrightarrow> docs s name i = None" using c by (simp add: docs_def slot_def map_of_eq_None_iff [THEN iffD2])
    then show "(docs s name |` set ?ids) i = docs s name i" by (auto simp: restrict_map_def)
  qed
  have "coherent (docs s name |` {}) (newIndex flds unique)" using coherent_newIndex by (simp add: restrict_map_to_empty)
  from build_index_step [OF ok c di sl _ this run]
  have all': "cache_step s s' \<and> store_ok s' \<and> docs s' = docs s \<and> (case r of
      Inl e \<Rightarrow> e = ErrDuplicate \<and> unique \<and> key_clash flds (docs s name)
    | Inr j \<Rightarrow> coherent (docs s name) j \<and> ix_fields j = flds \<and> ix_unique j = unique)"
    by (auto simp: all [simplified] same_shape_def newIndex_def split: sum.splits)
  then show "cache_step s s'" "store_ok s'" "docs s' = docs s"
    "r = Inl e \<Longrightarrow> e = ErrDuplicate \<and> unique \<and> key_clash flds (docs s name)"
    "r = Inr idx \<Longrightarrow> coherent (docs s name) idx \<and> ix_fields idx = flds \<and> ix_unique idx = unique" by auto
qed

text \<open>A unique index never coexists with a clash, so a build over one must fail.\<close>

lemma coherent_no_clash: "coherent ds idx \<Longrightarrow> ix_unique idx \<Longrightarrow> \<not> key_clash (ix_fields idx) ds"
  unfolding key_clash_def coherent_def using doc_index.unique_keys [of idx ds] by (meson disjoint_iff)

lemma ensureIndex_spec:
  assumes ok: "store_ok s" and run: "ensureIndex name flds unique s = (r, s')"
  shows "store_ok s'" and "docs s' = docs s"
    and "r = (if flds = [] then Inl ErrBadFilter
      else case find (\<lambda>idx. sameFields (ix_fields idx) flds) (indexes s name) of
          Some idx \<Rightarrow> if ix_unique idx = unique then Inr () else Inl ErrDuplicate
        | None \<Rightarrow> if unique \<and> key_clash flds (docs s name) then Inl ErrDuplicate else Inr ())"
    and "r = Inr () \<Longrightarrow> \<exists>idx \<in> set (indexes s' name). sameFields (ix_fields idx) flds \<and> ix_unique idx = unique"
proof -
  have "store_ok s' \<and> docs s' = docs s \<and> r = (if flds = [] then Inl ErrBadFilter
      else case find (\<lambda>idx. sameFields (ix_fields idx) flds) (indexes s name) of
          Some idx \<Rightarrow> if ix_unique idx = unique then Inr () else Inl ErrDuplicate
        | None \<Rightarrow> if unique \<and> key_clash flds (docs s name) then Inl ErrDuplicate else Inr ())
    \<and> (r = Inr () \<longrightarrow> (\<exists>idx \<in> set (indexes s' name). sameFields (ix_fields idx) flds \<and> ix_unique idx = unique))"
  proof (cases "flds = []")
    case True
    then show ?thesis using run ok by (auto simp: ensureIndex_def)
  next
    case False
    obtain c s1 where cs: "coll name s = (c, s1)" by fastforce
    note co = coll_laws [OF ok cs]
    show ?thesis
    proof (cases "find (\<lambda>idx. sameFields (ix_fields idx) flds) (c_indexes c)")
      case (Some idx)
      then have "idx \<in> set (indexes s name)" "sameFields (ix_fields idx) flds" using co by (auto simp: find_Some_iff)
      then show ?thesis using run cs co False Some by (auto simp: ensureIndex_def split: if_splits)
    next
      case None
      obtain r1 s2 where b: "build_index c (sort (map fst (c_entries c))) (newIndex flds unique) s1 = (r1, s2)" by fastforce
      note bu = build_index_all [OF conjunct1 [OF co] _ b, of name]
      show ?thesis
      proof (cases r1)
        case (Inl e)
        then show ?thesis using bu co run cs False None b by (auto simp: ensureIndex_def)
      next
        case (Inr idx)
        let ?s = "putColl name (c\<lparr>c_indexes := c_indexes c @ [idx]\<rparr>) s2"
        have c2: "collRO name s2 = Some c" using bu(1) co by (simp add: collRO_cong [OF cache_stepD(1)])
        have idx: "coherent (docs s name) idx" "ix_fields idx = flds" "ix_unique idx = unique" using bu(5) Inr co by auto
        have old: "\<forall>i \<in> set (c_indexes c). coherent (docs s name) i" using co store_ok_coherent [OF ok] by auto
        have e: "store_ok ?s \<and> docs ?s = docs s2"
          using bu(2,3) c2 old idx(1) co by (intro store_ok_reindex) auto
        have "\<not> (unique \<and> key_clash flds (docs s name))" using coherent_no_clash idx by blast
        moreover have "r = Inr () \<and> s' = markDirty ?s" using run cs False None b Inr by (simp add: ensureIndex_def)
        moreover have "sameFields flds flds" by (simp add: sameFields_def)
        moreover have "idx \<in> set (indexes (markDirty ?s) name)"
          by (simp add: indexes_def collRO_cong [of "markDirty ?s" ?s])
        ultimately show ?thesis using markDirty_ok [of ?s] e bu(3) co None False idx by auto
      qed
    qed
  qed
  then show "store_ok s'" "docs s' = docs s" "r = (if flds = [] then Inl ErrBadFilter
      else case find (\<lambda>idx. sameFields (ix_fields idx) flds) (indexes s name) of
          Some idx \<Rightarrow> if ix_unique idx = unique then Inr () else Inl ErrDuplicate
        | None \<Rightarrow> if unique \<and> key_clash flds (docs s name) then Inl ErrDuplicate else Inr ())"
    "r = Inr () \<Longrightarrow> \<exists>idx \<in> set (indexes s' name). sameFields (ix_fields idx) flds \<and> ix_unique idx = unique" by auto
qed

section \<open>Dropping an index, creating a collection\<close>

lemma drop_first_set: "drop_first P xs = Some ys \<Longrightarrow> set ys \<subseteq> set xs"
  by (induction xs arbitrary: ys) (auto split: if_splits)

lemma dropIndex_spec:
  assumes ok: "store_ok s" and run: "dropIndex name flds s = (r, s')"
  shows "store_ok s' \<and> docs s' = docs s"
proof (cases "r = Inr ()")
  case True
  then obtain c idxs where c: "collRO name s = Some c" "drop_first (\<lambda>idx. sameFields (ix_fields idx) flds) (c_indexes c) = Some idxs"
    "s' = markDirty (putColl name (c\<lparr>c_indexes := idxs\<rparr>) s)"
    using run by (auto simp: dropIndex_def split: option.splits)
  have "\<And>idx. idx \<in> set idxs \<Longrightarrow> coherent (docs s name) idx"
    using drop_first_set [OF c(2)] store_ok_coherent [OF ok] c(1) by (auto simp: indexes_def)
  from store_ok_reindex [OF ok c(1) this] show ?thesis using markDirty_ok c(3) by simp
next
  case False
  then show ?thesis using run ok by (auto simp: dropIndex_def split: option.splits)
qed

lemma createCollection_spec:
  assumes ok: "store_ok s" and run: "createCollection sess name s = (r, s')"
  shows "store_ok s' \<and> docs s' = docs s"
proof (cases "r = Inr ()")
  case True
  then have "collRO name s = None" "s' = markDirty (putColl name empty_collection s)"
    using run by (auto simp: createCollection_def guard_out_def split: if_splits sum.splits)
  then show ?thesis using store_ok_new_coll [OF ok] markDirty_ok by simp
next
  case False
  then show ?thesis using run ok by (auto simp: createCollection_def guard_out_def split: if_splits sum.splits)
qed

section \<open>Dropping a collection\<close>

lemma purge_entries_frame [simp]:
  "st_collections (purge_entries as s) = st_collections s" "st_heap (purge_entries as s) = st_heap s"
  "st_path (purge_entries as s) = st_path s" "st_disk (purge_entries as s) = st_disk s"
  "st_next (purge_entries as s) = st_next s" "st_noEvict (purge_entries as s) = st_noEvict s"
  by (induction as s rule: purge_entries.induct) (simp_all add: less_resident_def)

lemma purge_entries_cache: "set (st_cache (purge_entries as s)) = set (st_cache s) - set as"
  by (induction as s rule: purge_entries.induct) (auto simp: less_resident_def)

lemma map_of_mdel_cong: "distinct_keys xs \<Longrightarrow> map_of (mdel k xs) k' = (if k' = k then None else map_of xs k')"
  by simp

lemma store_ok_drop:
  assumes ok: "store_ok s" and col: "st_collections s' = mdel name (st_collections s)"
    and fr: "st_heap s' = st_heap s" "st_path s' = st_path s" "st_disk s' = st_disk s" "st_next s' = st_next s"
      "st_noEvict s' = st_noEvict s"
  shows "store_ok s' \<and> docs s' = (docs s)(name := Map.empty)"
proof -
  have co: "collRO n s' = (if n = name then None else collRO n s)" for n by (simp add: collRO_def col)
  have sl: "slot s' n i = (if n = name then None else slot s n i)" for n i by (simp add: slot_def co)
  have ix: "indexes s' n = (if n = name then [] else indexes s n)" for n by (simp add: indexes_def co)
  have da: "doc_at s' a = doc_at s a" for a by (simp add: doc_at_def fr)
  have d: "docs s' = (docs s)(name := Map.empty)"
    by (auto simp: fun_eq_iff docs_def sl da cong: option.case_cong)
  have "slots_ok s'" using store_ok_slots [OF ok] by (simp add: slots_ok_def fr)
  moreover have "a < st_next s' \<and> (\<exists>d. doc_at s' a = Some d \<and> storable d)" if "slot s' n i = Some a" for n i a
    using that store_ok_alloc [OF ok, of n i a] store_ok_doc [OF ok, of n i a] by (auto simp: sl da fr split: if_splits)
  moreover have "n' = n \<and> i' = i" if "slot s' n i = Some a" "slot s' n' i' = Some a" for n i n' i' a
    using that store_ok_inj [OF ok, of n i a n' i'] by (auto simp: sl split: if_splits)
  moreover have "distinct_keys (c_entries c)" if "collRO n s' = Some c" for n c
    using that store_ok_keys [OF ok, of n c] by (auto simp: co split: if_splits)
  moreover have "coherent (docs s' n) idx" if "idx \<in> set (indexes s' n)" for n idx
    using that store_ok_coherent [OF ok, of idx n] by (auto simp: ix d split: if_splits)
  ultimately show ?thesis using d unfolding store_ok_def by blast
qed

end
