(* ===== verification/Graph_Search.thy ===== *)
theory Graph_Search
  imports Graph
begin

text \<open>
  The two breadth-first searches of \<open>db/graph.go\<close> as loops over their queue, for an arbitrary
  neighbour function. \<open>traverse\<close> reports each vertex once, at its distance, in order of distance,
  and stops short only at its limit; \<open>shortestPath\<close> finds a path exactly when the target is within
  the depth bound, and the path is a shortest one. Both loops end: every queue step replaces an item
  by items of greater depth.
\<close>

type_synonym queue_item = "string \<times> nat"

section \<open>Traverse\<close>

fun enqueue_new :: "nat \<Rightarrow> string list \<Rightarrow> string list \<Rightarrow> queue_item list \<Rightarrow> string list \<times> queue_item list" where
  "enqueue_new d [] vis q = (vis, q)"
| "enqueue_new d (n # ns) vis q =
     (if n \<in> set vis then enqueue_new d ns vis q
      else enqueue_new d ns (vis @ [n]) (q @ [(n, d)]))"

text \<open>The neighbours that were not seen before, each once.\<close>

fun fresh :: "string list \<Rightarrow> string list \<Rightarrow> string list" where
  "fresh vis [] = []"
| "fresh vis (n # ns) = (if n \<in> set vis then fresh vis ns else n # fresh (vis @ [n]) ns)"

lemma enqueue_new_eq: "enqueue_new d ns vis q = (vis @ fresh vis ns, q @ map (\<lambda>n. (n, d)) (fresh vis ns))"
  by (induction d ns vis q rule: enqueue_new.induct) auto

lemma set_fresh: "set (fresh vis ns) = set ns - set vis"
  by (induction vis ns rule: fresh.induct) auto

lemma distinct_fresh: "distinct (fresh vis ns)"
  by (induction vis ns rule: fresh.induct) (auto simp: set_fresh)

text \<open>Items of smaller depth weigh more; a step replaces one item by lighter ones.\<close>

definition queue_weight :: "nat \<Rightarrow> queue_item list \<Rightarrow> nat multiset" where
  "queue_weight maxD q = image_mset (\<lambda>p. Suc maxD - snd p) (mset q)"

definition queue_less :: "((nat \<times> queue_item list) \<times> (nat \<times> queue_item list)) set" where
  "queue_less = inv_image (mult less_than) (\<lambda>(maxD, q). queue_weight maxD q)"

lemma wf_queue_less: "wf queue_less"
  unfolding queue_less_def by (intro wf_inv_image wf_mult wf_less_than)

lemma queue_less_pop: "((maxD, q), (maxD, x # q)) \<in> queue_less"
  using one_step_implies_mult [of "{#Suc maxD - snd x#}" "{#}" less_than "queue_weight maxD q"]
  by (simp add: queue_less_def queue_weight_def)

lemma queue_less_step:
  "snd x < maxD \<Longrightarrow> ((maxD, q @ map (\<lambda>n. (n, Suc (snd x))) ns), (maxD, x # q)) \<in> queue_less"
  using one_step_implies_mult [of "{#Suc maxD - snd x#}" "queue_weight maxD (map (\<lambda>n. (n, Suc (snd x))) ns)"
      less_than "queue_weight maxD q"]
  by (auto simp: queue_less_def queue_weight_def Suc_diff_le)

function bfs_loop :: "(string \<Rightarrow> string list) \<Rightarrow> nat \<Rightarrow> nat \<Rightarrow> nat \<Rightarrow> queue_item list \<Rightarrow> string list
    \<Rightarrow> queue_item list \<Rightarrow> queue_item list" where
  "bfs_loop adj minD maxD limit [] vis result = result"
| "bfs_loop adj minD maxD limit ((v, d) # q) vis result =
     (let result' = (if minD \<le> d then result @ [(v, d)] else result) in
      if minD \<le> d \<and> limit \<le> length result' then result'
      else if maxD \<le> d then bfs_loop adj minD maxD limit q vis result'
      else bfs_loop adj minD maxD limit (snd (enqueue_new (Suc d) (adj v) vis q))
             (fst (enqueue_new (Suc d) (adj v) vis q)) result')"
  by pat_completeness auto
termination
  by (relation "inv_image queue_less (\<lambda>(adj, minD, maxD, limit, q, vis, result). (maxD, q))")
    (use queue_less_pop queue_less_step [where x = "(_, _)"] in \<open>auto simp: wf_queue_less enqueue_new_eq\<close>)

definition defaultTraverseDepth :: int where "defaultTraverseDepth = 5"
definition maxTraverseDepth :: int where "maxTraverseDepth = 32"
definition defaultTraverseLimit :: int where "defaultTraverseLimit = 10000"
definition maxTraverseLimit :: int where "maxTraverseLimit = 100000"
definition defaultPathDepth :: int where "defaultPathDepth = 6"
definition maxPathDepth :: int where "maxPathDepth = 32"

text \<open>The anti-stall clamps: a default for a non-positive value, then a ceiling.\<close>

definition clamp :: "int \<Rightarrow> int \<Rightarrow> int \<Rightarrow> nat" where
  "clamp def' ceiling x = nat (min ceiling (if x \<le> 0 then def' else x))"

definition bfs :: "(string \<Rightarrow> string list) \<Rightarrow> string \<Rightarrow> int \<Rightarrow> int \<Rightarrow> int \<Rightarrow> queue_item list" where
  "bfs adj start minDepth maxDepth limit =
     bfs_loop adj (nat minDepth) (clamp defaultTraverseDepth maxTraverseDepth maxDepth)
       (clamp defaultTraverseLimit maxTraverseLimit limit) [(start, 0)] [start] []"

section \<open>Shortest path\<close>

text \<open>The inner loop: \<open>Inl\<close> with the predecessor map when the target turns up.\<close>

fun sp_visit :: "string \<Rightarrow> string \<Rightarrow> nat \<Rightarrow> string list \<Rightarrow> string gomap \<Rightarrow> queue_item list
    \<Rightarrow> string gomap + (string gomap \<times> queue_item list)" where
  "sp_visit to cur d [] prev q = Inr (prev, q)"
| "sp_visit to cur d (n # ns) prev q =
     (if map_of prev n \<noteq> None then sp_visit to cur d ns prev q
      else let prev' = mput n cur prev in
        if n = to then Inl prev' else sp_visit to cur d ns prev' (q @ [(n, d)]))"

fun rebuild :: "nat \<Rightarrow> string gomap \<Rightarrow> string \<Rightarrow> string list" where
  "rebuild 0 prev x = []"
| "rebuild (Suc fuel) prev x =
     (case map_of prev x of None \<Rightarrow> []
      | Some y \<Rightarrow> if y = [] then [] else y # rebuild fuel prev y)"

definition path_to :: "string gomap \<Rightarrow> string \<Rightarrow> string list" where
  "path_to prev to = rev (to # rebuild (length prev) prev to)"

lemma sp_visit_queue:
  "sp_visit to cur d ns prev q = Inr (prev', q') \<Longrightarrow> \<exists>xs. q' = q @ map (\<lambda>n. (n, d)) xs"
proof (induction to cur d ns prev q arbitrary: prev' q' rule: sp_visit.induct)
  case (2 to cur d n ns prev q)
  show ?case
  proof (cases "map_of prev n \<noteq> None")
    case False
    then have "\<exists>xs. q' = (q @ [(n, d)]) @ map (\<lambda>n. (n, d)) xs"
      using 2 by (auto simp: Let_def split: if_splits)
    then show ?thesis by (metis append.assoc append_Cons append_Nil list.simps(9))
  qed (use 2 in auto)
qed auto

function sp_loop :: "(string \<Rightarrow> string list) \<Rightarrow> string \<Rightarrow> nat \<Rightarrow> queue_item list \<Rightarrow> string gomap \<Rightarrow> string list option" where
  "sp_loop adj to maxD [] prev = None"
| "sp_loop adj to maxD ((v, d) # q) prev =
     (if maxD \<le> d then sp_loop adj to maxD q prev
      else case sp_visit to v (Suc d) (adj v) prev q of
             Inl prev' \<Rightarrow> Some (path_to prev' to)
           | Inr (prev', q') \<Rightarrow> sp_loop adj to maxD q' prev')"
  by pat_completeness auto
termination
proof (relation "inv_image queue_less (\<lambda>(adj, to, maxD, q, prev). (maxD, q))")
  fix adj to maxD v d q prev z prev' q'
  assume "\<not> maxD \<le> d" "sp_visit to v (Suc d) (adj v) prev q = Inr z" "(prev', q') = z"
  then show "((adj, to, maxD, q', prev'), adj, to, maxD, (v, d) # q, prev)
      \<in> inv_image queue_less (\<lambda>(adj, to, maxD, q, prev). (maxD, q))"
    using sp_visit_queue [of to v "Suc d" "adj v" prev q prev' q'] queue_less_step [of "(v, d)" maxD q] by auto
qed (use queue_less_pop in \<open>auto simp: wf_queue_less\<close>)

definition shortest :: "(string \<Rightarrow> string list) \<Rightarrow> string \<Rightarrow> string \<Rightarrow> int \<Rightarrow> string list option" where
  "shortest adj from to maxDepth =
     (if from = to then Some [from]
      else sp_loop adj to (clamp defaultPathDepth maxPathDepth maxDepth) [(from, 0)] [(from, [])])"

section \<open>Distances\<close>

definition step :: "(string \<Rightarrow> string list) \<Rightarrow> (string \<times> string) set" where
  "step adj = {(u, v). v \<in> set (adj u)}"

definition at_dist :: "(string \<Rightarrow> string list) \<Rightarrow> string \<Rightarrow> nat \<Rightarrow> string \<Rightarrow> bool" where
  "at_dist adj s k v \<longleftrightarrow> (s, v) \<in> step adj ^^ k \<and> (\<forall>j < k. (s, v) \<notin> step adj ^^ j)"

lemma at_dist_0 [simp]: "at_dist adj s 0 v \<longleftrightarrow> v = s"
  by (auto simp: at_dist_def)

lemma at_dist_unique: "at_dist adj s k v \<Longrightarrow> at_dist adj s j v \<Longrightarrow> k = j"
  unfolding at_dist_def by (meson linorder_neqE_nat)

text \<open>
  What holds while a breadth-first search runs: \<open>done'\<close> are the items taken off the queue \<open>q\<close>.
\<close>

definition bfs_inv :: "(string \<Rightarrow> string list) \<Rightarrow> string \<Rightarrow> nat \<Rightarrow> queue_item list \<Rightarrow> queue_item list \<Rightarrow> string set \<Rightarrow> bool" where
  "bfs_inv adj s maxD done' q vis \<longleftrightarrow>
     distinct (map fst (done' @ q)) \<and> vis = fst ` set (done' @ q)
     \<and> (s, 0) \<in> set (done' @ q)
     \<and> (\<forall>p \<in> set (done' @ q). at_dist adj s (snd p) (fst p) \<and> snd p \<le> maxD)
     \<and> sorted (map snd (done' @ q))
     \<and> (\<forall>x \<in> set q. \<forall>y \<in> set q. snd y \<le> Suc (snd x))
     \<and> (\<forall>p \<in> set done'. snd p < maxD \<longrightarrow> set (adj (fst p)) \<subseteq> vis)"

lemma bfs_inv_init: "bfs_inv adj s maxD [] [(s, 0)] {s}"
  by (simp add: bfs_inv_def)

lemma bfs_invD:
  assumes "bfs_inv adj s maxD done' q vis"
  shows bfs_inv_distinct: "distinct (map fst (done' @ q))"
    and bfs_inv_vis: "vis = fst ` set (done' @ q)"
    and bfs_inv_start: "(s, 0) \<in> set (done' @ q)"
    and bfs_inv_dist: "p \<in> set (done' @ q) \<Longrightarrow> at_dist adj s (snd p) (fst p)"
    and bfs_inv_max: "p \<in> set (done' @ q) \<Longrightarrow> snd p \<le> maxD"
    and bfs_inv_sorted: "sorted (map snd (done' @ q))"
    and bfs_inv_near: "x \<in> set q \<Longrightarrow> y \<in> set q \<Longrightarrow> snd y \<le> Suc (snd x)"
    and bfs_inv_nbrs: "p \<in> set done' \<Longrightarrow> snd p < maxD \<Longrightarrow> set (adj (fst p)) \<subseteq> vis"
  using assms unfolding bfs_inv_def by blast+

lemma bfs_inv_label:
  assumes "bfs_inv adj s maxD done' q vis" and "w \<in> vis"
  obtains e where "(w, e) \<in> set (done' @ q)" and "at_dist adj s e w"
proof -
  obtain p where p: "p \<in> set (done' @ q)" "w = fst p" using assms(2) bfs_inv_vis [OF assms(1)] by auto
  show ?thesis
  proof (rule that)
    show "(w, snd p) \<in> set (done' @ q)" using p by simp
    show "at_dist adj s (snd p) w" using bfs_inv_dist [OF assms(1) p(1)] p(2) by simp
  qed
qed

text \<open>Every vertex within the depth of the queue's head has been seen.\<close>

lemma bfs_inv_seen:
  assumes inv: "bfs_inv adj s maxD done' q vis" and low: "\<And>p. p \<in> set q \<Longrightarrow> b \<le> snd p" and "b \<le> maxD"
    and "(s, w) \<in> step adj ^^ j" and "j \<le> b"
  shows "w \<in> vis"
  using assms(4,5)
proof (induction j arbitrary: w)
  case 0
  show ?case using bfs_inv_start [OF inv] bfs_inv_vis [OF inv] 0 by (metis fst_conv image_eqI relpow_0_E)
next
  case (Suc j)
  then obtain x where x: "(s, x) \<in> step adj ^^ j" "w \<in> set (adj x)" by (auto simp: step_def)
  have "x \<in> vis" using Suc x by simp
  obtain e where e: "(x, e) \<in> set (done' @ q)" "at_dist adj s e x"
    using bfs_inv_label [OF inv \<open>x \<in> vis\<close>] .
  then have "e \<le> j" using x(1) unfolding at_dist_def by (metis not_le)
  then have "e < b" using Suc.prems(2) by simp
  have "(x, e) \<in> set done'"
  proof (rule ccontr)
    assume "(x, e) \<notin> set done'"
    then have "(x, e) \<in> set q" using e(1) by simp
    from low [OF this] show False using \<open>e < b\<close> by simp
  qed
  then have "set (adj x) \<subseteq> vis" using bfs_inv_nbrs [OF inv, of "(x, e)"] \<open>e < b\<close> \<open>b \<le> maxD\<close> by simp
  then show ?case using x(2) by blast
qed

lemma bfs_inv_pop:
  assumes inv: "bfs_inv adj s maxD done' ((v, d) # q) vis" and "maxD \<le> d"
  shows "bfs_inv adj s maxD (done' @ [(v, d)]) q vis"
  using assms unfolding bfs_inv_def by (auto simp: ball_Un)

lemma bfs_inv_step:
  assumes inv: "bfs_inv adj s maxD done' ((v, d) # q) vis" and "d < maxD"
    and ns: "distinct ns" "set ns = set (adj v) - vis"
  shows "bfs_inv adj s maxD (done' @ [(v, d)]) (q @ map (\<lambda>n. (n, Suc d)) ns) (vis \<union> set (adj v))"
proof -
  have sorted: "sorted (map snd done' @ d # map snd q)" using bfs_inv_sorted [OF inv] by simp
  then have low: "\<And>p. p \<in> set ((v, d) # q) \<Longrightarrow> d \<le> snd p" by (auto simp: sorted_append)
  have high: "\<And>p. p \<in> set done' \<or> p \<in> set q \<Longrightarrow> snd p \<le> Suc d"
    using bfs_inv_near [OF inv, of "(v, d)"] sorted by (force simp: sorted_append)
  have new: "at_dist adj s (Suc d) n" if "n \<in> set ns" for n
  proof -
    have "at_dist adj s d v" using bfs_inv_dist [OF inv, of "(v, d)"] by simp
    then have "(s, n) \<in> step adj ^^ Suc d" using that ns by (auto simp: at_dist_def step_def)
    moreover have "(s, n) \<notin> step adj ^^ j" if "j < Suc d" for j
      using bfs_inv_seen [OF inv low, of n j] that \<open>n \<in> set ns\<close> ns \<open>d < maxD\<close> by auto
    ultimately show ?thesis by (simp add: at_dist_def)
  qed
  let ?all = "(done' @ [(v, d)]) @ q @ map (\<lambda>n. (n, Suc d)) ns"
  have "sorted (map (snd \<circ> (\<lambda>n. (n, Suc d))) ns)" by (induction ns) auto
  then have 1: "sorted (map snd ?all)" using sorted high by (auto simp: sorted_append)
  note vis = bfs_inv_vis [OF inv]
  have "map fst ?all = map fst (done' @ (v, d) # q) @ ns" by (simp add: comp_def)
  moreover note bfs_inv_distinct [OF inv]
  moreover have "set (map fst (done' @ (v, d) # q)) \<inter> set ns = {}" using ns(2) vis by auto
  ultimately have 2: "distinct (map fst ?all)" using ns(1) by (metis distinct_append)
  have 3: "vis \<union> set (adj v) = fst ` set ?all" using ns(2) vis by (auto simp: image_Un image_image)
  have 4: "\<forall>x \<in> set (q @ map (\<lambda>n. (n, Suc d)) ns). \<forall>y \<in> set (q @ map (\<lambda>n. (n, Suc d)) ns). snd y \<le> Suc (snd x)"
  proof (intro ballI)
    fix x y assume xy: "x \<in> set (q @ map (\<lambda>n. (n, Suc d)) ns)" "y \<in> set (q @ map (\<lambda>n. (n, Suc d)) ns)"
    have "d \<le> snd x" using xy(1) low [of x] by auto
    moreover have "snd y \<le> Suc d" using xy(2) high [of y] by auto
    ultimately show "snd y \<le> Suc (snd x)" by simp
  qed
  have 5: "\<forall>p \<in> set ?all. at_dist adj s (snd p) (fst p) \<and> snd p \<le> maxD"
    using bfs_inv_dist [OF inv] bfs_inv_max [OF inv] new \<open>d < maxD\<close> by auto
  have 6: "\<forall>p \<in> set (done' @ [(v, d)]). snd p < maxD \<longrightarrow> set (adj (fst p)) \<subseteq> vis \<union> set (adj v)"
    using bfs_inv_nbrs [OF inv] by fastforce
  have 7: "(s, 0) \<in> set ?all" using bfs_inv_start [OF inv] by auto
  show ?thesis unfolding bfs_inv_def using 1 2 3 4 5 6 7 by (intro conjI)
qed

section \<open>Traverse is correct\<close>

text \<open>
  The answer of a traversal: every vertex once, at its distance, nearer vertices first; a vertex in
  range is missing only when the limit was hit, and then everything reported is at least as near.
\<close>

definition traversal :: "(string \<Rightarrow> string list) \<Rightarrow> string \<Rightarrow> nat \<Rightarrow> nat \<Rightarrow> nat \<Rightarrow> queue_item list \<Rightarrow> bool" where
  "traversal adj s minD maxD limit res \<longleftrightarrow>
     distinct (map fst res) \<and> sorted (map snd res) \<and> length res \<le> limit
     \<and> (\<forall>(v, d) \<in> set res. at_dist adj s d v \<and> minD \<le> d \<and> d \<le> maxD)
     \<and> (\<forall>v d. at_dist adj s d v \<longrightarrow> minD \<le> d \<longrightarrow> d \<le> maxD \<longrightarrow> (v, d) \<notin> set res \<longrightarrow>
          length res = limit \<and> (\<forall>(w, e) \<in> set res. e \<le> d))"

lemma traversal_filter:
  assumes inv: "bfs_inv adj s maxD done' q vis" and len: "length (filter (\<lambda>p. minD \<le> snd p) done') \<le> limit"
    and full: "\<And>v d. at_dist adj s d v \<Longrightarrow> minD \<le> d \<Longrightarrow> d \<le> maxD \<Longrightarrow> (v, d) \<notin> set done' \<Longrightarrow>
      length (filter (\<lambda>p. minD \<le> snd p) done') = limit \<and> (\<forall>p \<in> set done'. snd p \<le> d)"
  shows "traversal adj s minD maxD limit (filter (\<lambda>p. minD \<le> snd p) done')"
proof -
  let ?res = "filter (\<lambda>p. minD \<le> snd p) done'"
  have 1: "distinct (map fst done')" "sorted (map snd done')"
    using bfs_inv_distinct [OF inv] bfs_inv_sorted [OF inv] by (auto simp: sorted_append)
  have 2: "\<forall>(v, d) \<in> set ?res. at_dist adj s d v \<and> minD \<le> d \<and> d \<le> maxD"
    using bfs_inv_dist [OF inv] bfs_inv_max [OF inv] by fastforce
  have 3: "length ?res = limit \<and> (\<forall>(w, e) \<in> set ?res. e \<le> d)"
    if "at_dist adj s d v" "minD \<le> d" "d \<le> maxD" "(v, d) \<notin> set ?res" for v d
  proof -
    have "(v, d) \<notin> set done'" using that by simp
    from full [OF that(1-3) this] show ?thesis by auto
  qed
  show ?thesis
    unfolding traversal_def
  proof (intro conjI allI impI)
    show "distinct (map fst ?res)" using 1 by (simp add: distinct_map_filter)
    show "sorted (map snd ?res)" using 1 by (simp add: sorted_filter)
    fix v d assume a: "at_dist adj s d v" "minD \<le> d" "d \<le> maxD" "(v, d) \<notin> set ?res"
    show "length ?res = limit" using 3 [OF a] by (rule conjunct1)
    show "\<forall>(w, e) \<in> set ?res. e \<le> d" using 3 [OF a] by (rule conjunct2)
  next
    show "length ?res \<le> limit" by (rule len)
    show "\<forall>(v, d) \<in> set ?res. at_dist adj s d v \<and> minD \<le> d \<and> d \<le> maxD" by (rule 2)
  qed
qed

lemma bfs_loop_traversal:
  assumes "bfs_inv adj s maxD done' q (set vis)" and "result = filter (\<lambda>p. minD \<le> snd p) done'"
    and "length result < limit"
  shows "traversal adj s minD maxD limit (bfs_loop adj minD maxD limit q vis result)"
  using assms
proof (induction adj minD maxD limit q vis result arbitrary: done' rule: bfs_loop.induct)
  case (1 adj minD maxD limit vis result)
  have "(v, d) \<in> set done'" if d: "at_dist adj s d v" "d \<le> maxD" for v d
  proof -
    have "v \<in> set vis" using bfs_inv_seen [OF 1(1), of maxD v d] d by (simp add: at_dist_def)
    then obtain e where e: "(v, e) \<in> set (done' @ [])" "at_dist adj s e v" using bfs_inv_label [OF 1(1)] by blast
    then show ?thesis using at_dist_unique [OF d(1) e(2)] by simp
  qed
  then show ?case using 1 by (auto intro: traversal_filter [OF 1(1)])
next
  case (2 adj minD maxD limit v d q vis result)
  define result' where "result' = (if minD \<le> d then result @ [(v, d)] else result)"
  have res': "result' = filter (\<lambda>p. minD \<le> snd p) (done' @ [(v, d)])"
    using 2(4) by (simp add: result'_def)
  have len: "length result' \<le> limit" using 2(5) by (simp add: result'_def)
  show ?case
  proof (cases "minD \<le> d \<and> limit \<le> length result'")
    case True
    have d: "\<And>p. p \<in> set ((v, d) # q) \<Longrightarrow> d \<le> snd p" "\<forall>p \<in> set done'. snd p \<le> d" "d \<le> maxD"
      using bfs_inv_sorted [OF 2(3)] bfs_inv_max [OF 2(3), of "(v, d)"] by (auto simp: sorted_append)
    have near: "(w, e) \<in> set done'" if w: "at_dist adj s e w" "e < d" for w e
    proof -
      have "w \<in> set vis" using bfs_inv_seen [OF 2(3) d(1), of w e] w d(3) by (simp add: at_dist_def)
      then obtain e' where e': "(w, e') \<in> set (done' @ (v, d) # q)" "at_dist adj s e' w"
        using bfs_inv_label [OF 2(3)] by blast
      then have "(w, e) \<in> set (done' @ (v, d) # q)" using at_dist_unique [OF w(1) e'(2)] by simp
      then show ?thesis using d(1) [of "(w, e)"] w(2) by auto
    qed
    show ?thesis
    proof (cases "maxD \<le> d")
      case T: True
      show ?thesis
        using traversal_filter [OF bfs_inv_pop [OF 2(3) T], of minD limit] True len near d(2) res'
        by (force simp: result'_def Let_def)
    next
      case F: False
      show ?thesis
        using traversal_filter [OF bfs_inv_step [OF 2(3) _ distinct_fresh set_fresh], of minD limit] True len near d(2) res' F
        by (force simp: result'_def Let_def)
    qed
  next
    case F: False
    then have len': "length result' < limit" using 2(5) by (auto simp: result'_def)
    show ?thesis
    proof (cases "maxD \<le> d")
      case True
      then show ?thesis
        using 2(1) [OF result'_def F True bfs_inv_pop [OF 2(3) True] res' len'] F
        by (auto simp: result'_def [symmetric] Let_def)
    next
      case False
      have "bfs_inv adj s maxD (done' @ [(v, d)]) (snd (enqueue_new (Suc d) (adj v) vis q))
          (set (fst (enqueue_new (Suc d) (adj v) vis q)))"
        using bfs_inv_step [OF 2(3) _ distinct_fresh set_fresh] False
        by (simp add: enqueue_new_eq set_fresh Un_Diff_cancel)
      from 2(2) [OF result'_def F False this res' len'] show ?thesis
        using F False by (auto simp: result'_def [symmetric] Let_def)
    qed
  qed
qed

lemma clamp_pos: "0 < def' \<Longrightarrow> 0 < ceiling \<Longrightarrow> 0 < clamp def' ceiling x"
  by (simp add: clamp_def)

lemma bfs_traversal:
  "traversal adj s (nat minDepth) (clamp defaultTraverseDepth maxTraverseDepth maxDepth)
     (clamp defaultTraverseLimit maxTraverseLimit limit) (bfs adj s minDepth maxDepth limit)"
  unfolding bfs_def
  by (rule bfs_loop_traversal [where done' = "[]"])
    (simp_all add: bfs_inv_init clamp_pos defaultTraverseLimit_def maxTraverseLimit_def)


section \<open>Shortest path is correct\<close>

text \<open>
  The predecessor map: the start has the empty predecessor, any other labelled vertex one of the
  depth before, along an edge. Vertices have non-empty names (the snapshot leaves others out).
\<close>

definition prev_ok :: "(string \<Rightarrow> string list) \<Rightarrow> string \<Rightarrow> queue_item list \<Rightarrow> string gomap \<Rightarrow> bool" where
  "prev_ok adj s all prev \<longleftrightarrow> (\<forall>(v, d) \<in> set all. v \<noteq> [] \<and>
     (case d of 0 \<Rightarrow> v = s \<and> map_of prev v = Some []
      | Suc e \<Rightarrow> \<exists>u. map_of prev v = Some u \<and> (u, e) \<in> set all \<and> v \<in> set (adj u)))"

lemma prev_okD:
  assumes "prev_ok adj s all prev"
  shows "(v, d) \<in> set all \<Longrightarrow> v \<noteq> []"
    and "(v, 0) \<in> set all \<Longrightarrow> v = s \<and> map_of prev v = Some []"
    and "(v, Suc e) \<in> set all \<Longrightarrow> \<exists>u. map_of prev v = Some u \<and> (u, e) \<in> set all \<and> v \<in> set (adj u)"
  using assms unfolding prev_ok_def by (fastforce split: nat.splits)+

lemma rebuild_chain:
  assumes ok: "prev_ok adj s all prev" and "(x, d) \<in> set all" and "d < fuel"
  shows "length (rebuild fuel prev x) = d \<and> last (x # rebuild fuel prev x) = s
    \<and> successively (\<lambda>a b. a \<in> set (adj b)) (x # rebuild fuel prev x)"
  using assms(2,3)
proof (induction d arbitrary: x fuel)
  case 0
  then show ?case using prev_okD(2) [OF ok, of x] by (cases fuel) auto
next
  case (Suc d)
  obtain u where u: "map_of prev x = Some u" "(u, d) \<in> set all" "x \<in> set (adj u)"
    using prev_okD(3) [OF ok Suc.prems(1)] by blast
  obtain f where f: "fuel = Suc f" "d < f" using Suc.prems(2) by (cases fuel) auto
  have "u \<noteq> []" using prev_okD(1) [OF ok u(2)] .
  then have "rebuild fuel prev x = u # rebuild f prev u" using u(1) f(1) by simp
  then show ?case using Suc.IH [OF u(2) f(2)] u(3) by simp
qed

lemma depth_less_length:
  assumes ok: "prev_ok adj s all prev" and "(x, d) \<in> set all"
  shows "d < card {p \<in> set all. snd p \<le> d}"
  using assms(2)
proof (induction d arbitrary: x)
  case 0
  then have "{p \<in> set all. snd p \<le> 0} \<noteq> {}" by force
  then show ?case by (simp add: card_gt_0_iff)
next
  case (Suc d)
  obtain u where "(u, d) \<in> set all" using prev_okD(3) [OF ok Suc.prems] by blast
  from Suc.IH [OF this] have "Suc d \<le> card {p \<in> set all. snd p \<le> d}" by simp
  also have "\<dots> < card {p \<in> set all. snd p \<le> Suc d}"
    using Suc.prems by (intro psubset_card_mono) force+
  finally show ?case .
qed

definition is_path :: "(string \<Rightarrow> string list) \<Rightarrow> string \<Rightarrow> string \<Rightarrow> string list \<Rightarrow> bool" where
  "is_path adj from to p \<longleftrightarrow> p \<noteq> [] \<and> hd p = from \<and> last p = to \<and> successively (\<lambda>a b. b \<in> set (adj a)) p"

lemma path_to_path:
  assumes ok: "prev_ok adj s all prev" and "(x, d) \<in> set all" and "length all \<le> length prev"
  shows "is_path adj s x (path_to prev x) \<and> length (path_to prev x) = Suc d"
proof -
  have "card {p \<in> set all. snd p \<le> d} \<le> length all"
    by (rule le_trans [OF card_mono card_length]) auto
  then have "d < length prev" using depth_less_length [OF assms(1,2)] assms(3) by simp
  from rebuild_chain [OF assms(1,2) this] show ?thesis
    by (auto simp: is_path_def path_to_def last_rev hd_rev successively_rev simp del: rev.simps last.simps)
qed

lemma sp_visit_eq:
  "to \<notin> keys prev \<Longrightarrow> sp_visit to cur d ns prev q =
     (let new = fresh (map fst prev) ns in
      if to \<in> set ns then Inl (prev @ map (\<lambda>n. (n, cur)) (takeWhile (\<lambda>n. n \<noteq> to) new @ [to]))
      else Inr (prev @ map (\<lambda>n. (n, cur)) new, q @ map (\<lambda>n. (n, d)) new))"
proof (induction to cur d ns prev q rule: sp_visit.induct)
  case (2 to cur d n ns prev q)
  show ?case
  proof (cases "map_of prev n = None")
    case True
    then have "n \<notin> keys prev" by (simp add: map_of_None_keys)
    then show ?thesis using 2 True by (auto simp: Let_def mput_absent)
  next
    case False
    then have "n \<in> keys prev" "n \<noteq> to" using 2(3) by (auto simp: map_of_eq_None_iff)
    then show ?thesis using 2(1) 2(3) False by (auto simp: Let_def)
  qed
qed simp

lemma map_of_extend:
  "set ns \<inter> keys prev = {} \<Longrightarrow> map_of (prev @ map (\<lambda>n. (n, c)) ns) v
    = (if v \<in> set ns then Some c else map_of prev v)"
  by (auto simp: map_of_append map_add_def map_of_map_restrict restrict_map_def map_of_None_keys
      split: option.splits) (metis disjoint_iff map_of_None_keys option.distinct(1))+

lemma prev_ok_extend:
  assumes ok: "prev_ok adj s all prev" and "(v, d) \<in> set all" and "set ns \<subseteq> set (adj v)"
    and "set ns \<inter> keys prev = {}" and "[] \<notin> set ns" and "fst ` set all \<subseteq> keys prev"
  shows "prev_ok adj s (all @ map (\<lambda>n. (n, Suc d)) ns) (prev @ map (\<lambda>n. (n, v)) ns)"
  unfolding prev_ok_def
proof (rule ballI, clarify)
  fix w e assume "(w, e) \<in> set (all @ map (\<lambda>n. (n, Suc d)) ns)"
  then consider (old) "(w, e) \<in> set all" | (new) "w \<in> set ns" "e = Suc d" by auto
  then show "w \<noteq> [] \<and> (case e of 0 \<Rightarrow> w = s \<and> map_of (prev @ map (\<lambda>n. (n, v)) ns) w = Some []
      | Suc e \<Rightarrow> \<exists>u. map_of (prev @ map (\<lambda>n. (n, v)) ns) w = Some u
          \<and> (u, e) \<in> set (all @ map (\<lambda>n. (n, Suc d)) ns) \<and> w \<in> set (adj u))"
  proof cases
    case old
    then have "w \<notin> set ns" using assms(4,6) by force
    then have m: "map_of (prev @ map (\<lambda>n. (n, v)) ns) w = map_of prev w"
      using map_of_extend [OF assms(4)] by simp
    show ?thesis
    proof (cases e)
      case 0
      then show ?thesis unfolding m using prev_okD(1,2) [OF ok] old by auto
    next
      case (Suc e')
      then show ?thesis unfolding m using prev_okD(1) [OF ok old] prev_okD(3) [OF ok, of w e'] old by auto
    qed
  next
    case new
    then have "map_of (prev @ map (\<lambda>n. (n, v)) ns) w = Some v" using map_of_extend [OF assms(4)] by simp
    then show ?thesis using new assms(2,3,5) by auto
  qed
qed


text \<open>The search, from any point of its run.\<close>

lemma sp_loop_correct:
  assumes "bfs_inv adj s maxD done' q (keys prev)" and "prev_ok adj s (done' @ q) prev"
    and "to \<notin> keys prev" and "length (done' @ q) \<le> length prev" and "\<And>v. [] \<notin> set (adj v)"
  shows "case sp_loop adj to maxD q prev of
      Some p \<Rightarrow> is_path adj s to p \<and> at_dist adj s (length p - 1) to \<and> length p - 1 \<le> maxD
    | None \<Rightarrow> \<forall>k \<le> maxD. (s, to) \<notin> step adj ^^ k"
  using assms
proof (induction adj to maxD q prev arbitrary: done' rule: sp_loop.induct)
  case (1 adj to maxD prev)
  then show ?case using bfs_inv_seen [OF 1(1), of maxD to] by auto
next
  case (2 adj to maxD v d q prev)
  let ?done = "done' @ [(v, d)]"
  have all: "?done @ q = done' @ (v, d) # q" by simp
  show ?case
  proof (cases "maxD \<le> d")
    case True
    then show ?thesis using 2(1) [OF True bfs_inv_pop [OF 2(3) True]] 2(4-7) by simp
  next
    case False
    let ?new = "fresh (map fst prev) (adj v)"
    have new: "set ?new = set (adj v) - keys prev" "distinct ?new"
      by (simp_all add: set_fresh distinct_fresh)
    have mem: "(v, d) \<in> set (?done @ q)" by simp
    have vis: "fst ` set (?done @ q) \<subseteq> keys prev" using bfs_inv_vis [OF 2(3)] by simp
    have ok: "prev_ok adj s (?done @ q) prev" using 2(4) by simp
    have ext: "prev_ok adj s ((?done @ q) @ map (\<lambda>n. (n, Suc d)) ns) (prev @ map (\<lambda>n. (n, v)) ns)"
      if "set ns \<subseteq> set ?new" for ns
      using that new(1) 2(7) [of v] by (intro prev_ok_extend [OF ok mem _ _ _ vis]) auto
    have "bfs_inv adj s maxD ?done (q @ map (\<lambda>n. (n, Suc d)) ?new) (keys prev \<union> set (adj v))"
      using bfs_inv_step [OF 2(3) _ new(2) new(1)] False by simp
    then have inv: "bfs_inv adj s maxD ?done (q @ map (\<lambda>n. (n, Suc d)) ?new) (keys (prev @ map (\<lambda>n. (n, v)) ?new))"
      by (simp add: image_Un image_image new(1) Un_Diff_cancel)
    note visit = sp_visit_eq [OF 2(5), of v "Suc d" "adj v" q, unfolded Let_def]
    show ?thesis
    proof (cases "to \<in> set (adj v)")
      case True
      let ?ns = "takeWhile (\<lambda>n. n \<noteq> to) ?new @ [to]"
      let ?prev = "prev @ map (\<lambda>n. (n, v)) ?ns"
      have "to \<in> set ?new" using True 2(5) new(1) by simp
      then have sub: "set ?ns \<subseteq> set ?new" by (auto dest: set_takeWhileD)
      have "at_dist adj s (Suc d) to" using bfs_inv_dist [OF inv, of "(to, Suc d)"] \<open>to \<in> set ?new\<close> by simp
      moreover have "is_path adj s to (path_to ?prev to) \<and> length (path_to ?prev to) = Suc (Suc d)"
        using 2(6) by (intro path_to_path [OF ext [OF sub]]) simp_all
      ultimately show ?thesis using visit True False by simp
    next
      case F: False
      then have v: "sp_visit to v (Suc d) (adj v) prev q
          = Inr (prev @ map (\<lambda>n. (n, v)) ?new, q @ map (\<lambda>n. (n, Suc d)) ?new)" using visit by simp
      have to: "to \<notin> keys (prev @ map (\<lambda>n. (n, v)) ?new)" using 2(5) F new(1) by (auto simp: image_image)
      have "prev_ok adj s (?done @ q @ map (\<lambda>n. (n, Suc d)) ?new) (prev @ map (\<lambda>n. (n, v)) ?new)"
        using ext [of ?new] by simp
      moreover have "length (?done @ q @ map (\<lambda>n. (n, Suc d)) ?new) \<le> length (prev @ map (\<lambda>n. (n, v)) ?new)"
        using 2(6) by simp
      ultimately show ?thesis using 2(2) [OF False v refl inv _ to _ 2(7)] False v by simp
    qed
  qed
qed

lemma shortest_correct:
  assumes "from \<noteq> []" and "\<And>v. [] \<notin> set (adj v)"
  shows "case shortest adj from to maxDepth of
      Some p \<Rightarrow> is_path adj from to p \<and> at_dist adj from (length p - 1) to
        \<and> (from = to \<or> length p - 1 \<le> clamp defaultPathDepth maxPathDepth maxDepth)
    | None \<Rightarrow> \<forall>k \<le> clamp defaultPathDepth maxPathDepth maxDepth. (from, to) \<notin> step adj ^^ k"
proof (cases "from = to")
  case True
  then show ?thesis by (simp add: shortest_def is_path_def)
next
  case False
  have inv: "bfs_inv adj from D [] [(from, 0)] (keys [(from, [])])" for D
    using bfs_inv_init by simp
  have ok: "prev_ok adj from ([] @ [(from, 0)]) [(from, [])]" using assms(1) by (simp add: prev_ok_def)
  show ?thesis
    using sp_loop_correct [OF inv ok _ _ assms(2), of to "clamp defaultPathDepth maxPathDepth maxDepth"] False
    by (simp add: shortest_def del: sp_loop.simps split: option.splits)
qed

end
