(* ===== verification/Go_Sort.thy ===== *)
theory Go_Sort
  imports Prelude "HOL-Library.Multiset"
begin

text \<open>
  \<open>sort.SliceStable\<close> of the Go library when its comparison looks at positions only
  (\<open>less i j\<close> does not read the slice being sorted). On a comparison that does follow the elements
  the library returns the stable sort, which the model writes \<open>sort_key\<close>; a comparison by position
  over keys computed before the sort is not an order on the elements once they move, and what comes
  out is what the algorithm happens to do: insertion sort on blocks of 20, then symmetric merges.
\<close>

definition swap :: "nat \<Rightarrow> nat \<Rightarrow> 'a list \<Rightarrow> 'a list" where
  "swap i j xs = xs[i := xs ! j, j := xs ! i]"

lemma length_swap [simp]: "length (swap i j xs) = length xs"
  by (simp add: swap_def)

text \<open>The inner loop of \<open>insertionSort\<close>: element \<open>j\<close> moves down to \<open>a\<close> while it is less.\<close>

fun sift_down :: "(nat \<Rightarrow> nat \<Rightarrow> bool) \<Rightarrow> nat \<Rightarrow> nat \<Rightarrow> 'a list \<Rightarrow> 'a list" where
  "sift_down lt a 0 xs = xs"
| "sift_down lt a (Suc j) xs =
     (if a < Suc j \<and> lt (Suc j) j then sift_down lt a j (swap (Suc j) j xs) else xs)"

definition insertion_sort :: "(nat \<Rightarrow> nat \<Rightarrow> bool) \<Rightarrow> nat \<Rightarrow> nat \<Rightarrow> 'a list \<Rightarrow> 'a list" where
  "insertion_sort lt a b xs = foldl (\<lambda>xs i. sift_down lt a i xs) xs [Suc a..<b]"

text \<open>\<open>rotate\<close> exchanges the adjacent blocks \<open>[a, m)\<close> and \<open>[m, b)\<close>.\<close>

definition rotate_blocks :: "nat \<Rightarrow> nat \<Rightarrow> nat \<Rightarrow> 'a list \<Rightarrow> 'a list" where
  "rotate_blocks a m b xs = take a xs @ take (b - m) (drop m xs) @ take (m - a) (drop a xs) @ drop b xs"

text \<open>A binary search between \<open>i\<close> and \<open>j\<close>: the first position where \<open>P\<close> holds.\<close>

function bin_search :: "(nat \<Rightarrow> bool) \<Rightarrow> nat \<Rightarrow> nat \<Rightarrow> nat" where
  "bin_search P i j = (if i < j then let h = (i + j) div 2 in if P h then bin_search P i h else bin_search P (Suc h) j else i)"
  by pat_completeness auto
termination
  by (relation "measure (\<lambda>(P, i, j). j - i)") auto

declare bin_search.simps [simp del]

lemma bin_search_range: "i \<le> j \<Longrightarrow> i \<le> bin_search P i j \<and> bin_search P i j \<le> j"
proof (induction P i j rule: bin_search.induct)
  case (1 P i j)
  show ?case
  proof (cases "i < j")
    case True
    let ?h = "(i + j) div 2"
    have "i \<le> ?h" "Suc ?h \<le> j" using True by auto
    then show ?thesis
      using 1(1) [OF True refl] 1(2) [OF True refl] by (subst (1 2) bin_search.simps) (auto simp: Let_def True)
  qed (use 1(3) in \<open>simp add: bin_search.simps\<close>)
qed

text \<open>\<open>symMerge\<close> of the blocks \<open>[a, m)\<close> and \<open>[m, b)\<close>; the recursion splits at the middle.\<close>

definition merge_start :: "(nat \<Rightarrow> nat \<Rightarrow> bool) \<Rightarrow> nat \<Rightarrow> nat \<Rightarrow> nat \<Rightarrow> nat" where
  "merge_start lt a m b =
     (let mid = (a + b) div 2; n = mid + m; p = n - 1
      in if mid < m then bin_search (\<lambda>c. lt (p - c) c) (n - b) mid
         else bin_search (\<lambda>c. lt (p - c) c) a m)"

lemma mid_less: "a < m \<Longrightarrow> m < b \<Longrightarrow> (a + b) div 2 - a < b - a" "a < m \<Longrightarrow> m < b \<Longrightarrow> b - (a + b) div 2 < b - a"
  for a m b :: nat
  by linarith+

function sym_merge :: "(nat \<Rightarrow> nat \<Rightarrow> bool) \<Rightarrow> nat \<Rightarrow> nat \<Rightarrow> nat \<Rightarrow> 'a list \<Rightarrow> 'a list" where
  "sym_merge lt a m b xs =
     (if m - a = 1 then rotate_blocks a m (bin_search (\<lambda>h. \<not> lt h a) m b) xs
      else if b - m = 1 then rotate_blocks (bin_search (\<lambda>h. lt m h) a m) m b xs
      else if \<not> (a < m \<and> m < b) then xs
      else
        let mid = (a + b) div 2;
            start = merge_start lt a m b;
            end' = mid + m - start;
            ys = (if start < m \<and> m < end' then rotate_blocks start m end' xs else xs);
            zs = (if a < start \<and> start < mid then sym_merge lt a start mid ys else ys)
        in if mid < end' \<and> end' < b then sym_merge lt mid end' b zs else zs)"
  by pat_completeness auto
termination
proof (relation "measure (\<lambda>(lt, a, m, b, xs). b - a)", goal_cases)
  case (2 lt a m b xs mid start end' ys)
  then show ?case using mid_less(1) [of a m b] by simp
next
  case (3 lt a m b xs mid start end' ys zs)
  then show ?case using mid_less(2) [of a m b] by simp
qed simp

declare sym_merge.simps [simp del]

text \<open>\<open>stable\<close>: the blocks sorted, then merged pairwise with doubling size.\<close>

definition sort_blocks :: "(nat \<Rightarrow> nat \<Rightarrow> bool) \<Rightarrow> nat \<Rightarrow> 'a list \<Rightarrow> 'a list" where
  "sort_blocks lt blk xs =
     foldl (\<lambda>xs a. insertion_sort lt a (min (a + blk) (length xs)) xs) xs
       (map (\<lambda>k. k * blk) [0..<(length xs + blk - 1) div blk])"

definition merge_blocks :: "(nat \<Rightarrow> nat \<Rightarrow> bool) \<Rightarrow> nat \<Rightarrow> nat \<Rightarrow> 'a list \<Rightarrow> 'a list" where
  "merge_blocks lt n blk xs =
     foldl (\<lambda>xs a. if a + blk < n then sym_merge lt a (a + blk) (min (a + 2 * blk) n) xs else xs) xs
       (map (\<lambda>k. k * (2 * blk)) [0..<(n + 2 * blk - 1) div (2 * blk)])"

function merge_all :: "(nat \<Rightarrow> nat \<Rightarrow> bool) \<Rightarrow> nat \<Rightarrow> nat \<Rightarrow> 'a list \<Rightarrow> 'a list" where
  "merge_all lt n blk xs =
     (if 0 < blk \<and> blk < n then merge_all lt n (2 * blk) (merge_blocks lt n blk xs) else xs)"
  by pat_completeness auto
termination
  by (relation "measure (\<lambda>(lt, n, blk, xs). n - blk)") auto

declare merge_all.simps [simp del]

definition stable_by_position :: "(nat \<Rightarrow> nat \<Rightarrow> bool) \<Rightarrow> 'a list \<Rightarrow> 'a list" where
  "stable_by_position lt xs = merge_all lt (length xs) 20 (sort_blocks lt 20 xs)"

section \<open>Nothing is lost\<close>

lemma mset_swap_list: "i < length xs \<Longrightarrow> j < length xs \<Longrightarrow> mset (swap i j xs) = mset xs"
  by (simp add: swap_def mset_swap)

lemma mset_rotate_blocks:
  assumes "a \<le> m" and "m \<le> b"
  shows "mset (rotate_blocks a m b xs) = mset xs"
proof -
  have "xs = take a xs @ take (m - a) (drop a xs) @ take (b - m) (drop m xs) @ drop b xs"
    using assms by (metis append_take_drop_id drop_drop le_add_diff_inverse add.commute)
  then have "mset xs = mset (take a xs) + mset (take (m - a) (drop a xs)) + mset (take (b - m) (drop m xs)) + mset (drop b xs)"
    by (metis mset_append add.assoc)
  then show ?thesis by (simp add: rotate_blocks_def)
qed

lemma mset_sift_down: "j < length xs \<Longrightarrow> mset (sift_down lt a j xs) = mset xs"
  by (induction lt a j xs rule: sift_down.induct) (auto simp: mset_swap_list)

lemma mset_length: "mset xs = mset ys \<Longrightarrow> length xs = length ys"
  by (metis size_mset)

lemma mset_insertion_sort: "b \<le> length xs \<Longrightarrow> mset (insertion_sort lt a b xs) = mset xs"
proof -
  have "\<forall>i \<in> set is. i < length xs \<Longrightarrow> mset (foldl (\<lambda>xs i. sift_down lt a i xs) xs is) = mset xs" for "is"
  proof (induction "is" arbitrary: xs)
    case (Cons i "is")
    then have m: "mset (sift_down lt a i xs) = mset xs" by (simp add: mset_sift_down)
    then show ?case using Cons mset_length [OF m] by simp
  qed simp
  then show "b \<le> length xs \<Longrightarrow> ?thesis" unfolding insertion_sort_def by simp
qed


lemma mset_sym_merge: "a \<le> m \<Longrightarrow> m \<le> b \<Longrightarrow> mset (sym_merge lt a m b xs) = mset xs"
proof (induction lt a m b xs rule: sym_merge.induct)
  case (1 lt a m b xs)
  have i: "m \<le> bin_search P m b" "a \<le> bin_search P a m" "bin_search P a m \<le> m" for P
    using bin_search_range [of m b P] bin_search_range [of a m P] 1(3,4) by auto
  show ?case
  proof (cases "m - a = 1 \<or> b - m = 1 \<or> \<not> (a < m \<and> m < b)")
    case True
    then show ?thesis
      using i 1(3,4) by (subst sym_merge.simps) (auto intro!: mset_rotate_blocks)
  next
    case False
    define mid where "mid = (a + b) div 2"
    define start where "start = merge_start lt a m b"
    define end' where "end' = mid + m - start"
    define ys where "ys = (if start < m \<and> m < end' then rotate_blocks start m end' xs else xs)"
    define zs where "zs = (if a < start \<and> start < mid then sym_merge lt a start mid ys else ys)"
    have n: "m - a \<noteq> 1" "b - m \<noteq> 1" "\<not> \<not> (a < m \<and> m < b)" using False by auto
    have ys: "mset ys = mset xs" by (simp add: ys_def mset_rotate_blocks)
    have zs: "mset zs = mset ys"
      using 1(1) [OF n mid_def start_def end'_def ys_def] by (auto simp: zs_def)
    have "mset (if mid < end' \<and> end' < b then sym_merge lt mid end' b zs else zs) = mset zs"
      using 1(2) [OF n mid_def start_def end'_def ys_def zs_def] by auto
    moreover have "sym_merge lt a m b xs = (if mid < end' \<and> end' < b then sym_merge lt mid end' b zs else zs)"
      using n by (subst sym_merge.simps) (simp add: Let_def mid_def start_def end'_def ys_def zs_def)
    ultimately show ?thesis using ys zs by simp
  qed
qed

lemma mset_foldl: "(\<And>ys x. x \<in> set as \<Longrightarrow> mset ys = mset xs \<Longrightarrow> mset (f ys x) = mset ys) \<Longrightarrow> mset (foldl f xs as) = mset xs"
proof (induction as arbitrary: xs)
  case (Cons a as)
  have a: "mset (f xs a) = mset xs" using Cons.prems [of a xs] by simp
  have "mset (foldl f (f xs a) as) = mset (f xs a)" using Cons.IH [of "f xs a"] Cons.prems a by auto
  then show ?case using a by simp
qed simp

lemma mset_sort_blocks: "mset (sort_blocks lt blk xs) = mset xs"
  unfolding sort_blocks_def by (rule mset_foldl) (auto simp: mset_insertion_sort dest: mset_length)

lemma mset_merge_blocks: "mset (merge_blocks lt n blk xs) = mset xs"
  unfolding merge_blocks_def by (rule mset_foldl) (auto simp: mset_sym_merge)

lemma mset_merge_all: "mset (merge_all lt n blk xs) = mset xs"
  by (induction lt n blk xs rule: merge_all.induct) (subst merge_all.simps, simp add: mset_merge_blocks)

lemma mset_stable_by_position: "mset (stable_by_position lt xs) = mset xs"
  by (simp add: stable_by_position_def mset_merge_all mset_sort_blocks)

end
