(* ===== verification/Planner.thy ===== *)
theory Planner
  imports Store_Ops Go_Sort
begin

text \<open>
  Queries of \<open>db/store.go\<close> (\<open>Find\<close>, \<open>Count\<close>, \<open>Explain\<close>) and \<open>db/parallel.go\<close>: the planner that picks
  indexes for a filter, the materialization of candidates (in chunks, as the workers take them), the
  ordering of results, skip, limit and projection. A search in an index may sort its key list, so the
  planner returns the indexes as well. Three things are parameters: \<open>rx\<close> the regular expressions,
  \<open>procs\<close> what \<open>runtime.GOMAXPROCS(0)\<close> answers, and \<open>walk\<close> the order in which ranging over the map
  of candidate ids visits them. The chunks of a parallel materialization run one after the other
  here; they only read documents and touch the cache.
\<close>

section \<open>Equality and range conditions\<close>

function equalityValues :: "jval \<Rightarrow> jval list option" where
  "equalityValues cond =
     (case cond of
        JDoc ops \<Rightarrow>
          if \<not> hasOpKeys ops then Some [cond]
          else (case map_of ops ''$eq'' of
              Some eq \<Rightarrow> if length ops = 1 then Some [eq] else None
            | None \<Rightarrow> (case map_of ops ''$in'' of
                  Some in' \<Rightarrow> if length ops = 1
                              then (case toAnyList in' of Inl _ \<Rightarrow> None | Inr l \<Rightarrow> Some l) else None
                | None \<Rightarrow> None))
      | JMap ops \<Rightarrow> if \<not> hasOpKeys ops then Some [cond] else equalityValues (JDoc ops)
      | _ \<Rightarrow> Some [cond])"
  by pat_completeness auto
termination
  by (relation "measure (\<lambda>v. case v of JMap _ \<Rightarrow> 1 | _ \<Rightarrow> (0 :: nat))") auto

fun range_ops :: "document \<Rightarrow> range_bound \<Rightarrow> range_bound option" where
  "range_ops [] rb = Some rb"
| "range_ops ((op, arg) # ops) rb =
     (if op = ''$gt'' \<or> op = ''$gte'' then
        (if rb_hasLo rb then None
         else range_ops ops (rb\<lparr>rb_hasLo := True, rb_lo := arg, rb_loIncl := op = ''$gte''\<rparr>))
      else if op = ''$lt'' \<or> op = ''$lte'' then
        (if rb_hasHi rb then None
         else range_ops ops (rb\<lparr>rb_hasHi := True, rb_hi := arg, rb_hiIncl := op = ''$lte''\<rparr>))
      else None)"

definition rangeValues :: "jval \<Rightarrow> range_bound option" where
  "rangeValues cond =
     (case opsOf cond of None \<Rightarrow> None
      | Some ops \<Rightarrow> if ops = [] then None else range_ops ops empty_bound)"

section \<open>The planner\<close>

record field_plan =
  fp_field :: string
  fp_eqVals :: "jval list"
  fp_isEq :: bool
  fp_rb :: range_bound
  fp_isRange :: bool
  fp_blocked :: bool

definition classify :: "string \<times> jval \<Rightarrow> field_plan" where
  "classify p =
     (let none = \<lparr>fp_field = fst p, fp_eqVals = [], fp_isEq = False, fp_rb = empty_bound,
                  fp_isRange = False, fp_blocked = False\<rparr>
      in if isLogicalOp (fst p) then none\<lparr>fp_blocked := True\<rparr>
         else case equalityValues (snd p) of
           Some vals \<Rightarrow> none\<lparr>fp_eqVals := vals, fp_isEq := True\<rparr>
         | None \<Rightarrow> (case rangeValues (snd p) of
               Some rb \<Rightarrow> none\<lparr>fp_rb := rb, fp_isRange := True\<rparr>
             | None \<Rightarrow> none\<lparr>fp_blocked := True\<rparr>))"

text \<open>\<open>pr_cand\<close> and \<open>pr_order\<close> are \<open>None\<close> where the Go map or slice is nil.\<close>

record plan_result =
  pr_cand :: "string list option"
  pr_order :: "string list option"
  pr_orderField :: string
  pr_exact :: bool
  pr_used :: bool
  pr_index :: "string list"
  pr_covered :: "string list"

definition no_plan :: "bool \<Rightarrow> plan_result" where
  "no_plan exact = \<lparr>pr_cand = None, pr_order = None, pr_orderField = [], pr_exact = exact,
     pr_used = False, pr_index = [], pr_covered = []\<rparr>"

definition singleEqualityFor :: "field_plan list \<Rightarrow> string \<Rightarrow> jval option" where
  "singleEqualityFor plans field =
     (case find (\<lambda>fp. fp_field fp = field \<and> fp_isEq fp \<and> length (fp_eqVals fp) = 1) plans of
        None \<Rightarrow> None | Some fp \<Rightarrow> Some (hd (fp_eqVals fp)))"

definition intersectIDs :: "string list \<Rightarrow> string list \<Rightarrow> string list" where
  "intersectIDs dst src = filter (\<lambda>i. i \<in> set src) dst"

definition narrow :: "string list option \<Rightarrow> string list \<Rightarrow> string list" where
  "narrow cand got = (case cand of None \<Rightarrow> got | Some c \<Rightarrow> intersectIDs c got)"

text \<open>The leading fields of a compound index that have a single equality value.\<close>

fun leading_values :: "field_plan list \<Rightarrow> string list \<Rightarrow> jval list \<times> string list" where
  "leading_values plans [] = ([], [])"
| "leading_values plans (f # fs) =
     (case singleEqualityFor plans f of
        None \<Rightarrow> ([], [])
      | Some v \<Rightarrow> (case leading_values plans fs of (vs, cov) \<Rightarrow> (v # vs, f # cov)))"

definition use_compound :: "field_plan list \<Rightarrow> index \<Rightarrow> plan_result \<times> string list \<Rightarrow> index \<times> plan_result \<times> string list" where
  "use_compound plans idx st =
     (let (res, consumed) = st; (vals, cov) = leading_values plans (ix_fields idx) in
      if length (ix_fields idx) < 2 \<or> cov = [] then (idx, st)
      else let (idx', got) = seekPrefix idx vals
        in (idx', res\<lparr>pr_cand := Some (narrow (pr_cand res) got), pr_used := True, pr_index := ix_fields idx,
              pr_covered := pr_covered res @ cov\<rparr>, consumed @ cov))"

fun plan_compound :: "field_plan list \<Rightarrow> index list \<Rightarrow> plan_result \<times> string list \<Rightarrow> index list \<times> plan_result \<times> string list" where
  "plan_compound plans [] st = ([], st)"
| "plan_compound plans (idx # idxs) st =
     (let (idx', st1) = use_compound plans idx st; (idxs', st2) = plan_compound plans idxs st1
      in (idx' # idxs', st2))"

text \<open>Run \<open>f\<close> on the first index that satisfies \<open>P\<close>.\<close>

fun with_first :: "(index \<Rightarrow> bool) \<Rightarrow> (index \<Rightarrow> index \<times> 'a) \<Rightarrow> index list \<Rightarrow> (index list \<times> index \<times> 'a) option" where
  "with_first P f [] = None"
| "with_first P f (idx # idxs) =
     (if P idx then (case f idx of (idx', x) \<Rightarrow> Some (idx' # idxs, idx, x))
      else map_option (\<lambda>(idxs', i, x). (idx # idxs', i, x)) (with_first P f idxs))"

definition single_on :: "string \<Rightarrow> index \<Rightarrow> bool" where
  "single_on field idx \<longleftrightarrow> ix_fields idx = [field]"

definition leads_with :: "string \<Rightarrow> index \<Rightarrow> bool" where
  "leads_with field idx \<longleftrightarrow> (case ix_fields idx of [] \<Rightarrow> False | f # _ \<Rightarrow> f = field)"

fun lookup_all :: "jval list \<Rightarrow> index \<Rightarrow> string list" where
  "lookup_all [] idx = []"
| "lookup_all (v # vs) idx = union_ids (lookupIDs idx [v]) (lookup_all vs idx)"

fun seek_all :: "jval list \<Rightarrow> index \<Rightarrow> index \<times> string list" where
  "seek_all [] idx = (idx, [])"
| "seek_all (v # vs) idx =
     (let (idx1, got) = seekPrefix idx [v]; (idx2, more) = seek_all vs idx1 in (idx2, union_ids got more))"

definition seekEqualityField :: "index list \<Rightarrow> string \<Rightarrow> jval list \<Rightarrow> (index list \<times> index \<times> string list) option" where
  "seekEqualityField idxs field vals =
     (case with_first (single_on field) (\<lambda>idx. (idx, lookup_all vals idx)) idxs of
        Some r \<Rightarrow> Some r
      | None \<Rightarrow> with_first (\<lambda>idx. 1 < length (ix_fields idx) \<and> leads_with field idx) (seek_all vals) idxs)"

definition plan_field :: "string list \<Rightarrow> field_plan \<Rightarrow> index list \<times> plan_result \<Rightarrow> index list \<times> plan_result" where
  "plan_field consumed fp st =
     (let (idxs, res) = st; inexact = (idxs, res\<lparr>pr_exact := False\<rparr>) in
      if fp_blocked fp then inexact
      else if fp_field fp \<in> set consumed then st
      else if fp_isEq fp then
        (case seekEqualityField idxs (fp_field fp) (fp_eqVals fp) of
           None \<Rightarrow> inexact
         | Some (idxs', idx, got) \<Rightarrow>
             (idxs', res\<lparr>pr_cand := Some (narrow (pr_cand res) got), pr_used := True, pr_index := ix_fields idx,
                pr_covered := pr_covered res @ [fp_field fp]\<rparr>))
      else if fp_isRange fp then
        (case with_first (leads_with (fp_field fp)) (\<lambda>idx. seekRange idx (fp_rb fp)) idxs of
           None \<Rightarrow> inexact
         | Some (idxs', idx, ids) \<Rightarrow>
             (let order = (case pr_cand res of
                             None \<Rightarrow> if ids = [] then None else Some ids
                           | Some c \<Rightarrow> Some (filter (\<lambda>i. i \<in> set c) ids))
              in (idxs', res\<lparr>pr_cand := Some (narrow (pr_cand res) (remdups ids)), pr_order := order,
                    pr_orderField := fp_field fp, pr_used := True, pr_index := ix_fields idx, pr_exact := False\<rparr>)))
      else inexact)"

definition planCandidates :: "index list \<Rightarrow> document \<Rightarrow> index list \<times> plan_result" where
  "planCandidates idxs flt =
     (if flt = [] \<or> idxs = [] then (idxs, no_plan (flt = []))
      else
        let plans = map classify flt;
            (idxs1, res1, consumed) = plan_compound plans idxs (no_plan True, []);
            (idxs2, res2) = fold (plan_field consumed) plans (idxs1, res1)
        in if \<not> pr_used res2 then (idxs2, no_plan False)
           else let order = (case (pr_order res2, pr_cand res2) of
                               (Some o', Some c) \<Rightarrow> Some (filter (\<lambda>i. i \<in> set c) o')
                             | _ \<Rightarrow> pr_order res2)
             in (idxs2, res2\<lparr>pr_order := order,
                   pr_exact := pr_exact res2 \<and> length (pr_covered res2) = length flt\<rparr>))"

end
