(* ===== verification/Find.thy ===== *)
theory Find
  imports Planner
begin

text \<open>
  Running a query (\<open>db/store.go\<close>, \<open>db/parallel.go\<close>): candidates materialized, sorted, paged,
  projected and redacted; counting; \<open>Explain\<close>. The parameters are those of \<open>Planner\<close>.
\<close>

section \<open>Materialization (db/parallel.go)\<close>

fun materializeRefsSerial :: "regex_engine \<Rightarrow> collection \<Rightarrow> string list \<Rightarrow> document \<Rightarrow> bool \<Rightarrow> store \<Rightarrow> document list outcome" where
  "materializeRefsSerial rx c [] flt rematch s = (Inr [], s)"
| "materializeRefsSerial rx c (did # ids) flt rematch s =
     (case resident c did s of
        (Inl _, s1) \<Rightarrow> materializeRefsSerial rx c ids flt rematch s1
      | (Inr doc, s1) \<Rightarrow>
          guard_out (if rematch then match_doc rx doc flt else Inr True) s1 (\<lambda>s1.
            bind_out (materializeRefsSerial rx c ids flt rematch s1) (\<lambda>refs s2.
              (Inr (if rematch \<and> match_doc rx doc flt = Inr False then refs else doc # refs), s2))))"

definition parallelMinIDs :: nat where
  "parallelMinIDs = 512"

definition findWorkers :: "int \<Rightarrow> options \<Rightarrow> int" where
  "findWorkers procs o' =
     (if 0 < op_FindWorkers o' then op_FindWorkers o'
      else if op_FindWorkers o' < 0 then 1
      else if procs < 1 then 1 else procs)"

function chunks :: "nat \<Rightarrow> 'a list \<Rightarrow> 'a list list" where
  "chunks n xs = (if n = 0 \<or> xs = [] then [] else take n xs # chunks n (drop n xs))"
  by pat_completeness auto
termination
  by (relation "measure (\<lambda>(n, xs). length xs)") auto

declare chunks.simps [simp del]

fun run_chunks :: "regex_engine \<Rightarrow> collection \<Rightarrow> string list list \<Rightarrow> document \<Rightarrow> bool \<Rightarrow> store \<Rightarrow> document list res list \<times> store" where
  "run_chunks rx c [] flt rematch s = ([], s)"
| "run_chunks rx c (ids # idss) flt rematch s =
     (let (r, s1) = materializeRefsSerial rx c ids flt rematch s; (rs, s2) = run_chunks rx c idss flt rematch s1
      in (r # rs, s2))"

definition is_panic :: "'a res \<Rightarrow> bool" where
  "is_panic r = (case r of Inl (Panicked _) \<Rightarrow> True | _ \<Rightarrow> False)"

text \<open>A panic in a worker ends the program; otherwise the first error wins, else all results.\<close>

fun join_results :: "'a list res list \<Rightarrow> 'a list res" where
  "join_results [] = Inr []"
| "join_results (r # rs) = and_then r (\<lambda>xs. and_then (join_results rs) (\<lambda>ys. Inr (xs @ ys)))"

definition materializeRefs :: "regex_engine \<Rightarrow> int \<Rightarrow> collection \<Rightarrow> string list \<Rightarrow> document \<Rightarrow> bool \<Rightarrow> store \<Rightarrow> document list outcome" where
  "materializeRefs rx procs c ids flt rematch s =
     (let workers = findWorkers procs (st_opts s) in
      if ids = [] then (Inr [], s)
      else if workers \<le> 1 \<or> length ids < parallelMinIDs then materializeRefsSerial rx c ids flt rematch s
      else let n = length ids;
               chunk = max ((n + nat workers - 1) div nat workers) parallelMinIDs;
               (rs, s') = run_chunks rx c (chunks chunk ids) flt rematch s
           in (case find is_panic rs of Some r \<Rightarrow> r | None \<Rightarrow> join_results rs, s'))"

section \<open>Ordering\<close>

record find_options =
  fo_Sort :: "(string \<times> int) list"
  fo_Limit :: int
  fo_Skip :: int
  fo_Projection :: "string list"

definition doc_id :: "document \<Rightarrow> string option" where
  "doc_id d = (case map_of d ''_id'' of Some (JStr i) \<Rightarrow> Some i | _ \<Rightarrow> None)"

text \<open>Sorting by \<open>_id\<close> reads it as a string; any other value is a panic once two are compared.\<close>

definition sortRefsByID :: "document list \<Rightarrow> document list res" where
  "sortRefsByID refs =
     (if length refs < 2 then Inr refs
      else if \<exists>d \<in> set refs. doc_id d = None then Inl (Panicked ''interface conversion'')
      else Inr (sort_key (\<lambda>d. the (doc_id d)) refs))"

definition field_or_nil :: "string \<Rightarrow> document \<Rightarrow> jval" where
  "field_or_nil f d = (case map_of d f of Some v \<Rightarrow> v | None \<Rightarrow> JNull)"

definition before_by :: "int \<Rightarrow> jval \<Rightarrow> jval \<Rightarrow> bool" where
  "before_by dir a b = (let cmp = compareValues a b in if dir < 0 then 0 < cmp else cmp < 0)"

text \<open>One pass of \<open>sortBy\<close>: the keys are taken before the sort and stay where they are.\<close>

definition sort_pass :: "document list \<Rightarrow> string \<times> int \<Rightarrow> document list" where
  "sort_pass docs p =
     (let ks = map (field_or_nil (fst p)) docs
      in stable_by_position (\<lambda>a b. before_by (snd p) (ks ! a) (ks ! b)) docs)"

definition sortBy :: "document list \<Rightarrow> (string \<times> int) list \<Rightarrow> document list res" where
  "sortBy docs spec =
     (if length docs < 2 then Inr docs
      else and_then (sortRefsByID docs) (\<lambda>docs. Inr (foldl sort_pass docs (rev (sort_key fst spec)))))"

text \<open>\<open>docHeap\<close>: the kept documents with their keys; \<open>pop\<close> takes out the worst.\<close>

type_synonym doc_heap = "(jval \<times> document) list"

definition worstIdx :: "int \<Rightarrow> doc_heap \<Rightarrow> nat" where
  "worstIdx dir h = foldl (\<lambda>wi i. if before_by dir (fst (h ! wi)) (fst (h ! i)) then i else wi) 0 [1..<length h]"

definition heap_pop :: "int \<Rightarrow> doc_heap \<Rightarrow> document \<times> doc_heap" where
  "heap_pop dir h = (let wi = worstIdx dir h in (snd (h ! wi), remove_at wi h))"

definition heap_push :: "int \<Rightarrow> nat \<Rightarrow> doc_heap \<Rightarrow> jval \<times> document \<Rightarrow> doc_heap" where
  "heap_push dir need h e = (let h' = h @ [e] in if need < length h' then snd (heap_pop dir h') else h')"

fun heap_drain :: "int \<Rightarrow> nat \<Rightarrow> doc_heap \<Rightarrow> document list \<Rightarrow> document list" where
  "heap_drain dir 0 h out = out"
| "heap_drain dir (Suc n) h out = (let (d, h') = heap_pop dir h in heap_drain dir n h' (d # out))"

definition top_docs :: "string \<Rightarrow> int \<Rightarrow> nat \<Rightarrow> document list \<Rightarrow> document list" where
  "top_docs field dir need docs =
     (let h = foldl (heap_push dir need) [] (map (\<lambda>d. (field_or_nil field d, d)) docs)
      in heap_drain dir (length h) h [])"

definition sortByPartial :: "document list \<Rightarrow> (string \<times> int) list \<Rightarrow> int \<Rightarrow> document list res" where
  "sortByPartial docs spec need =
     (if need \<le> 0 \<or> int (length docs) \<le> need \<or> length spec \<noteq> 1 then sortBy docs spec
      else let top = top_docs (fst (hd spec)) (snd (hd spec)) (nat need) docs
           in Inr (top @ drop (length top) docs))"

section \<open>Find, Count, Explain\<close>

definition project :: "document \<Rightarrow> string list \<Rightarrow> document" where
  "project doc flds =
     foldl (\<lambda>out f. if f = ''_id'' then out
                    else case map_of doc f of Some v \<Rightarrow> mput f v out | None \<Rightarrow> out)
       (case map_of doc ''_id'' of Some v \<Rightarrow> [(''_id'', v)] | None \<Rightarrow> []) flds"

definition page :: "find_options option \<Rightarrow> document list \<Rightarrow> document list" where
  "page opts refs =
     (case opts of None \<Rightarrow> refs
      | Some o' \<Rightarrow>
          let skipped = (if 0 < fo_Skip o' then drop (nat (fo_Skip o')) refs else refs)
          in if 0 < fo_Limit o' \<and> fo_Limit o' < int (length skipped) then take (nat (fo_Limit o')) skipped else skipped)"

text \<open>The ids a plan yields, in index order or in the order the candidate map is walked.\<close>

definition plan_ids :: "(string list \<Rightarrow> string list) \<Rightarrow> plan_result \<Rightarrow> string list" where
  "plan_ids walk plan = (case pr_order plan of Some o' \<Rightarrow> o' | None \<Rightarrow> walk (case pr_cand plan of None \<Rightarrow> [] | Some c \<Rightarrow> c))"

definition order_refs :: "find_options option \<Rightarrow> plan_result \<Rightarrow> document list \<Rightarrow> document list res" where
  "order_refs opts plan refs =
     (let spec = (case opts of None \<Rightarrow> [] | Some o' \<Rightarrow> fo_Sort o') in
      if spec = [] then sortRefsByID refs
      else if length spec = 1 \<and> pr_order plan \<noteq> None \<and> fst (hd spec) = pr_orderField plan
      then Inr (if snd (hd spec) < 0 then rev refs else refs)
      else case opts of None \<Rightarrow> Inr refs
        | Some o' \<Rightarrow> sortByPartial refs spec (if 0 < fo_Limit o' then fo_Skip o' + fo_Limit o' else 0))"

definition denied :: "session option \<Rightarrow> string \<Rightarrow> string list" where
  "denied sess name = (case sess of None \<Rightarrow> [] | Some ss \<Rightarrow> fieldDenySet ss name)"

text \<open>A document as it is handed out: projected, then redacted.\<close>

definition finish_doc :: "string list \<Rightarrow> find_options option \<Rightarrow> document \<Rightarrow> document" where
  "finish_doc deny opts d =
     redactDoc deny (case opts of None \<Rightarrow> d
       | Some o' \<Rightarrow> if fo_Projection o' = [] then d else project d (fo_Projection o'))"

definition plan_on :: "string \<Rightarrow> collection \<Rightarrow> document \<Rightarrow> store \<Rightarrow> plan_result \<times> store" where
  "plan_on name c flt s =
     (let (idxs, plan) = planCandidates (c_indexes c) flt in (plan, putColl name (c\<lparr>c_indexes := idxs\<rparr>) s))"

definition findDocs :: "regex_engine \<Rightarrow> int \<Rightarrow> (string list \<Rightarrow> string list) \<Rightarrow> session option \<Rightarrow> string \<Rightarrow> document
    \<Rightarrow> find_options option \<Rightarrow> store \<Rightarrow> document list outcome" where
  "findDocs rx procs walk sess name flt opts s =
     guard_out (checkReadLocked sess name s) s (\<lambda>s.
       let deny = denied sess name in
       if deny \<noteq> [] \<and> filterTouchesFields deny flt then (Inl ErrForbidden, s)
       else case collRO name s of
         None \<Rightarrow> (Inr [], s)
       | Some c \<Rightarrow>
           let (plan, s1) = plan_on name c flt s in
           bind_out (if pr_used plan then materializeRefs rx procs c (plan_ids walk plan) flt (\<not> pr_exact plan) s1
                     else materializeRefs rx procs c (sort (map fst (c_entries c))) flt True s1)
             (\<lambda>refs s2. (map_sum id (\<lambda>ordered. map (finish_doc deny opts) (page opts ordered)) (order_refs opts plan refs), s2)))"

definition countIndexed :: "collection \<Rightarrow> document \<Rightarrow> nat option" where
  "countIndexed c flt =
     (case flt of
        [(field, cond)] \<Rightarrow>
          if isLogicalOp field then None
          else (case equalityValues cond of
              None \<Rightarrow> None
            | Some vals \<Rightarrow> (case find (single_on field) (c_indexes c) of
                  None \<Rightarrow> None
                | Some idx \<Rightarrow> Some (sum_list (map (\<lambda>v. countKey idx [v]) vals))))
      | _ \<Rightarrow> None)"

definition countMatches :: "regex_engine \<Rightarrow> int \<Rightarrow> collection \<Rightarrow> string list \<Rightarrow> document \<Rightarrow> store \<Rightarrow> nat outcome" where
  "countMatches rx procs c ids flt s =
     bind_out (materializeRefs rx procs c ids flt True s) (\<lambda>refs s. (Inr (length refs), s))"

definition countDocs :: "regex_engine \<Rightarrow> int \<Rightarrow> (string list \<Rightarrow> string list) \<Rightarrow> session option \<Rightarrow> string \<Rightarrow> document
    \<Rightarrow> store \<Rightarrow> nat outcome" where
  "countDocs rx procs walk sess name flt s =
     guard_out (checkReadLocked sess name s) s (\<lambda>s.
       let deny = denied sess name in
       if deny \<noteq> [] \<and> filterTouchesFields deny flt then (Inl ErrForbidden, s)
       else case collRO name s of
         None \<Rightarrow> (Inr 0, s)
       | Some c \<Rightarrow>
           (case (if flt = [] then None else countIndexed c flt) of
              Some n \<Rightarrow> (Inr n, s)
            | None \<Rightarrow>
                let (plan, s1) = plan_on name c flt s in
                if pr_used plan
                then (if pr_exact plan then (Inr (length (case pr_cand plan of None \<Rightarrow> [] | Some c \<Rightarrow> c)), s1)
                      else countMatches rx procs c (plan_ids walk plan) flt s1)
                else countMatches rx procs c (sort (map fst (c_entries c))) flt s1))"

record explain_result =
  er_Plan :: string
  er_Index :: "string list"
  er_Covered :: "string list"
  er_Candidates :: nat
  er_Exact :: bool
  er_ReMatch :: bool
  er_FilterFields :: "string list"
  er_CollectionSize :: nat

definition explain :: "string \<Rightarrow> document \<Rightarrow> store \<Rightarrow> explain_result \<times> store" where
  "explain name flt s =
     (let res = \<lparr>er_Plan = ''COLLSCAN'', er_Index = [], er_Covered = [], er_Candidates = 0, er_Exact = False,
                 er_ReMatch = False, er_FilterFields = sort (map fst flt), er_CollectionSize = 0\<rparr>
      in case collRO name s of
           None \<Rightarrow> (res\<lparr>er_ReMatch := True\<rparr>, s)
         | Some c \<Rightarrow>
             let n = length (c_entries c); res = res\<lparr>er_CollectionSize := n\<rparr> in
             if flt = [] then (res\<lparr>er_Candidates := n, er_Exact := True\<rparr>, s)
             else let (plan, s1) = plan_on name c flt s in
               (if pr_used plan
                then res\<lparr>er_Plan := ''IXSCAN'', er_Index := pr_index plan, er_Covered := pr_covered plan,
                       er_Candidates := length (case pr_cand plan of None \<Rightarrow> [] | Some c \<Rightarrow> c),
                       er_Exact := pr_exact plan, er_ReMatch := \<not> pr_exact plan\<rparr>
                else res\<lparr>er_Candidates := n, er_ReMatch := True\<rparr>, s1))"

end
