(* ===== verification/Hooks.thy ===== *)
theory Hooks
  imports Find
begin

text \<open>
  Hooks (\<open>db/hooks.go\<close>): functions registered for an event of a collection, called before a mutation
  (they may change the document or veto) or after it, inline or through a queue. A hook reaches the
  store through its context, whose mutations carry the frame of the hooks they were raised in, so
  depth and cycles are checked. A hook function is known by the id it was registered under: \<open>he_fn\<close>
  maps ids to functions, which get the operations of the context as a record. What the rest of the
  program does while a writer waits is \<open>he_wait\<close>, while an enqueuer waits \<open>he_full\<close>; \<open>he_ulid\<close> makes
  fresh ids. Hook functions take \<open>Old\<close> as read-only.
\<close>

section \<open>Registration\<close>

definition hook_events :: "string list" where
  "hook_events = [''before_insert'', ''after_insert'', ''before_update'', ''after_update'',
     ''before_delete'', ''after_delete'', ''before_upsert'', ''after_upsert'']"

definition validHookEvent :: "string \<Rightarrow> bool" where
  "validHookEvent e \<longleftrightarrow> e \<in> set hook_events"

definition is_after_event :: "string \<Rightarrow> bool" where
  "is_after_event e \<longleftrightarrow> e \<in> {''after_insert'', ''after_update'', ''after_delete'', ''after_upsert''}"

definition addHook :: "string \<Rightarrow> string \<Rightarrow> bool \<Rightarrow> bool \<Rightarrow> store \<Rightarrow> (64 word) outcome" where
  "addHook event name fn_nil async s =
     (if \<not> validHookEvent event then (Inl (ErrOther ''db: unknown hook event''), s)
      else if fn_nil then (Inl (ErrOther ''db: nil hook func''), s)
      else let hid = st_hookSeq s + 1
        in (Inr hid, s\<lparr>st_hookSeq := hid,
              st_hooks := st_hooks s @ [\<lparr>hk_id = hid, hk_event = event, hk_coll = name, hk_async = async\<rparr>]\<rparr>))"

definition On :: "string \<Rightarrow> string \<Rightarrow> bool \<Rightarrow> store \<Rightarrow> (64 word) outcome" where
  "On event name fn_nil s = addHook event name fn_nil False s"

definition OnAsync :: "string \<Rightarrow> string \<Rightarrow> bool \<Rightarrow> store \<Rightarrow> (64 word) outcome" where
  "OnAsync event name fn_nil s =
     (if \<not> is_after_event event then (Inl (ErrOther ''db: OnAsync requires after-* event''), s)
      else addHook event name fn_nil True s)"

definition Off :: "64 word \<Rightarrow> store \<Rightarrow> bool \<times> store" where
  "Off hid s =
     (case drop_first (\<lambda>r. hk_id r = hid) (st_hooks s) of
        None \<Rightarrow> (False, s) | Some hooks \<Rightarrow> (True, s\<lparr>st_hooks := hooks\<rparr>))"

section \<open>The context of a hook\<close>

record hook_ctx =
  hx_event :: string
  hx_coll :: string
  hx_id :: string
  hx_doc :: "document option"
  hx_old :: "document option"

record hook_api =
  api_Get :: "string \<Rightarrow> string \<Rightarrow> store \<Rightarrow> document outcome"
  api_Find :: "string \<Rightarrow> document \<Rightarrow> find_options option \<Rightarrow> store \<Rightarrow> document list outcome"
  api_Count :: "string \<Rightarrow> document \<Rightarrow> store \<Rightarrow> nat outcome"
  api_Insert :: "string \<Rightarrow> document \<Rightarrow> store \<Rightarrow> unit outcome"
  api_Upsert :: "string \<Rightarrow> string \<Rightarrow> document \<Rightarrow> store \<Rightarrow> unit outcome"
  api_Update :: "string \<Rightarrow> string \<Rightarrow> document \<Rightarrow> store \<Rightarrow> unit outcome"
  api_Delete :: "string \<Rightarrow> string \<Rightarrow> store \<Rightarrow> unit outcome"

text \<open>A hook function answers its error, the document as it left it, and the store.\<close>

type_synonym hook_fn = "hook_api \<Rightarrow> hook_ctx \<Rightarrow> store \<Rightarrow> unit res \<times> document option \<times> store"

record hook_env =
  he_fn :: "64 word \<Rightarrow> hook_fn"
  he_wait :: "store \<Rightarrow> store"
  he_full :: "store \<Rightarrow> store"
  he_ulid :: "store \<Rightarrow> string"
  he_rx :: regex_engine
  he_procs :: int
  he_walk :: "string list \<Rightarrow> string list"

text \<open>The trusted principal of hooks.\<close>

definition hookBypass :: session where
  "hookBypass = \<lparr>ss_ref = 0, ss_token = [], ss_user = ''_hook'', ss_roles = [], ss_perms = [],
     ss_expires = None, ss_system = True\<rparr>"

text \<open>The operations a context offers when its nested mutations run their hooks by \<open>hk\<close>.\<close>

definition context_api :: "hook_env \<Rightarrow> hook_runner \<Rightarrow> hook_api" where
  "context_api env hk =
     \<lparr>api_Get = getDoc (Some hookBypass),
      api_Find = (\<lambda>name flt opts s. findDocs (he_rx env) (he_procs env) (he_walk env) (Some hookBypass) name flt opts s),
      api_Count = (\<lambda>name flt s. countDocs (he_rx env) (he_procs env) (he_walk env) (Some hookBypass) name flt s),
      api_Insert = (\<lambda>name doc s. insertDocFrame hk (he_wait env) (he_ulid env s) (Some hookBypass) name doc s),
      api_Upsert = upsertDocFrame hk (he_wait env) (Some hookBypass),
      api_Update = (\<lambda>name did patch s. updateDocFrame hk (he_wait env) (Some hookBypass) name did patch [] s),
      api_Delete = deleteDocFrame hk (he_wait env) (Some hookBypass)\<rparr>"

section \<open>Depth and cycles\<close>

definition maxHookDepth :: nat where
  "maxHookDepth = 8"

definition hookQueueSize :: nat where
  "hookQueueSize = 1024"

text \<open>A frame: the ids of the hooks entered, innermost first; its depth is its length.\<close>

definition beginHookErr :: "64 word list \<Rightarrow> hook_reg \<Rightarrow> (64 word list) res" where
  "beginHookErr fr r =
     (if maxHookDepth < Suc (length fr) then Inl ErrHookDepth
      else if hk_id r \<in> set fr then Inl ErrHookCycle
      else Inr (hk_id r # fr))"

section \<open>Running hooks\<close>

text \<open>\<open>nested\<close> runs the hooks of the mutations a hook makes, by its frame.\<close>

definition call_hook :: "hook_env \<Rightarrow> (64 word list \<Rightarrow> hook_runner) \<Rightarrow> 64 word list \<Rightarrow> hook_reg \<Rightarrow> hook_ctx \<Rightarrow> store
    \<Rightarrow> unit res \<times> document option \<times> store" where
  "call_hook env nested fr r ctx s = he_fn env (hk_id r) (context_api env (nested fr)) ctx s"

fun runBeforeHooks :: "hook_env \<Rightarrow> (64 word list \<Rightarrow> hook_runner) \<Rightarrow> 64 word list \<Rightarrow> hook_reg list \<Rightarrow> string \<Rightarrow> string \<Rightarrow> string
    \<Rightarrow> document option \<Rightarrow> document option \<Rightarrow> store \<Rightarrow> document option outcome" where
  "runBeforeHooks env nested fr [] event name did doc old s = (Inr doc, s)"
| "runBeforeHooks env nested fr (r # regs) event name did doc old s =
     (case beginHookErr fr r of
        Inl e \<Rightarrow> (Inl e, s)
      | Inr child \<Rightarrow>
          (case call_hook env nested child r \<lparr>hx_event = event, hx_coll = name, hx_id = did, hx_doc = doc, hx_old = old\<rparr> s of
             (Inl e, _, s1) \<Rightarrow> (Inl e, s1)
           | (Inr _, doc1, s1) \<Rightarrow> runBeforeHooks env nested fr regs event name did doc1 old s1))"

definition runAfterHookInline :: "hook_env \<Rightarrow> (64 word list \<Rightarrow> hook_runner) \<Rightarrow> 64 word list \<Rightarrow> hook_reg \<Rightarrow> string \<Rightarrow> string \<Rightarrow> string
    \<Rightarrow> document option \<Rightarrow> document option \<Rightarrow> store \<Rightarrow> document option \<times> store" where
  "runAfterHookInline env nested fr r event name did doc old s =
     (case beginHookErr fr r of
        Inl e \<Rightarrow> (doc, s)
      | Inr child \<Rightarrow> snd (call_hook env nested child r \<lparr>hx_event = event, hx_coll = name, hx_id = did, hx_doc = doc, hx_old = old\<rparr> s))"

definition enqueue_hook :: "hook_env \<Rightarrow> hook_job \<Rightarrow> store \<Rightarrow> store" where
  "enqueue_hook env job s =
     (let s1 = (case st_hookQ s of None \<Rightarrow> s\<lparr>st_hookQ := Some []\<rparr> | Some _ \<Rightarrow> s);
          s2 = (if hookQueueSize \<le> length (case st_hookQ s1 of None \<Rightarrow> [] | Some q \<Rightarrow> q) then he_full env s1 else s1)
      in case st_hookQ s2 of None \<Rightarrow> s2 | Some q \<Rightarrow> s2\<lparr>st_hookQ := Some (q @ [job])\<rparr>)"

fun queueAfterHook :: "hook_env \<Rightarrow> (64 word list \<Rightarrow> hook_runner) \<Rightarrow> 64 word list \<Rightarrow> hook_reg list \<Rightarrow> string \<Rightarrow> string \<Rightarrow> string
    \<Rightarrow> document option \<Rightarrow> document option \<Rightarrow> store \<Rightarrow> store" where
  "queueAfterHook env nested fr [] event name did doc old s = s"
| "queueAfterHook env nested fr (r # regs) event name did doc old s =
     (if hk_async r
      then queueAfterHook env nested fr regs event name did doc old
        (enqueue_hook env \<lparr>hj_frame = fr, hj_reg = r, hj_event = event, hj_coll = name, hj_id = did, hj_doc = doc, hj_old = old\<rparr> s)
      else case runAfterHookInline env nested fr r event name did doc old s of
        (doc1, s1) \<Rightarrow> queueAfterHook env nested fr regs event name did doc1 old s1)"

definition frame_runner :: "hook_env \<Rightarrow> (64 word list \<Rightarrow> hook_runner) \<Rightarrow> 64 word list \<Rightarrow> hook_runner" where
  "frame_runner env nested fr =
     \<lparr>run_before = runBeforeHooks env nested fr,
      run_after = (\<lambda>event name did doc old s. queueAfterHook env nested fr (matchHooks event name s) event name did doc old s)\<rparr>"

text \<open>
  The runner of a frame. The argument counts down the depth left; it is enough when depth and frame
  together reach \<open>maxHookDepth\<close>, since deeper hooks are refused (\<open>runner_enough\<close>).
\<close>

definition no_hooks :: hook_runner where
  "no_hooks = \<lparr>run_before = (\<lambda>_ _ _ _ doc _ s. (Inr doc, s)), run_after = (\<lambda>_ _ _ _ _ s. s)\<rparr>"

fun runner :: "hook_env \<Rightarrow> nat \<Rightarrow> 64 word list \<Rightarrow> hook_runner" where
  "runner env 0 fr = frame_runner env (\<lambda>_. no_hooks) fr"
| "runner env (Suc n) fr = frame_runner env (runner env n) fr"

definition top_runner :: "hook_env \<Rightarrow> hook_runner" where
  "top_runner env = runner env maxHookDepth []"

section \<open>The queue of asynchronous hooks\<close>

definition run_job :: "hook_env \<Rightarrow> hook_job \<Rightarrow> store \<Rightarrow> store" where
  "run_job env job s =
     (case beginHookErr (hj_frame job) (hj_reg job) of
        Inl e \<Rightarrow> s
      | Inr child \<Rightarrow>
          snd (snd (call_hook env (runner env maxHookDepth) child (hj_reg job)
            \<lparr>hx_event = hj_event job, hx_coll = hj_coll job, hx_id = hj_id job, hx_doc = hj_doc job, hx_old = hj_old job\<rparr> s)))"

definition hookWorker :: "hook_env \<Rightarrow> store \<Rightarrow> store" where
  "hookWorker env s =
     (case st_hookQ s of
        Some (job # q) \<Rightarrow> run_job env job (s\<lparr>st_hookQ := Some q\<rparr>)
      | _ \<Rightarrow> s)"

definition stopHookWorker :: "store \<Rightarrow> store" where
  "stopHookWorker s = s\<lparr>st_hookQ := None\<rparr>"

text \<open>\<open>WaitAsyncHooks\<close> when only the worker runs meanwhile: every job queued before the barrier is done.\<close>

definition WaitAsyncHooks :: "hook_env \<Rightarrow> store \<Rightarrow> store" where
  "WaitAsyncHooks env s = (hookWorker env ^^ length (case st_hookQ s of None \<Rightarrow> [] | Some q \<Rightarrow> q)) s"

end
