(* ===== verification/Plan_Laws.thy ===== *)
theory Plan_Laws
  imports Find Store_Query
begin

text \<open>
  What the planner's candidates are. For indexes on plain top-level fields whose stored values are
  scalars (other than minus zero, whose key differs from that of zero), the candidate ids contain
  every document the filter accepts, and are exactly those documents when the plan says it is exact.
\<close>

section \<open>Plain fields\<close>

definition plain_field :: "string \<Rightarrow> bool" where
  "plain_field f \<longleftrightarrow> f \<noteq> [] \<and> CHR ''.'' \<notin> set f"

definition key_scalar :: "jval \<Rightarrow> bool" where
  "key_scalar v \<longleftrightarrow> is_scalar v \<and> \<not> neg_zero v"

definition plain_docs :: "(string \<rightharpoonup> document) \<Rightarrow> string list \<Rightarrow> bool" where
  "plain_docs ds flds \<longleftrightarrow>
     (\<forall>f \<in> set flds. plain_field f \<and> (\<forall>i d. ds i = Some d \<longrightarrow> key_scalar (field_or_nil f d)))"

lemma lookup_plain: "plain_field f \<Longrightarrow> lookupMulti d f = map_option (\<lambda>v. [v]) (map_of d f)"
  by (simp add: lookupMulti_def plain_field_def)

lemma index_values_plain: "plain_field f \<Longrightarrow> is_scalar (field_or_nil f d) \<Longrightarrow> index_values d f = [field_or_nil f d]"
  by (cases "map_of d f") (auto simp: index_values_def lookup_first_def lookup_plain field_or_nil_def is_scalar_def
      split: jval.splits)

lemma extractIndexRows_plain:
  assumes "\<And>f. f \<in> set flds \<Longrightarrow> plain_field f \<and> is_scalar (field_or_nil f d)"
  shows "extractIndexRows d flds = [map (\<lambda>f. field_or_nil f d) flds]"
proof -
  have "foldl (\<lambda>rows f. extend_rows rows (index_values d f)) [r] flds = [r @ map (\<lambda>f. field_or_nil f d) flds]" for r
    using assms by (induction flds arbitrary: r) (simp_all add: index_values_plain extend_rows_def)
  from this [of "[]"] show ?thesis by (simp add: extractIndexRows_def)
qed

lemma plain_rows:
  "plain_docs ds flds \<Longrightarrow> ds i = Some d \<Longrightarrow> extractIndexRows d flds = [map (\<lambda>f. field_or_nil f d) flds]"
  by (rule extractIndexRows_plain) (auto simp: plain_docs_def key_scalar_def)

section \<open>What the lookups of an index answer\<close>

definition eq_ids :: "(string \<rightharpoonup> document) \<Rightarrow> string \<Rightarrow> jval list \<Rightarrow> string set" where
  "eq_ids ds f vals = {i. \<exists>d. ds i = Some d \<and> (\<exists>v \<in> set vals. encodeIndexValue (field_or_nil f d) = encodeIndexValue v)}"

definition range_ids :: "(string \<rightharpoonup> document) \<Rightarrow> string \<Rightarrow> range_bound \<Rightarrow> string set" where
  "range_ids ds f rb = {i. \<exists>d. ds i = Some d \<and> (\<exists>rank. range_rank rb = Some rank \<and> in_range rb rank (field_or_nil f d))}"

definition idx_ok :: "(string \<rightharpoonup> document) \<Rightarrow> index \<Rightarrow> bool" where
  "idx_ok ds idx \<longleftrightarrow> coherent ds idx \<and> plain_docs ds (ix_fields idx) \<and> (\<forall>i d. ds i = Some d \<longrightarrow> storable d)"

lemma idx_ok_ensureOrd: "idx_ok ds idx \<Longrightarrow> idx_ok ds (ensureOrd idx)"
  by (simp add: idx_ok_def coherent_def wf_ensureOrd)

lemma idx_ok_seek:
  "idx_ok ds idx \<Longrightarrow> idx_ok ds (fst (seekPrefix idx vals)) \<and> ix_fields (fst (seekPrefix idx vals)) = ix_fields idx"
  "idx_ok ds idx \<Longrightarrow> idx_ok ds (fst (seekRange idx rb)) \<and> ix_fields (fst (seekRange idx rb)) = ix_fields idx"
  using seekPrefix_state [of idx vals] idx_ok_ensureOrd by (auto simp: seekRange_state)

lemma prefix_plain:
  assumes ok: "idx_ok ds idx" and v: "\<forall>v \<in> set vals. is_scalar v" "vals \<noteq> []" "length vals \<le> length (ix_fields idx)"
  shows "set (snd (seekPrefix idx vals)) = {i. \<exists>d. ds i = Some d
    \<and> map (\<lambda>f. encodeIndexValue (field_or_nil f d)) (take (length vals) (ix_fields idx)) = map encodeIndexValue vals}"
proof -
  have coh: "coherent ds idx" and st: "\<And>i d. ds i = Some d \<Longrightarrow> storable d" and pl: "plain_docs ds (ix_fields idx)"
    using ok by (auto simp: idx_ok_def)
  have r: "row_ok vals" using v(1) by (simp add: row_ok_def enc_ok_def)
  have "(\<exists>row \<in> set (extractIndexRows d (ix_fields idx)). take (length vals) (map encodeIndexValue row) = map encodeIndexValue vals)
      \<longleftrightarrow> map (\<lambda>f. encodeIndexValue (field_or_nil f d)) (take (length vals) (ix_fields idx)) = map encodeIndexValue vals"
    if "ds i = Some d" for i d
    by (simp add: plain_rows [OF pl that] take_map comp_def)
  then show ?thesis using coherent_prefix [OF coh _ r v(2,3)] st by auto
qed

lemma prefix_plain_single:
  assumes "idx_ok ds idx" and "leads_with f idx" and "is_scalar v"
  shows "set (snd (seekPrefix idx [v])) = eq_ids ds f [v]"
proof -
  obtain fs where "ix_fields idx = f # fs" using assms(2) by (auto simp: leads_with_def split: list.splits)
  then show ?thesis using prefix_plain [OF assms(1), of "[v]"] assms(3) by (simp add: eq_ids_def)
qed

lemma lookup_plain_ids:
  assumes "idx_ok ds idx" and "single_on f idx" and "is_scalar v"
  shows "set (lookupIDs idx [v]) = eq_ids ds f [v]" and "distinct (lookupIDs idx [v])"
proof -
  have "seekPrefix idx [v] = (idx, lookupIDs idx [v])" using assms(2) by (simp add: seekPrefix_def single_on_def)
  then show "set (lookupIDs idx [v]) = eq_ids ds f [v]"
    using prefix_plain_single [OF assms(1) _ assms(3), of f] assms(2) by (simp add: leads_with_def single_on_def)
  show "distinct (lookupIDs idx [v])" using assms(1) by (simp add: idx_ok_def coherent_def lookupIDs_def key_ids_distinct)
qed

lemma distinct_concat_map:
  assumes "distinct (map g es)" and "\<And>k. distinct (f k)" and "\<And>k k' i. i \<in> set (f k) \<Longrightarrow> i \<in> set (f k') \<Longrightarrow> k = k'"
  shows "distinct (concat (map (\<lambda>e. f (g e)) es))"
  using assms(1)
proof (induction es)
  case (Cons e es)
  have "set (f (g e)) \<inter> set (f (g e')) = {}" if "e' \<in> set es" for e'
    using assms(3) [of _ "g e" "g e'"] that Cons.prems by fastforce
  then show ?case using Cons assms(2) by auto
qed simp

lemma range_plain:
  assumes ok: "idx_ok ds idx" and lead: "leads_with f idx" and rb: "bounds_ok rb"
  shows "set (snd (seekRange idx rb)) = range_ids ds f rb" and "distinct (snd (seekRange idx rb))"
proof -
  have coh: "coherent ds idx" and st: "\<And>i d. ds i = Some d \<Longrightarrow> storable d" and pl: "plain_docs ds (ix_fields idx)"
    using ok by (auto simp: idx_ok_def)
  obtain fs where f: "ix_fields idx = f # fs" using lead by (auto simp: leads_with_def split: list.splits)
  have wf: "wf_index idx" using coh by (simp add: coherent_def)
  show "set (snd (seekRange idx rb)) = range_ids ds f rb"
  proof (cases "range_rank rb")
    case None
    then show ?thesis by (simp add: seekRange_none range_ids_def)
  next
    case (Some rank)
    have "(\<exists>row \<in> set (extractIndexRows d (ix_fields idx)). in_range rb rank (row_val row)) \<longleftrightarrow> in_range rb rank (field_or_nil f d)"
      if "ds i = Some d" for i d
      using plain_rows [OF pl that] by (simp add: f row_val_def)
    then show ?thesis using coherent_range [OF coh _ rb Some] st Some by (auto simp: range_ids_def)
  qed
  show "distinct (snd (seekRange idx rb))"
  proof (cases "range_rank rb")
    case None
    then show ?thesis by (simp add: seekRange_none)
  next
    case (Some rank)
    have wf': "wf_index (ensureOrd idx)" by (rule wf_ensureOrd [OF wf])
    let ?es = "filter (\<lambda>e. in_range rb rank (fst e)) (ix_ord (ensureOrd idx))"
    have one: "k = k'" if "i \<in> set (key_ids idx k)" "i \<in> set (key_ids idx k')" for i k k'
    proof -
      have "(k, i) \<in> rel idx" "(k', i) \<in> rel idx" using that by (simp_all add: rel_def)
      then show ?thesis using coh plain_rows [OF pl] by (auto simp: coherent_def wanted_def doc_keys_def)
    qed
    have each: "distinct (map_row_ids idx k)" for k
      using key_ids_distinct [OF wf, of k] by (auto simp: map_row_ids_def key_ids_def idsSortedForKey_def split: option.splits)
    have "distinct (map snd (ix_ord (ensureOrd idx)))" using wf' by (simp add: wf_index_def)
    then have "distinct (map snd ?es)" by (rule distinct_map_filter')
    then have "distinct (concat (map (\<lambda>e. map_row_ids idx (snd e)) ?es))"
      using one each by (intro distinct_concat_map) auto
    then show ?thesis unfolding seekRange_eq [OF wf rb Some] .
  qed
qed

text \<open>Several values: the union of their lookups, whichever kind of index serves them.\<close>

lemma eq_ids_Cons: "eq_ids ds f (v # vals) = eq_ids ds f [v] \<union> eq_ids ds f vals"
  by (auto simp: eq_ids_def)

lemma lookup_all_plain:
  assumes "idx_ok ds idx" and "single_on f idx" and "\<forall>v \<in> set vals. is_scalar v"
  shows "set (lookup_all vals idx) = eq_ids ds f vals \<and> distinct (lookup_all vals idx)"
  using assms(3) lookup_plain_ids [OF assms(1,2)] by (induction vals) (auto simp: eq_ids_def)

lemma seek_all_plain:
  "idx_ok ds idx \<Longrightarrow> leads_with f idx \<Longrightarrow> \<forall>v \<in> set vals. is_scalar v \<Longrightarrow> seek_all vals idx = (idx', got) \<Longrightarrow>
    set got = eq_ids ds f vals \<and> distinct got \<and> idx_ok ds idx' \<and> ix_fields idx' = ix_fields idx"
proof (induction vals arbitrary: idx idx' got)
  case Nil
  then show ?case by (auto simp: eq_ids_def)
next
  case (Cons v vals)
  obtain idx1 got1 where 1: "seekPrefix idx [v] = (idx1, got1)" by fastforce
  obtain idx2 more where 2: "seek_all vals idx1 = (idx2, more)" by fastforce
  have i1: "idx_ok ds idx1" "ix_fields idx1 = ix_fields idx" using idx_ok_seek(1) [OF Cons.prems(1), of "[v]"] 1 by simp_all
  have "set got1 = eq_ids ds f [v]" using prefix_plain_single [OF Cons.prems(1,2), of v] Cons.prems(3) 1 by simp
  moreover have "distinct got1" using seekPrefix_distinct [of idx "[v]"] Cons.prems(1) 1 by (simp add: idx_ok_def coherent_def)
  moreover have "leads_with f idx1" using Cons.prems(2) i1(2) by (simp add: leads_with_def)
  ultimately show ?case using Cons.IH [OF i1(1) _ _ 2] Cons.prems(3,4) 1 2 i1(2) by (auto simp: eq_ids_Cons [of ds f v vals])
qed

section \<open>The invariant of planning\<close>

text \<open>
  \<open>sat f\<close> are the ids whose document satisfies the condition on field \<open>f\<close>. A classified condition is
  right about a field that some index has when its values or bounds describe \<open>sat\<close> there.
\<close>

definition fp_ok :: "(string \<rightharpoonup> document) \<Rightarrow> (string \<Rightarrow> string set) \<Rightarrow> field_plan \<Rightarrow> bool" where
  "fp_ok ds sat fp \<longleftrightarrow>
     (fp_isEq fp \<longrightarrow> (\<forall>v \<in> set (fp_eqVals fp). is_scalar v)
        \<and> sat (fp_field fp) \<inter> dom ds = eq_ids ds (fp_field fp) (fp_eqVals fp))
     \<and> (\<not> fp_isEq fp \<longrightarrow> fp_isRange fp \<longrightarrow> bounds_ok (fp_rb fp)
        \<and> sat (fp_field fp) \<inter> dom ds \<subseteq> range_ids ds (fp_field fp) (fp_rb fp))"

definition all_sat :: "(string \<rightharpoonup> document) \<Rightarrow> (string \<Rightarrow> string set) \<Rightarrow> string set \<Rightarrow> string set" where
  "all_sat ds sat F = {i \<in> dom ds. \<forall>f \<in> F. i \<in> sat f}"

definition plan_inv :: "(string \<rightharpoonup> document) \<Rightarrow> (string \<Rightarrow> string set) \<Rightarrow> string set \<Rightarrow> plan_result \<Rightarrow> bool" where
  "plan_inv ds sat F res \<longleftrightarrow>
     set (pr_covered res) \<subseteq> F
     \<and> (case pr_cand res of
          None \<Rightarrow> pr_covered res = [] \<and> \<not> pr_used res \<and> pr_order res = None
        | Some c \<Rightarrow> pr_used res \<and> distinct c \<and> set c \<subseteq> dom ds \<and> all_sat ds sat F \<subseteq> set c
            \<and> (pr_exact res \<longrightarrow> set c = all_sat ds sat (set (pr_covered res)))
            \<and> (case pr_order res of None \<Rightarrow> True | Some o' \<Rightarrow> distinct o' \<and> set c \<subseteq> set o'))"

lemma plan_inv_start: "plan_inv ds sat F (no_plan exact)"
  by (simp add: plan_inv_def no_plan_def)

lemma plan_inv_inexact: "plan_inv ds sat F res \<Longrightarrow> plan_inv ds sat F (res\<lparr>pr_exact := False\<rparr>)"
  by (auto simp: plan_inv_def split: option.splits)

lemma set_narrow: "set (narrow cand got) = (case cand of None \<Rightarrow> set got | Some c \<Rightarrow> set c \<inter> set got)"
  and distinct_narrow: "distinct got \<Longrightarrow> (\<And>c. cand = Some c \<Longrightarrow> distinct c) \<Longrightarrow> distinct (narrow cand got)"
  by (auto simp: narrow_def intersectIDs_def split: option.splits)

text \<open>An equality lookup adds its fields to the covered ones.\<close>

lemma plan_inv_eq:
  assumes inv: "plan_inv ds sat F res" and got: "distinct got" "set got = all_sat ds sat (set cov)" and cov: "set cov \<subseteq> F"
  shows "plan_inv ds sat F (res\<lparr>pr_cand := Some (narrow (pr_cand res) got), pr_used := True, pr_index := ix,
    pr_covered := pr_covered res @ cov\<rparr>)"
  using assms distinct_narrow [of got "pr_cand res"]
  by (auto simp: plan_inv_def set_narrow all_sat_def split: option.splits)

text \<open>A range lookup only bounds the candidates.\<close>

lemma plan_inv_range:
  assumes inv: "plan_inv ds sat F res" and ids: "distinct ids" "set ids \<subseteq> dom ds" "all_sat ds sat {f} \<subseteq> set ids" and f: "f \<in> F"
  shows "plan_inv ds sat F (res\<lparr>pr_cand := Some (narrow (pr_cand res) (remdups ids)),
    pr_order := (case pr_cand res of None \<Rightarrow> if ids = [] then None else Some ids
                 | Some c \<Rightarrow> Some (filter (\<lambda>i. i \<in> set c) ids)),
    pr_orderField := f', pr_used := True, pr_index := ix, pr_exact := False\<rparr>)"
  using assms distinct_narrow [of "remdups ids" "pr_cand res"]
  by (auto simp: plan_inv_def set_narrow all_sat_def split: option.splits)

section \<open>The two passes\<close>

definition idxs_ok :: "(string \<rightharpoonup> document) \<Rightarrow> (string \<Rightarrow> string set) \<Rightarrow> field_plan list \<Rightarrow> index list \<Rightarrow> bool" where
  "idxs_ok ds sat plans idxs \<longleftrightarrow> (\<forall>idx \<in> set idxs. idx_ok ds idx
     \<and> (\<forall>fp \<in> set plans. fp_field fp \<in> set (ix_fields idx) \<longrightarrow> fp_ok ds sat fp))"

lemma singleEqualityFor_Some:
  "singleEqualityFor plans f = Some v \<Longrightarrow> \<exists>fp \<in> set plans. fp_field fp = f \<and> fp_isEq fp \<and> fp_eqVals fp = [v]"
  by (auto simp: singleEqualityFor_def find_Some_iff length_Suc_conv split: option.splits)

lemma leading_values_spec:
  "leading_values plans fs = (vals, cov) \<Longrightarrow> length cov = length vals \<and> cov = take (length vals) fs
    \<and> list_all2 (\<lambda>f v. \<exists>fp \<in> set plans. fp_field fp = f \<and> fp_isEq fp \<and> fp_eqVals fp = [v]) cov vals"
  by (induction fs arbitrary: vals cov) (auto split: option.splits prod.splits dest: singleEqualityFor_Some)

lemma map_eq_zip: "length xs = length ys \<Longrightarrow> map f xs = map g ys \<longleftrightarrow> (\<forall>(x, y) \<in> set (zip xs ys). f x = g y)"
  by (induction xs ys rule: list_induct2) auto

lemma zip_all_fst: "length xs = length ys \<Longrightarrow> (\<forall>(x, y) \<in> set (zip xs ys). P x) \<longleftrightarrow> (\<forall>x \<in> set xs. P x)"
  by (induction xs ys rule: list_induct2) auto

lemma compound_got:
  assumes ok: "idx_ok ds idx" "\<forall>fp \<in> set plans. fp_field fp \<in> set (ix_fields idx) \<longrightarrow> fp_ok ds sat fp"
    and lv: "leading_values plans (ix_fields idx) = (vals, cov)" and "cov \<noteq> []"
  shows "set (snd (seekPrefix idx vals)) = all_sat ds sat (set cov)"
    and "distinct (snd (seekPrefix idx vals))" and "set cov \<subseteq> fp_field ` set plans"
proof -
  note sp = leading_values_spec [OF lv]
  have each: "is_scalar v \<and> sat f \<inter> dom ds = eq_ids ds f [v] \<and> f \<in> fp_field ` set plans" if m: "(f, v) \<in> set (zip cov vals)" for f v
  proof -
    have "list_all2 (\<lambda>f v. \<exists>fp \<in> set plans. fp_field fp = f \<and> fp_isEq fp \<and> fp_eqVals fp = [v]) cov vals" using sp by blast
    then obtain fp where fp: "fp \<in> set plans" "fp_field fp = f" "fp_isEq fp" "fp_eqVals fp = [v]"
      using m by (auto simp: list_all2_iff)
    moreover have "f \<in> set (ix_fields idx)" using sp m by (metis in_set_takeD set_zip_leftD)
    ultimately show ?thesis using ok(2) by (fastforce simp: fp_ok_def)
  qed
  have lens: "length cov = length vals" using sp by blast
  have len: "length vals \<le> length (ix_fields idx)" using sp by (metis length_take min.absorb_iff2 nat_le_linear)
  have vals: "\<forall>v \<in> set vals. is_scalar v" using each sp by (metis in_set_impl_in_set_zip2)
  have "set (snd (seekPrefix idx vals)) = {i. \<exists>d. ds i = Some d \<and> map (\<lambda>f. encodeIndexValue (field_or_nil f d)) cov = map encodeIndexValue vals}"
    using prefix_plain [OF ok(1) vals _ len] sp assms(4) by auto
  also have "\<dots> = all_sat ds sat (set cov)"
  proof -
    have "map (\<lambda>f. encodeIndexValue (field_or_nil f d)) cov = map encodeIndexValue vals \<longleftrightarrow> (\<forall>f \<in> set cov. i \<in> sat f)"
      if d: "ds i = Some d" for i d
    proof -
      have "encodeIndexValue (field_or_nil f d) = encodeIndexValue v \<longleftrightarrow> i \<in> sat f" if "(f, v) \<in> set (zip cov vals)" for f v
      proof -
        have "i \<in> sat f \<longleftrightarrow> i \<in> eq_ids ds f [v]" using each [OF that] domI [of ds i, OF d] by blast
        then show ?thesis by (simp add: eq_ids_def d)
      qed
      then have "(\<forall>(f, v) \<in> set (zip cov vals). encodeIndexValue (field_or_nil f d) = encodeIndexValue v)
          \<longleftrightarrow> (\<forall>(f, v) \<in> set (zip cov vals). i \<in> sat f)" by blast
      then show ?thesis unfolding map_eq_zip [OF lens] zip_all_fst [OF lens, of "\<lambda>f. i \<in> sat f"] .
    qed
    then show ?thesis by (auto simp: all_sat_def)
  qed
  finally show "set (snd (seekPrefix idx vals)) = all_sat ds sat (set cov)" .
  show "distinct (snd (seekPrefix idx vals))" using ok(1) seekPrefix_distinct by (simp add: idx_ok_def coherent_def)
  show "set cov \<subseteq> fp_field ` set plans" using each sp by (metis in_set_impl_in_set_zip1 subsetI)
qed

lemma use_compound_inv:
  assumes ok: "idx_ok ds idx" "\<forall>fp \<in> set plans. fp_field fp \<in> set (ix_fields idx) \<longrightarrow> fp_ok ds sat fp"
    and inv: "plan_inv ds sat (fp_field ` set plans) res" "set consumed = set (pr_covered res)"
    and run: "use_compound plans idx (res, consumed) = (idx', res', consumed')"
  shows "idx_ok ds idx' \<and> ix_fields idx' = ix_fields idx \<and> plan_inv ds sat (fp_field ` set plans) res'
    \<and> set consumed' = set (pr_covered res') \<and> pr_exact res' = pr_exact res"
proof -
  obtain vals cov where lv: "leading_values plans (ix_fields idx) = (vals, cov)" by fastforce
  show ?thesis
  proof (cases "length (ix_fields idx) < 2 \<or> cov = []")
    case True
    then show ?thesis using run lv ok inv by (auto simp: use_compound_def)
  next
    case False
    then have "cov \<noteq> []" by simp
    note got = compound_got [OF ok lv this]
    show ?thesis
      using run lv False idx_ok_seek(1) [OF ok(1), of vals] plan_inv_eq [OF inv(1) got(2,1,3)] inv(2)
      by (auto simp: use_compound_def Let_def split: prod.splits)
  qed
qed

lemma plan_compound_inv:
  assumes "idxs_ok ds sat plans idxs" and "plan_inv ds sat (fp_field ` set plans) res" and "set consumed = set (pr_covered res)"
    and "plan_compound plans idxs (res, consumed) = (idxs', res', consumed')"
  shows "idxs_ok ds sat plans idxs' \<and> map ix_fields idxs' = map ix_fields idxs
    \<and> plan_inv ds sat (fp_field ` set plans) res' \<and> set consumed' = set (pr_covered res') \<and> pr_exact res' = pr_exact res"
  using assms
proof (induction idxs arbitrary: res consumed idxs' res' consumed')
  case (Cons idx idxs)
  obtain idx1 res1 con1 where 1: "use_compound plans idx (res, consumed) = (idx1, res1, con1)" by (metis surj_pair)
  obtain idxs2 res2 con2 where 2: "plan_compound plans idxs (res1, con1) = (idxs2, res2, con2)" by (metis surj_pair)
  have "idxs' = idx1 # idxs2" "res' = res2" "consumed' = con2" using Cons.prems(4) 1 2 by auto
  moreover have "idx_ok ds idx" "\<forall>fp \<in> set plans. fp_field fp \<in> set (ix_fields idx) \<longrightarrow> fp_ok ds sat fp" "idxs_ok ds sat plans idxs"
    using Cons.prems(1) by (auto simp: idxs_ok_def)
  ultimately show ?case
    using use_compound_inv [OF _ _ Cons.prems(2,3) 1] Cons.IH [OF _ _ _ 2] by (auto simp: idxs_ok_def)
qed simp

lemma with_first_Some:
  "with_first P f idxs = Some (idxs', idx, x) \<Longrightarrow>
    \<exists>pre post. idxs = pre @ idx # post \<and> idxs' = pre @ fst (f idx) # post \<and> x = snd (f idx) \<and> P idx"
proof (induction idxs arbitrary: idxs')
  case (Cons a idxs)
  show ?case
  proof (cases "P a")
    case True
    then show ?thesis using Cons.prems by (intro exI [of _ "[]"] exI [of _ idxs]) (auto split: prod.splits)
  next
    case False
    then obtain is' where "with_first P f idxs = Some (is', idx, x)" "idxs' = a # is'" using Cons.prems by auto
    from Cons.IH [OF this(1)] this(2) show ?thesis by (metis append_Cons)
  qed
qed simp

lemma with_first_ok:
  assumes "with_first P f idxs = Some (idxs', idx, x)" and "idxs_ok ds sat plans idxs"
    and "\<And>i. i \<in> set idxs \<Longrightarrow> P i \<Longrightarrow> idx_ok ds i \<Longrightarrow> idx_ok ds (fst (f i)) \<and> ix_fields (fst (f i)) = ix_fields i"
  shows "idxs_ok ds sat plans idxs' \<and> map ix_fields idxs' = map ix_fields idxs \<and> P idx \<and> idx_ok ds idx \<and> x = snd (f idx)
    \<and> (\<forall>fp \<in> set plans. fp_field fp \<in> set (ix_fields idx) \<longrightarrow> fp_ok ds sat fp)"
  using with_first_Some [OF assms(1)] assms(2,3) by (fastforce simp: idxs_ok_def)

text \<open>One field of the second pass; \<open>don\<close> are the fields already seen.\<close>

definition pass_inv :: "(string \<rightharpoonup> document) \<Rightarrow> (string \<Rightarrow> string set) \<Rightarrow> field_plan list \<Rightarrow> string list \<Rightarrow> string set
    \<Rightarrow> index list \<times> plan_result \<Rightarrow> bool" where
  "pass_inv ds sat plans consumed don st \<longleftrightarrow>
     idxs_ok ds sat plans (fst st) \<and> plan_inv ds sat (fp_field ` set plans) (snd st)
     \<and> set consumed \<subseteq> set (pr_covered (snd st)) \<and> (pr_exact (snd st) \<longrightarrow> don \<subseteq> set (pr_covered (snd st)))"

lemma eq_lookup_ok:
  assumes "seekEqualityField idxs f vals = Some (idxs', idx, got)" and "idxs_ok ds sat plans idxs"
    and fp: "fp \<in> set plans" "fp_field fp = f" "fp_isEq fp" "fp_eqVals fp = vals"
  shows "idxs_ok ds sat plans idxs' \<and> set got = all_sat ds sat {f} \<and> distinct got"
proof -
  have sat: "(\<forall>v \<in> set vals. is_scalar v) \<and> eq_ids ds f vals = all_sat ds sat {f}"
    if "f \<in> set (ix_fields i)" "i \<in> set idxs" for i
  proof -
    have "fp_ok ds sat fp" using assms(2) that fp by (auto simp: idxs_ok_def)
    then show ?thesis using fp(2-4) by (auto simp: fp_ok_def all_sat_def)
  qed
  show ?thesis
  proof (cases "with_first (single_on f) (\<lambda>idx. (idx, lookup_all vals idx)) idxs")
    case (Some r)
    then have w: "with_first (single_on f) (\<lambda>idx. (idx, lookup_all vals idx)) idxs = Some (idxs', idx, got)"
      using assms(1) by (simp add: seekEqualityField_def)
    note wo = with_first_ok [OF w assms(2)]
    have "idx \<in> set idxs" using with_first_Some [OF w] by auto
    moreover have "f \<in> set (ix_fields idx)" using wo by (simp add: single_on_def)
    ultimately show ?thesis using sat wo lookup_all_plain [of ds idx f vals] by simp
  next
    case None
    then have w: "with_first (\<lambda>idx. 1 < length (ix_fields idx) \<and> leads_with f idx) (seek_all vals) idxs = Some (idxs', idx, got)"
      using assms(1) by (simp add: seekEqualityField_def)
    have lead: "f \<in> set (ix_fields i)" if "leads_with f i" for i using that by (auto simp: leads_with_def split: list.splits)
    have keep: "set (snd (seek_all vals i)) = eq_ids ds f vals \<and> distinct (snd (seek_all vals i))
        \<and> idx_ok ds (fst (seek_all vals i)) \<and> ix_fields (fst (seek_all vals i)) = ix_fields i"
      if "i \<in> set idxs" "leads_with f i" "idx_ok ds i" for i
      using seek_all_plain [OF that(3,2), of vals] sat [OF lead [OF that(2)] that(1)] by (simp add: prod_eq_iff)
    have "idxs_ok ds sat plans idxs' \<and> leads_with f idx \<and> idx_ok ds idx \<and> got = snd (seek_all vals idx)"
      using with_first_ok [OF w assms(2)] keep by blast
    moreover have "idx \<in> set idxs" using with_first_Some [OF w] by auto
    ultimately show ?thesis using keep sat lead by metis
  qed
qed

lemma plan_field_inv:
  assumes inv: "pass_inv ds sat plans consumed don (idxs, res)" and fp: "fp \<in> set plans"
  shows "pass_inv ds sat plans consumed (insert (fp_field fp) don) (plan_field consumed fp (idxs, res))"
proof -
  let ?F = "fp_field ` set plans"
  have i: "idxs_ok ds sat plans idxs" "plan_inv ds sat ?F res" "set consumed \<subseteq> set (pr_covered res)"
    "pr_exact res \<Longrightarrow> don \<subseteq> set (pr_covered res)" using inv by (auto simp: pass_inv_def)
  have inexact: "pass_inv ds sat plans consumed (insert (fp_field fp) don) (idxs, res\<lparr>pr_exact := False\<rparr>)"
    using i plan_inv_inexact by (simp add: pass_inv_def)
  consider (skip) "fp_blocked fp \<or> \<not> fp_isEq fp \<and> \<not> fp_isRange fp \<and> fp_field fp \<notin> set consumed"
    | (seen) "\<not> fp_blocked fp" "fp_field fp \<in> set consumed"
    | (eq) "\<not> fp_blocked fp" "fp_field fp \<notin> set consumed" "fp_isEq fp"
    | (range) "\<not> fp_blocked fp" "fp_field fp \<notin> set consumed" "\<not> fp_isEq fp" "fp_isRange fp" by blast
  then show ?thesis
  proof cases
    case skip
    then show ?thesis using inexact by (auto simp: plan_field_def Let_def)
  next
    case seen
    then show ?thesis using i by (auto simp: plan_field_def pass_inv_def)
  next
    case eq
    show ?thesis
    proof (cases "seekEqualityField idxs (fp_field fp) (fp_eqVals fp)")
      case None
      then show ?thesis using eq inexact by (simp add: plan_field_def)
    next
      case (Some r)
      then obtain idxs' idx got where r: "seekEqualityField idxs (fp_field fp) (fp_eqVals fp) = Some (idxs', idx, got)"
        by (metis surj_pair)
      note e = eq_lookup_ok [OF r i(1) fp refl eq(3) refl]
      have "plan_inv ds sat ?F (res\<lparr>pr_cand := Some (narrow (pr_cand res) got), pr_used := True, pr_index := ix_fields idx,
          pr_covered := pr_covered res @ [fp_field fp]\<rparr>)"
        by (rule plan_inv_eq [OF i(2)]) (use e fp in auto)
      then show ?thesis using eq r e i by (auto simp: plan_field_def pass_inv_def)
    qed
  next
    case range
    show ?thesis
    proof (cases "with_first (leads_with (fp_field fp)) (\<lambda>idx. seekRange idx (fp_rb fp)) idxs")
      case None
      then show ?thesis using range inexact by (simp add: plan_field_def)
    next
      case (Some r)
      then obtain idxs' idx ids where r: "with_first (leads_with (fp_field fp)) (\<lambda>idx. seekRange idx (fp_rb fp)) idxs = Some (idxs', idx, ids)"
        by (metis surj_pair)
      have wo: "idxs_ok ds sat plans idxs' \<and> leads_with (fp_field fp) idx \<and> idx_ok ds idx \<and> ids = snd (seekRange idx (fp_rb fp))
          \<and> (\<forall>fp \<in> set plans. fp_field fp \<in> set (ix_fields idx) \<longrightarrow> fp_ok ds sat fp)"
        using with_first_ok [OF r i(1)] idx_ok_seek(2) by blast
      then have "fp_field fp \<in> set (ix_fields idx)" by (auto simp: leads_with_def split: list.splits)
      then have "fp_ok ds sat fp" using wo fp by blast
      then have f: "bounds_ok (fp_rb fp)" "sat (fp_field fp) \<inter> dom ds \<subseteq> range_ids ds (fp_field fp) (fp_rb fp)"
        using range by (simp_all add: fp_ok_def)
      have ids: "set ids = range_ids ds (fp_field fp) (fp_rb fp)" "distinct ids"
        using wo range_plain [of ds idx "fp_field fp" "fp_rb fp"] f(1) by simp_all
      have sub: "set ids \<subseteq> dom ds" "all_sat ds sat {fp_field fp} \<subseteq> set ids"
        using f(2) unfolding ids(1) by (auto simp: range_ids_def all_sat_def)
      have "fp_field fp \<in> ?F" using fp by simp
      note pi = plan_inv_range [OF i(2) ids(2) sub this, of "ix_fields idx" "fp_field fp"]
      have "idxs_ok ds sat plans idxs'" using wo by blast
      with pi show ?thesis using range r i(3) unfolding plan_field_def pass_inv_def by simp
    qed
  qed
qed

lemma plan_fields_inv:
  "pass_inv ds sat plans consumed don st \<Longrightarrow> set fps \<subseteq> set plans \<Longrightarrow>
    pass_inv ds sat plans consumed (don \<union> fp_field ` set fps) (fold (plan_field consumed) fps st)"
proof (induction fps arbitrary: don st)
  case (Cons fp fps)
  obtain idxs res where st: "st = (idxs, res)" by fastforce
  have "pass_inv ds sat plans consumed (insert (fp_field fp) don) (plan_field consumed fp st)"
    using plan_field_inv [of ds sat plans consumed don idxs res fp] Cons.prems by (simp add: st)
  from Cons.IH [OF this] Cons.prems(2) show ?case by simp
qed simp

text \<open>The plan as a whole.\<close>

lemma classify_field [simp]: "fp_field (classify p) = fst p"
  by (simp add: classify_def Let_def split: option.splits)

lemma plan_sound:
  assumes ok: "\<forall>idx \<in> set idxs. idx_ok ds idx"
    and fps: "\<forall>p \<in> set flt. \<forall>idx \<in> set idxs. fst p \<in> set (ix_fields idx) \<longrightarrow> fp_ok ds sat (classify p)"
    and run: "planCandidates idxs flt = (idxs', plan)"
  shows "\<forall>idx \<in> set idxs'. idx_ok ds idx"
    and "pr_used plan \<Longrightarrow> \<exists>c. pr_cand plan = Some c \<and> distinct c \<and> set c \<subseteq> dom ds \<and> all_sat ds sat (fst ` set flt) \<subseteq> set c
      \<and> (pr_exact plan \<longrightarrow> set c = all_sat ds sat (fst ` set flt))
      \<and> (case pr_order plan of None \<Rightarrow> True | Some o' \<Rightarrow> distinct o' \<and> set o' = set c)"
proof -
  have "(\<forall>idx \<in> set idxs'. idx_ok ds idx) \<and> (pr_used plan \<longrightarrow> (\<exists>c. pr_cand plan = Some c \<and> distinct c \<and> set c \<subseteq> dom ds
      \<and> all_sat ds sat (fst ` set flt) \<subseteq> set c \<and> (pr_exact plan \<longrightarrow> set c = all_sat ds sat (fst ` set flt))
      \<and> (case pr_order plan of None \<Rightarrow> True | Some o' \<Rightarrow> distinct o' \<and> set o' = set c)))"
  proof (cases "flt = [] \<or> idxs = []")
    case True
    then show ?thesis using run ok by (auto simp: planCandidates_def no_plan_def)
  next
    case False
    let ?plans = "map classify flt"
    obtain idxs1 res1 con where 1: "plan_compound ?plans idxs (no_plan True, []) = (idxs1, res1, con)" by (metis surj_pair)
    obtain idxs2 res2 where 2: "fold (plan_field con) ?plans (idxs1, res1) = (idxs2, res2)" by fastforce
    have "idxs_ok ds sat ?plans idxs" using ok fps by (auto simp: idxs_ok_def)
    from plan_compound_inv [OF this plan_inv_start _ 1]
    have "pass_inv ds sat ?plans con {} (idxs1, res1)" by (simp add: pass_inv_def no_plan_def)
    from plan_fields_inv [OF this subset_refl] 2
    have p: "idxs_ok ds sat ?plans idxs2" "plan_inv ds sat (fst ` set flt) res2"
      "pr_exact res2 \<Longrightarrow> fst ` set flt \<subseteq> set (pr_covered res2)" by (simp_all add: pass_inv_def image_image)
    have i: "\<forall>idx \<in> set idxs2. idx_ok ds idx" using p(1) by (simp add: idxs_ok_def)
    show ?thesis
    proof (cases "pr_used res2")
      case F: False
      then show ?thesis using run False 1 2 i by (auto simp: planCandidates_def no_plan_def)
    next
      case True
      have plan: "idxs' = idxs2" "pr_cand plan = pr_cand res2" "pr_exact plan \<Longrightarrow> pr_exact res2"
        "pr_order plan = (case (pr_order res2, pr_cand res2) of (Some o', Some c) \<Rightarrow> Some (filter (\<lambda>i. i \<in> set c) o') | _ \<Rightarrow> pr_order res2)"
        using run False 1 2 True by (auto simp: planCandidates_def Let_def)
      obtain c where c: "pr_cand res2 = Some c" "distinct c" "set c \<subseteq> dom ds" "all_sat ds sat (fst ` set flt) \<subseteq> set c"
        "pr_exact res2 \<longrightarrow> set c = all_sat ds sat (set (pr_covered res2))"
        "case pr_order res2 of None \<Rightarrow> True | Some o' \<Rightarrow> distinct o' \<and> set c \<subseteq> set o'" "set (pr_covered res2) \<subseteq> fst ` set flt"
        using p(2) True by (auto simp: plan_inv_def split: option.splits)
      have "pr_exact plan \<longrightarrow> set c = all_sat ds sat (fst ` set flt)" using plan(3) p(3) c(5,7) by (metis subset_antisym)
      moreover have "case pr_order plan of None \<Rightarrow> True | Some o' \<Rightarrow> distinct o' \<and> set o' = set c"
        using c(1,6) by (auto simp: plan(4) split: option.splits)
      ultimately show ?thesis using c(1-4) i plan(1,2) by simp
    qed
  qed
  then show "\<forall>idx \<in> set idxs'. idx_ok ds idx"
    "pr_used plan \<Longrightarrow> \<exists>c. pr_cand plan = Some c \<and> distinct c \<and> set c \<subseteq> dom ds \<and> all_sat ds sat (fst ` set flt) \<subseteq> set c
      \<and> (pr_exact plan \<longrightarrow> set c = all_sat ds sat (fst ` set flt))
      \<and> (case pr_order plan of None \<Rightarrow> True | Some o' \<Rightarrow> distinct o' \<and> set o' = set c)" by auto
qed

end
