(* ===== verification/Find_Laws.thy ===== *)
theory Find_Laws
  imports Plan_Laws Store_Admin
begin

text \<open>
  Find and Count in terms of the documents stored: which conditions the planner understands exactly,
  that materializing in parallel chunks is the serial scan, and that a query answers the page of
  the matching documents in order of id whatever indexes exist and however maps are walked.
\<close>

section \<open>Conditions the planner understands\<close>

lemma eq_scalar:
  assumes "key_scalar a" and "key_scalar b"
  shows "equalJSON a b = Inr (encodeIndexValue a = encodeIndexValue b)"
proof -
  obtain r where r: "equalJSON a b = Inr r" using equalJSON_scalar_total [of b a] assms by (auto simp: key_scalar_def)
  then have "r \<longleftrightarrow> encodeIndexValue a = encodeIndexValue b"
    using enc_scalar_eq [of a b] scalar_eq_enc [of a b] assms by (cases r) (auto simp: key_scalar_def)
  then show ?thesis using r by simp
qed

lemma any_equal_scalar:
  "key_scalar a \<Longrightarrow> \<forall>v \<in> set vs. key_scalar v \<Longrightarrow>
    any_equal a vs = Inr (\<exists>v \<in> set vs. encodeIndexValue a = encodeIndexValue v)"
  by (induction vs) (auto simp: eq_scalar)

lemma enc_null: "key_scalar v \<Longrightarrow> encodeIndexValue JNull = encodeIndexValue v \<longleftrightarrow> v = JNull"
  using eq_scalar [of JNull v] by (cases v) (auto simp: equalJSON_def go_eq_def key_scalar_def is_scalar_def neg_zero_def)

text \<open>The three shapes of an equality condition.\<close>

lemma single_map_of: "length m = Suc 0 \<Longrightarrow> map_of m k = Some v \<Longrightarrow> m = [(k, v)]"
  by (cases m) (auto split: if_splits)

lemma equalityValues_cases:
  assumes "equalityValues cond = Some vals"
  obtains (literal) "opsOf cond = None" and "vals = [cond]"
  | (eq) v where "opsOf cond = Some [(''$eq'', v)]" and "vals = [v]"
  | (in_list) l where "opsOf cond = Some [(''$in'', l)]" and "toAnyList l = Inr vals"
proof -
  have doc: thesis if "equalityValues (JDoc ops) = Some vals" "opsOf cond = Some ops" "hasOpKeys ops" for ops
    using that eq in_list by (auto split: option.splits if_splits sum.splits dest!: single_map_of)
  show thesis
  proof (cases "opsOf cond")
    case None
    then have "vals = [cond]" using assms by (cases cond) (auto simp: opsOf_def split: if_splits)
    then show ?thesis using literal None by blast
  next
    case (Some ops)
    have unf: "equalityValues (JMap ops) = (if \<not> hasOpKeys ops then Some [JMap ops] else equalityValues (JDoc ops))"
      by (subst equalityValues.simps) simp
    have "equalityValues (JDoc ops) = Some vals" "hasOpKeys ops"
      using Some assms unf by (cases cond; auto simp: opsOf_def simp del: equalityValues.simps split: if_splits)+
    then show ?thesis using doc Some by blast
  qed
qed

definition cond_ok :: "jval \<Rightarrow> bool" where
  "cond_ok cond \<longleftrightarrow> (case equalityValues cond of
       Some vals \<Rightarrow> (\<forall>v \<in> set vals. key_scalar v)
         \<and> (case opsOf cond of None \<Rightarrow> True | Some ops \<Rightarrow> map_of ops ''$in'' \<noteq> None \<longrightarrow> JNull \<notin> set vals)
     | None \<Rightarrow> (case rangeValues cond of Some rb \<Rightarrow> bounds_ok rb | None \<Rightarrow> True))"

lemma matchOps_single:
  "op \<notin> {''$regex'', ''$options''} \<Longrightarrow> matchOps rx v ex [(op, arg)] = matchOneOp rx op v ex arg"
  by (subst matchOps.simps) (auto simp: and_then_def split: sum.splits)

lemma equality_match:
  assumes f: "plain_field f" "key_scalar (field_or_nil f d)" and c: "equalityValues cond = Some vals" "cond_ok cond"
  shows "matchPlain rx d f cond = Inr (\<exists>v \<in> set vals. encodeIndexValue (field_or_nil f d) = encodeIndexValue v)"
proof -
  have ks: "\<forall>v \<in> set vals. key_scalar v" using c by (simp add: cond_ok_def)
  have nul: "JNull \<notin> set vals" if "opsOf cond = Some [(''$in'', l)]" for l
    using c that by (simp add: cond_ok_def)
  from c(1) show ?thesis
  proof (cases rule: equalityValues_cases)
    case literal
    then show ?thesis
      using f ks eq_scalar [of "field_or_nil f d" cond] enc_null [of cond]
      by (cases "map_of d f") (auto simp: matchPlain_def lookup_plain field_or_nil_def)
  next
    case (eq v)
    then show ?thesis
      using f ks eq_scalar [of "field_or_nil f d" v] enc_null [of v]
      by (cases "map_of d f")
        (auto simp: matchPlain_def lookup_plain field_or_nil_def matchOpsMulti_def matchOps_single matchOneOp.simps and_then_def)
  next
    case (in_list l)
    then show ?thesis
      using f ks any_equal_scalar [of "field_or_nil f d" vals] enc_null nul [OF in_list(1)]
      by (cases "map_of d f")
        (auto simp: matchPlain_def lookup_plain field_or_nil_def matchOpsMulti_def matchOps_single matchOneOp.simps and_then_def)
  qed
qed

text \<open>Range conditions: a document that satisfies the operators has its value within the bounds.\<close>

definition within :: "range_bound \<Rightarrow> jval \<Rightarrow> bool" where
  "within rb v \<longleftrightarrow>
     (rb_hasLo rb \<longrightarrow> comparableTypes v (rb_lo rb) \<and> (if rb_loIncl rb then 0 \<le> compareValues v (rb_lo rb) else 0 < compareValues v (rb_lo rb)))
     \<and> (rb_hasHi rb \<longrightarrow> comparableTypes v (rb_hi rb) \<and> (if rb_hiIncl rb then compareValues v (rb_hi rb) \<le> 0 else compareValues v (rb_hi rb) < 0))"

lemma range_ops_within:
  "range_ops ops rb0 = Some rb \<Longrightarrow> \<forall>(op, arg) \<in> set ops. compareOp op v arg = Inr True \<Longrightarrow> within rb0 v \<Longrightarrow> within rb v"
  by (induction ops rb0 rule: range_ops.induct) (auto simp: compareOp_def Let_def within_def split: if_splits)

lemma range_ops_ops: "range_ops ops rb0 = Some rb \<Longrightarrow> (op, arg) \<in> set ops \<Longrightarrow> op \<in> {''$gt'', ''$gte'', ''$lt'', ''$lte''}"
  by (induction ops rb0 rule: range_ops.induct) (auto split: if_splits)

lemma range_ops_bound: "range_ops ops rb0 = Some rb \<Longrightarrow> ops \<noteq> [] \<or> rb_hasLo rb0 \<or> rb_hasHi rb0 \<Longrightarrow> rb_hasLo rb \<or> rb_hasHi rb"
  by (induction ops rb0 rule: range_ops.induct) (auto split: if_splits)

lemma comparable_rank:
  "comparableTypes v w \<Longrightarrow> typeRank v = typeRank w \<and> typeRank v \<in> {1, 2} \<and> compareOrdered v w = compareValues v w"
  by (cases v; cases w) (auto simp: comparableTypes_def typeRank_def compareOrdered_def)

lemma within_in_range:
  assumes "within rb v" and "rb_hasLo rb \<or> rb_hasHi rb"
  shows "\<exists>rank. range_rank rb = Some rank \<and> in_range rb rank v"
proof -
  have lo: "rb_hasLo rb \<Longrightarrow> typeRank v = typeRank (rb_lo rb) \<and> typeRank v \<in> {1, 2} \<and> above_lo rb v"
    using assms(1) comparable_rank [of v "rb_lo rb"] by (auto simp: within_def above_lo_def)
  have hi: "rb_hasHi rb \<Longrightarrow> typeRank v = typeRank (rb_hi rb) \<and> typeRank v \<in> {1, 2} \<and> \<not> beyond_hi rb v"
    using assms(1) comparable_rank [of v "rb_hi rb"] by (auto simp: within_def beyond_hi_def Let_def split: if_splits)
  have "range_rank rb = Some (typeRank v)" using lo hi assms(2) by (auto simp: range_rank_def)
  moreover have "in_range rb (typeRank v) v" using lo hi by (auto simp: in_range_def)
  ultimately show ?thesis by blast
qed

lemma matchOpList_all:
  "matchOpList rx v ex ops = Inr True \<Longrightarrow> (op, arg) \<in> set ops \<Longrightarrow> op \<notin> {''$regex'', ''$options''} \<Longrightarrow>
    matchOneOp rx op v ex arg = Inr True"
  by (induction rx v ex ops rule: matchOps_matchOpList_matchOneOp.induct(2)) (auto simp: and_then_Inr_iff split: if_splits)

lemma range_match:
  assumes f: "plain_field f" and c: "equalityValues cond = None" "rangeValues cond = Some rb"
    and m: "matchPlain rx d f cond = Inr True"
  shows "\<exists>rank. range_rank rb = Some rank \<and> in_range rb rank (field_or_nil f d)"
proof -
  obtain ops where ops: "opsOf cond = Some ops" "ops \<noteq> []" "range_ops ops empty_bound = Some rb"
    using c(2) by (auto simp: rangeValues_def split: option.splits if_splits)
  have no: "map_of ops ''$regex'' = None"
    using range_ops_ops [OF ops(3)] by (fastforce simp: map_of_eq_None_iff)
  define v where "v = field_or_nil f d"
  have list: "matchOpList rx v (map_of d f \<noteq> None) ops = Inr True"
    using m ops(1) f no
    by (cases "map_of d f") (auto simp: matchPlain_def lookup_plain matchOpsMulti_def matchOps.simps v_def field_or_nil_def
        and_then_Inr_iff split: if_splits)
  have each: "compareOp op v arg = Inr True" if "(op, arg) \<in> set ops" for op arg
  proof -
    have o: "op \<in> {''$gt'', ''$gte'', ''$lt'', ''$lte''}" using range_ops_ops [OF ops(3) that] .
    then have "matchOneOp rx op v (map_of d f \<noteq> None) arg = Inr True" using matchOpList_all [OF list that] by auto
    then show ?thesis using o by (auto simp: matchOneOp.simps split: if_splits)
  qed
  have "within rb v"
    by (rule range_ops_within [OF ops(3)]) (use each in \<open>auto simp: within_def empty_bound_def\<close>)
  then show ?thesis using within_in_range range_ops_bound [OF ops(3)] ops(2) by (simp add: v_def)
qed

section \<open>The filter as a whole\<close>

definition sat_ids :: "regex_engine \<Rightarrow> (string \<rightharpoonup> document) \<Rightarrow> document \<Rightarrow> string \<Rightarrow> string set" where
  "sat_ids rx ds flt f = {i. \<exists>d cond. ds i = Some d \<and> map_of flt f = Some cond \<and> matchField rx d f cond = Inr True}"

definition matching :: "regex_engine \<Rightarrow> (string \<rightharpoonup> document) \<Rightarrow> document \<Rightarrow> string set" where
  "matching rx ds flt = {i. \<exists>d. ds i = Some d \<and> match_doc rx d flt = Inr True}"

lemma match_doc_all:
  "match_doc rx d flt = Inr True \<longleftrightarrow> (\<forall>p \<in> set flt. matchField rx d (fst p) (snd p) = Inr True)"
proof (induction flt)
  case (Cons p flt)
  obtain f cond where p: "p = (f, cond)" by fastforce
  show ?case
  proof (cases "matchField rx d f cond")
    case (Inr b)
    then show ?thesis using Cons.IH p by (cases b) (simp_all del: matchField.simps)
  qed (simp add: p del: matchField.simps)
qed simp

lemma all_sat_matching: "distinct (map fst flt) \<Longrightarrow> all_sat ds (sat_ids rx ds flt) (fst ` set flt) = matching rx ds flt"
proof -
  assume d: "distinct (map fst flt)"
  have "i \<in> sat_ids rx ds flt (fst p) \<longleftrightarrow> (\<exists>d. ds i = Some d \<and> matchField rx d (fst p) (snd p) = Inr True)"
    if "p \<in> set flt" for i p
    using that d by (simp add: sat_ids_def map_of_is_SomeI [of flt "fst p" "snd p"])
  then show ?thesis by (auto simp: all_sat_def matching_def match_doc_all simp del: matchField.simps)
qed

lemma classify_ok:
  assumes p: "p \<in> set flt" "distinct (map fst flt)" and c: "cond_ok (snd p)" and f: "plain_docs ds flds" "fst p \<in> set flds"
  shows "fp_ok ds (sat_ids rx ds flt) (classify p)"
proof (cases "isLogicalOp (fst p)")
  case True
  then show ?thesis by (simp add: classify_def fp_ok_def)
next
  case False
  have pl: "plain_field (fst p)" and ks: "\<And>i d. ds i = Some d \<Longrightarrow> key_scalar (field_or_nil (fst p) d)"
    using f by (auto simp: plain_docs_def)
  have sat: "sat_ids rx ds flt (fst p) = {i. \<exists>d. ds i = Some d \<and> matchPlain rx d (fst p) (snd p) = Inr True}"
    using False map_of_is_SomeI [OF p(2), of "fst p" "snd p"] p(1) by (simp add: sat_ids_def del: map_of_eq_Some_iff)
  show ?thesis
  proof (cases "equalityValues (snd p)")
    case (Some vals)
    have "sat_ids rx ds flt (fst p) \<inter> dom ds = eq_ids ds (fst p) vals"
      using equality_match [OF pl ks Some c] by (auto simp: sat eq_ids_def)
    moreover have "\<forall>v \<in> set vals. is_scalar v" using c Some by (simp add: cond_ok_def key_scalar_def)
    ultimately show ?thesis using False Some by (simp add: classify_def fp_ok_def)
  next
    case None
    show ?thesis
    proof (cases "rangeValues (snd p)")
      case (Some rb)
      have "sat_ids rx ds flt (fst p) \<inter> dom ds \<subseteq> range_ids ds (fst p) rb"
        using range_match [OF pl None Some] by (auto simp: sat range_ids_def)
      then show ?thesis using False None Some c by (simp add: classify_def fp_ok_def cond_ok_def)
    qed (use None False in \<open>simp add: classify_def fp_ok_def\<close>)
  qed
qed

text \<open>What a query may rely on: the documents and conditions the indexes understand exactly.\<close>

definition query_ok :: "(string \<rightharpoonup> document) \<Rightarrow> index list \<Rightarrow> document \<Rightarrow> bool" where
  "query_ok ds idxs flt \<longleftrightarrow> distinct (map fst flt)
     \<and> (\<forall>idx \<in> set idxs. plain_docs ds (ix_fields idx)
          \<and> (\<forall>p \<in> set flt. fst p \<in> set (ix_fields idx) \<longrightarrow> cond_ok (snd p)))"

lemma plan_on_ok:
  assumes ok: "store_ok s" and c: "collRO name s = Some c" and q: "query_ok (docs s name) (c_indexes c) flt"
    and run: "plan_on name c flt s = (plan, s1)"
  shows "store_ok s1" and "docs s1 = docs s" and "\<exists>c1. collRO name s1 = Some c1 \<and> c_entries c1 = c_entries c"
    and "pr_used plan \<Longrightarrow> \<exists>cand. pr_cand plan = Some cand \<and> distinct cand \<and> set cand \<subseteq> dom (docs s name)
      \<and> matching rx (docs s name) flt \<subseteq> set cand \<and> (pr_exact plan \<longrightarrow> set cand = matching rx (docs s name) flt)
      \<and> (case pr_order plan of None \<Rightarrow> True | Some o' \<Rightarrow> distinct o' \<and> set o' = set cand)"
proof -
  let ?ds = "docs s name"
  obtain idxs where p: "planCandidates (c_indexes c) flt = (idxs, plan)" and s1: "s1 = putColl name (c\<lparr>c_indexes := idxs\<rparr>) s"
    using run by (auto simp: plan_on_def split: prod.splits)
  have ix: "\<forall>idx \<in> set (c_indexes c). idx_ok ?ds idx"
    using q store_ok_coherent [OF ok, of _ name] docs_storable [OF ok, of name] c
    by (auto simp: idx_ok_def query_ok_def indexes_def)
  have fp: "\<forall>p \<in> set flt. \<forall>idx \<in> set (c_indexes c). fst p \<in> set (ix_fields idx) \<longrightarrow> fp_ok ?ds (sat_ids rx ?ds flt) (classify p)"
    for rx
    using q by (intro ballI impI classify_ok) (auto simp: query_ok_def)
  note snd = plan_sound [OF ix fp p]
  have "\<And>idx. idx \<in> set idxs \<Longrightarrow> coherent ?ds idx" using snd(1) by (auto simp: idx_ok_def)
  from store_ok_reindex [OF ok c this] show "store_ok s1" "docs s1 = docs s" by (simp_all add: s1)
  show "\<exists>c1. collRO name s1 = Some c1 \<and> c_entries c1 = c_entries c" by (simp add: s1)
  show "pr_used plan \<Longrightarrow> \<exists>cand. pr_cand plan = Some cand \<and> distinct cand \<and> set cand \<subseteq> dom ?ds
      \<and> matching rx ?ds flt \<subseteq> set cand \<and> (pr_exact plan \<longrightarrow> set cand = matching rx ?ds flt)
      \<and> (case pr_order plan of None \<Rightarrow> True | Some o' \<Rightarrow> distinct o' \<and> set o' = set cand)"
    using snd(2) [of rx] all_sat_matching [of flt ?ds rx] q by (simp add: query_ok_def)
qed

section \<open>Materialization\<close>

text \<open>The documents under a list of ids that the filter keeps, read from a map.\<close>

fun pick :: "regex_engine \<Rightarrow> (string \<rightharpoonup> document) \<Rightarrow> document \<Rightarrow> bool \<Rightarrow> string list \<Rightarrow> document list res" where
  "pick rx ds flt rematch [] = Inr []"
| "pick rx ds flt rematch (i # ids) =
     (case ds i of None \<Rightarrow> pick rx ds flt rematch ids
      | Some d \<Rightarrow> and_then (if rematch then match_doc rx d flt else Inr True)
          (\<lambda>m. and_then (pick rx ds flt rematch ids) (\<lambda>r. Inr (if m then d # r else r))))"

lemma serial_pick:
  assumes "store_ok s" and "collRO name s = Some c1" and "c_entries c1 = c_entries c"
  shows "fst (materializeRefsSerial rx c ids flt rematch s) = pick rx (docs s name) flt rematch ids
    \<and> store_ok (snd (materializeRefsSerial rx c ids flt rematch s))
    \<and> docs (snd (materializeRefsSerial rx c ids flt rematch s)) = docs s
    \<and> (\<exists>c2. collRO name (snd (materializeRefsSerial rx c ids flt rematch s)) = Some c2 \<and> c_entries c2 = c_entries c)"
  using assms
proof (induction ids arbitrary: s c1)
  case (Cons i ids)
  have res: "resident c i t = resident c1 i t" for t using Cons.prems(3) by (simp add: resident_def)
  show ?case
  proof (cases "slot s name i")
    case None
    then have "resident c i s = (Inl ErrNotFound, s)" "docs s name i = None"
      using Cons.prems by (auto simp: slot_def resident_def docs_def split: option.splits)
    then show ?thesis using Cons.IH [OF Cons.prems] by simp
  next
    case (Some a)
    obtain d s1 where r: "resident c1 i s = (Inr d, s1)" "docs s name i = Some d" "store_ok s1" "docs s1 = docs s"
      "cache_step s s1"
      by (rule resident_ok [OF Cons.prems(1,2) Some])
    have "collRO name s1 = Some c1" using cache_stepD(1) [OF r(5)] Cons.prems(2) by (simp add: collRO_def)
    note ih = Cons.IH [OF r(3) this Cons.prems(3)]
    obtain refs s2 where m: "materializeRefsSerial rx c ids flt rematch s1 = (refs, s2)" by fastforce
    show ?thesis
    proof (cases "if rematch then match_doc rx d flt else Inr True")
      case (Inl e)
      then show ?thesis using r Cons.prems \<open>collRO name s1 = Some c1\<close> by (simp add: res)
    next
      case (Inr b)
      have "(rematch \<and> match_doc rx d flt = Inr False) = (\<not> b)" using Inr by (cases rematch) auto
      then show ?thesis using ih Inr r m by (cases "pick rx (docs s name) flt rematch ids") (simp_all add: res)
    qed
  qed
qed auto

lemma pick_append: "pick rx ds flt rm (xs @ ys) = and_then (pick rx ds flt rm xs) (\<lambda>a. and_then (pick rx ds flt rm ys) (\<lambda>b. Inr (a @ b)))"
proof (induction xs)
  case Nil
  show ?case by (cases "pick rx ds flt rm ys") simp_all
next
  case (Cons i xs)
  show ?case
  proof (cases "ds i")
    case (Some d)
    show ?thesis
      using Some Cons.IH
      by (cases "if rm then match_doc rx d flt else Inr True"; cases "pick rx ds flt rm xs"; cases "pick rx ds flt rm ys") simp_all
  qed (use Cons.IH in simp)
qed

lemma concat_chunks: "0 < n \<Longrightarrow> concat (chunks n xs) = xs"
  by (induction n xs rule: chunks.induct) (subst chunks.simps, simp)

lemma run_chunks_pick:
  assumes "store_ok s" and "collRO name s = Some c1" and "c_entries c1 = c_entries c"
  shows "fst (run_chunks rx c idss flt rm s) = map (pick rx (docs s name) flt rm) idss
    \<and> store_ok (snd (run_chunks rx c idss flt rm s)) \<and> docs (snd (run_chunks rx c idss flt rm s)) = docs s"
  using assms
proof (induction idss arbitrary: s c1)
  case (Cons ids idss)
  obtain r s1 where m: "materializeRefsSerial rx c ids flt rm s = (r, s1)" by fastforce
  note sp = serial_pick [OF Cons.prems, of rx ids flt rm]
  obtain c2 where "collRO name s1 = Some c2" "c_entries c2 = c_entries c" "store_ok s1" using sp m by auto
  note ih = Cons.IH [OF this(3,1,2)]
  show ?case using sp ih m by (auto split: prod.splits)
qed simp

lemma join_pick: "join_results (map (pick rx ds flt rm) idss) = pick rx ds flt rm (concat idss)"
  by (induction idss) (simp_all add: pick_append)

lemma pick_no_panic:
  assumes "\<And>i d m. i \<in> set ids \<Longrightarrow> ds i = Some d \<Longrightarrow> match_doc rx d flt \<noteq> Inl (Panicked m)"
  shows "\<not> is_panic (pick rx ds flt rm ids)"
  using assms
proof (induction ids)
  case (Cons i ids)
  have ih: "\<not> is_panic (pick rx ds flt rm ids)" using Cons by auto
  show ?case
  proof (cases "ds i")
    case (Some d)
    then have "match_doc rx d flt \<noteq> Inl (Panicked m)" for m using Cons.prems [of i d m] by simp
    then show ?thesis
      using ih Some by (cases "match_doc rx d flt"; cases rm; cases "pick rx ds flt rm ids") (auto simp: is_panic_def split: db_error.splits)
  qed (use ih in simp)
qed (simp add: is_panic_def)

lemma materialize_pick:
  assumes ok: "store_ok s" "collRO name s = Some c1" "c_entries c1 = c_entries c"
    and np: "\<And>i d m. docs s name i = Some d \<Longrightarrow> match_doc rx d flt \<noteq> Inl (Panicked m)"
  shows "fst (materializeRefs rx procs c ids flt rm s) = pick rx (docs s name) flt rm ids
    \<and> store_ok (snd (materializeRefs rx procs c ids flt rm s)) \<and> docs (snd (materializeRefs rx procs c ids flt rm s)) = docs s"
proof (cases "ids = [] \<or> findWorkers procs (st_opts s) \<le> 1 \<or> length ids < parallelMinIDs")
  case True
  then show ?thesis using serial_pick [OF ok, of rx ids flt rm] ok(1) by (auto simp: materializeRefs_def Let_def)
next
  case False
  define n where "n = max ((length ids + nat (findWorkers procs (st_opts s)) - 1) div nat (findWorkers procs (st_opts s))) parallelMinIDs"
  have n: "0 < n" by (simp add: n_def parallelMinIDs_def)
  obtain rs s' where r: "run_chunks rx c (chunks n ids) flt rm s = (rs, s')" by fastforce
  have rc: "rs = map (pick rx (docs s name) flt rm) (chunks n ids)" "store_ok s'" "docs s' = docs s"
    using run_chunks_pick [OF ok, of rx "chunks n ids" flt rm] r by auto
  have "find is_panic rs = None" using np pick_no_panic [of _ "docs s name"] by (fastforce simp: find_None_iff rc(1))
  moreover have "join_results rs = pick rx (docs s name) flt rm ids" using rc(1) join_pick concat_chunks [OF n] by metis
  ultimately show ?thesis using False r rc(2,3) by (simp add: materializeRefs_def Let_def n_def)
qed

section \<open>Find\<close>

text \<open>The answer to a query: the matching documents in order of id.\<close>

definition answer :: "regex_engine \<Rightarrow> (string \<rightharpoonup> document) \<Rightarrow> document \<Rightarrow> document list" where
  "answer rx ds flt = map (\<lambda>i. the (ds i)) (sorted_list_of_set (matching rx ds flt))"

definition ids_ok :: "store \<Rightarrow> bool" where
  "ids_ok s \<longleftrightarrow> (\<forall>n i d. docs s n i = Some d \<longrightarrow> doc_id d = Some i)"

definition total_on :: "regex_engine \<Rightarrow> (string \<rightharpoonup> document) \<Rightarrow> document \<Rightarrow> bool" where
  "total_on rx ds flt \<longleftrightarrow> (\<forall>i d. ds i = Some d \<longrightarrow> (\<exists>b. match_doc rx d flt = Inr b))"

lemma pick_total:
  "total_on rx ds flt \<Longrightarrow> set ids \<subseteq> dom ds \<Longrightarrow>
    pick rx ds flt rm ids = Inr (map (\<lambda>i. the (ds i)) (filter (\<lambda>i. rm \<longrightarrow> i \<in> matching rx ds flt) ids))"
proof (induction ids)
  case (Cons i ids)
  then obtain d where d: "ds i = Some d" by auto
  then obtain b where "match_doc rx d flt = Inr b" using Cons.prems(1) by (auto simp: total_on_def)
  note this d
  moreover from this have "i \<in> matching rx ds flt \<longleftrightarrow> b" by (auto simp: matching_def)
  ultimately show ?case using Cons by auto
qed simp

lemma finite_docs: "finite (dom (docs s name))"
proof -
  have "dom (docs s name) \<subseteq> (case collRO name s of None \<Rightarrow> {} | Some c \<Rightarrow> dom (map_of (c_entries c)))"
    by (auto simp: docs_def slot_def split: option.splits)
  then show ?thesis by (rule finite_subset) (simp add: finite_dom_map_of split: option.split)
qed

lemma docs_dom: "store_ok s \<Longrightarrow> collRO name s = Some c \<Longrightarrow> dom (docs s name) = fst ` set (c_entries c)"
  using docs_slot [of s name] by (auto simp: slot_def dom_def map_of_eq_None_iff)

lemma finite_matching [simp]: "finite (matching rx (docs s name) flt)"
  by (rule finite_subset [OF _ finite_docs [of s name]]) (auto simp: matching_def)

lemma sort_by_id:
  assumes "ids_ok s" and "distinct L" and "set L \<subseteq> dom (docs s name)"
  shows "sortRefsByID (map (\<lambda>i. the (docs s name i)) L) = Inr (map (\<lambda>i. the (docs s name i)) (sorted_list_of_set (set L)))"
proof -
  let ?g = "\<lambda>i. the (docs s name i)"
  have g: "doc_id (?g i) = Some i" if "i \<in> set L" for i using assms(1,3) that by (fastforce simp: ids_ok_def)
  have sl: "sorted_list_of_set (set L) = sort L" by (rule sorted_list_of_set_sort_remdups [THEN trans]) (simp add: assms(2) distinct_remdups_id)
  show ?thesis
  proof (cases "length L < 2")
    case True
    then have "sort L = L" by (cases L; cases "tl L") auto
    then show ?thesis using True sl by (simp add: sortRefsByID_def)
  next
    case False
    have "map (\<lambda>i. the (doc_id (?g i))) (sort L) = sort L" by (rule map_idI) (simp add: g)
    then have "sort_key (\<lambda>d. the (doc_id d)) (map ?g L) = map ?g (sort L)"
      using g by (intro sort_key_inj_key_eq) (auto simp: inj_on_def comp_def)
    moreover have "\<not> (\<exists>d \<in> set (map ?g L). doc_id d = None)" using g by auto
    ultimately show ?thesis using False sl unfolding sortRefsByID_def by simp
  qed
qed

definition no_sort :: "find_options option \<Rightarrow> bool" where
  "no_sort opts \<longleftrightarrow> (case opts of None \<Rightarrow> True | Some o' \<Rightarrow> fo_Sort o' = [])"

lemma order_refs_no_sort: "no_sort opts \<Longrightarrow> order_refs opts plan refs = sortRefsByID refs"
  by (auto simp: order_refs_def no_sort_def Let_def split: option.splits)

definition may_query :: "session option \<Rightarrow> string \<Rightarrow> document \<Rightarrow> store \<Rightarrow> bool" where
  "may_query sess name flt s \<longleftrightarrow> checkReadLocked sess name s = Inr ()
     \<and> \<not> (denied sess name \<noteq> [] \<and> filterTouchesFields (denied sess name) flt)"

text \<open>The candidates, walked and materialized, are the matching documents, each once.\<close>

lemma candidates_found:
  assumes ok: "store_ok s" and c: "collRO name s = Some c" and q: "query_ok (docs s name) (c_indexes c) flt"
    and tot: "total_on rx (docs s name) flt" and walk: "\<And>ids. mset (walk ids) = mset ids"
    and run: "plan_on name c flt s = (plan, s1)"
  shows "\<exists>L s2. (if pr_used plan then materializeRefs rx procs c (plan_ids walk plan) flt (\<not> pr_exact plan) s1
      else materializeRefs rx procs c (sort (map fst (c_entries c))) flt True s1) = (Inr (map (\<lambda>i. the (docs s name i)) L), s2)
    \<and> distinct L \<and> set L = matching rx (docs s name) flt \<and> store_ok s2 \<and> docs s2 = docs s"
proof -
  let ?ds = "docs s name"
  note p = plan_on_ok [OF ok c q run]
  obtain c1 where c1: "collRO name s1 = Some c1" "c_entries c1 = c_entries c" using p(3) by blast
  have np: "match_doc rx d flt \<noteq> Inl (Panicked m)" if "docs s1 name i = Some d" for i d m
    using tot that p(2) by (fastforce simp: total_on_def)
  have "fst (materializeRefs rx procs c ids flt rm s1) = pick rx (docs s1 name) flt rm ids
    \<and> store_ok (snd (materializeRefs rx procs c ids flt rm s1)) \<and> docs (snd (materializeRefs rx procs c ids flt rm s1)) = docs s1"
    for ids rm by (rule materialize_pick [OF p(1) c1 np])
  then have pick: "\<exists>s2. materializeRefs rx procs c ids flt rm s1 = (pick rx ?ds flt rm ids, s2) \<and> store_ok s2 \<and> docs s2 = docs s"
    for ids rm unfolding p(2) by (metis prod.collapse)
  have sub: "matching rx ?ds flt \<subseteq> dom ?ds" by (auto simp: matching_def)
  define ids where "ids = (if pr_used plan then plan_ids walk plan else sort (map fst (c_entries c)))"
  define rm where "rm = (if pr_used plan then \<not> pr_exact plan else True)"
  have ids: "distinct ids \<and> set ids \<subseteq> dom ?ds \<and> matching rx ?ds flt \<subseteq> set ids \<and> (\<not> rm \<longrightarrow> set ids = matching rx ?ds flt)"
  proof (cases "pr_used plan")
    case True
    obtain cand where cand: "pr_cand plan = Some cand" "distinct cand" "set cand \<subseteq> dom ?ds" "matching rx ?ds flt \<subseteq> set cand"
      "pr_exact plan \<longrightarrow> set cand = matching rx ?ds flt"
      "case pr_order plan of None \<Rightarrow> True | Some o' \<Rightarrow> distinct o' \<and> set o' = set cand"
      using p(4) [OF True, of rx] by blast
    have "distinct (plan_ids walk plan) \<and> set (plan_ids walk plan) = set cand"
      using cand(1,2,6) walk [of cand] mset_eq_setD [OF walk [of cand]] mset_eq_imp_distinct_iff [OF walk [of cand]]
      by (auto simp: plan_ids_def split: option.splits)
    then show ?thesis using cand True by (auto simp: ids_def rm_def)
  next
    case False
    then show ?thesis
      using store_ok_keys [OF ok c] docs_dom [OF ok c] sub by (simp add: ids_def rm_def distinct_keys_def)
  qed
  let ?L = "filter (\<lambda>i. rm \<longrightarrow> i \<in> matching rx ?ds flt) ids"
  obtain s2 where "materializeRefs rx procs c ids flt rm s1 = (Inr (map (\<lambda>i. the (?ds i)) ?L), s2)" "store_ok s2" "docs s2 = docs s"
    using pick [of ids rm] pick_total [OF tot, of ids rm] ids by auto
  moreover have "distinct ?L" "set ?L = matching rx ?ds flt" using ids by auto
  ultimately show ?thesis unfolding ids_def rm_def by (auto split: if_splits)
qed

lemma findDocs_answer:
  assumes ok: "store_ok s" "ids_ok s" and may: "may_query sess name flt s"
    and q: "query_ok (docs s name) (indexes s name) flt" and tot: "total_on rx (docs s name) flt"
    and walk: "\<And>ids. mset (walk ids) = mset ids" and ns: "no_sort opts"
  shows "view (findDocs rx procs walk sess name flt opts s)
      = (Inr (map (finish_doc (denied sess name) opts) (page opts (answer rx (docs s name) flt))), docs s)
    \<and> store_ok (snd (findDocs rx procs walk sess name flt opts s))"
proof (cases "collRO name s")
  case None
  then have "docs s name = Map.empty" by (auto simp: docs_def slot_def)
  then show ?thesis using may None ok(1) by (auto simp: findDocs_def may_query_def answer_def matching_def page_def split: option.splits)
next
  case (Some c)
  obtain plan s1 where run: "plan_on name c flt s = (plan, s1)" by fastforce
  have "query_ok (docs s name) (c_indexes c) flt" using q Some by (simp add: indexes_def)
  from candidates_found [OF ok(1) Some this tot walk run, of procs]
  obtain L s2 where L: "(if pr_used plan then materializeRefs rx procs c (plan_ids walk plan) flt (\<not> pr_exact plan) s1
      else materializeRefs rx procs c (sort (map fst (c_entries c))) flt True s1) = (Inr (map (\<lambda>i. the (docs s name i)) L), s2)"
    "distinct L" "set L = matching rx (docs s name) flt" "store_ok s2" "docs s2 = docs s" by blast
  have "set L \<subseteq> dom (docs s name)" unfolding L(3) by (auto simp: matching_def)
  then have "order_refs opts plan (map (\<lambda>i. the (docs s name i)) L) = Inr (answer rx (docs s name) flt)"
    using sort_by_id [OF ok(2) L(2), of name] L(3) by (simp add: order_refs_no_sort [OF ns] answer_def)
  then show ?thesis
    using may Some run L(1,4,5) unfolding findDocs_def may_query_def
    by (simp add: Let_def)
qed

section \<open>Count\<close>

definition count_ok :: "document \<Rightarrow> bool" where
  "count_ok flt \<longleftrightarrow> (\<forall>p \<in> set flt. case equalityValues (snd p) of None \<Rightarrow> True | Some vals \<Rightarrow> distinct (map encodeIndexValue vals))"

lemma eq_ids_sum:
  assumes "finite (dom ds)" and "distinct (map encodeIndexValue vals)"
  shows "sum_list (map (\<lambda>v. card (eq_ids ds f [v])) vals) = card (eq_ids ds f vals)"
  using assms(2)
proof (induction vals)
  case Nil
  then show ?case by (simp add: eq_ids_def)
next
  case (Cons v vals)
  have fin: "finite (eq_ids ds f vs)" for vs by (rule finite_subset [OF _ assms(1)]) (auto simp: eq_ids_def)
  have "eq_ids ds f [v] \<inter> eq_ids ds f vals = {}" using Cons.prems by (auto simp: eq_ids_def image_iff)
  then have "card (eq_ids ds f (v # vals)) = card (eq_ids ds f [v]) + card (eq_ids ds f vals)"
    unfolding eq_ids_Cons [of ds f v vals] using fin by (intro card_Un_disjoint) simp_all
  then show ?case using Cons by simp
qed

lemma countKey_lookup: "countKey idx values = length (lookupIDs idx values)"
  by (auto simp: countKey_def lookupIDs_def key_ids_def ids_at_def Let_def split: option.splits)

lemma countIndexed_answer:
  assumes ok: "store_ok s" and c: "collRO name s = Some c" and q: "query_ok (docs s name) (c_indexes c) flt" and d: "count_ok flt"
    and n: "countIndexed c flt = Some n"
  shows "n = card (matching rx (docs s name) flt)"
proof -
  let ?ds = "docs s name"
  obtain f cond vals idx where f: "flt = [(f, cond)]" "\<not> isLogicalOp f" "equalityValues cond = Some vals"
    "find (single_on f) (c_indexes c) = Some idx" "n = sum_list (map (\<lambda>v. countKey idx [v]) vals)"
    using n by (auto simp: countIndexed_def split: list.splits option.splits if_splits)
  have idx: "idx \<in> set (c_indexes c)" "single_on f idx" using f(4) by (auto simp: find_Some_iff)
  have "f \<in> set (ix_fields idx)" using idx(2) by (simp add: single_on_def)
  then have pd: "plain_docs ?ds (ix_fields idx)" "cond_ok cond" using q idx(1) f(1) by (auto simp: query_ok_def)
  have io: "idx_ok ?ds idx"
    using pd(1) idx(1) store_ok_coherent [OF ok, of idx name] docs_storable [OF ok, of name] c by (simp add: idx_ok_def indexes_def)
  have sc: "\<forall>v \<in> set vals. is_scalar v" using pd(2) f(3) by (simp add: cond_ok_def key_scalar_def)
  have "countKey idx [v] = card (eq_ids ?ds f [v])" if "v \<in> set vals" for v
  proof -
    have "set (lookupIDs idx [v]) = eq_ids ?ds f [v]" "distinct (lookupIDs idx [v])"
      using lookup_plain_ids [OF io idx(2)] sc that by auto
    then show ?thesis by (simp add: countKey_lookup distinct_card [symmetric])
  qed
  then have "n = sum_list (map (\<lambda>v. card (eq_ids ?ds f [v])) vals)" unfolding f(5) by (intro arg_cong [of _ _ sum_list]) simp
  also have "\<dots> = card (eq_ids ?ds f vals)" using d f(1,3) by (intro eq_ids_sum [OF finite_docs]) (simp add: count_ok_def)
  also have "eq_ids ?ds f vals = matching rx ?ds flt"
  proof -
    have "plain_field f" "\<And>i d. ?ds i = Some d \<Longrightarrow> key_scalar (field_or_nil f d)"
      using pd(1) idx(2) by (auto simp: plain_docs_def single_on_def)
    then have "match_doc rx d flt = Inr (\<exists>v \<in> set vals. encodeIndexValue (field_or_nil f d) = encodeIndexValue v)"
      if "?ds i = Some d" for i d
      using equality_match [OF _ _ f(3) pd(2), of f d rx] f(1,2) that by simp
    then show ?thesis by (auto simp: matching_def eq_ids_def)
  qed
  finally show ?thesis .
qed

lemma countMatches_materialize:
  "countMatches rx procs c ids flt s = (case materializeRefs rx procs c ids flt True s of (Inl e, s1) \<Rightarrow> (Inl e, s1) | (Inr refs, s1) \<Rightarrow> (Inr (length refs), s1))"
  by (auto simp: countMatches_def bind_out_def split: prod.splits sum.splits)

lemma countDocs_answer:
  assumes ok: "store_ok s" and may: "may_query sess name flt s"
    and q: "query_ok (docs s name) (indexes s name) flt" and d: "count_ok flt" and tot: "total_on rx (docs s name) flt"
    and walk: "\<And>ids. mset (walk ids) = mset ids"
  shows "view (countDocs rx procs walk sess name flt s) = (Inr (card (matching rx (docs s name) flt)), docs s)
    \<and> store_ok (snd (countDocs rx procs walk sess name flt s))"
proof (cases "collRO name s")
  case None
  then have "docs s name = Map.empty" by (auto simp: docs_def slot_def)
  then show ?thesis using may None ok(1) by (auto simp: countDocs_def may_query_def matching_def)
next
  case (Some c)
  let ?M = "matching rx (docs s name) flt"
  have q': "query_ok (docs s name) (c_indexes c) flt" using q Some by (simp add: indexes_def)
  show ?thesis
  proof (cases "if flt = [] then None else countIndexed c flt")
    case n: (Some n)
    then have "n = card ?M" using countIndexed_answer [OF ok Some q' d, of n rx] by (simp split: if_splits)
    then show ?thesis using may Some n ok unfolding countDocs_def may_query_def by (simp add: Let_def)
  next
    case None
    obtain plan s1 where run: "plan_on name c flt s = (plan, s1)" by fastforce
    note p = plan_on_ok [OF ok Some q' run]
    from candidates_found [OF ok Some q' tot walk run, where procs = procs]
    obtain L s2 where L: "(if pr_used plan then materializeRefs rx procs c (plan_ids walk plan) flt (\<not> pr_exact plan) s1
        else materializeRefs rx procs c (sort (map fst (c_entries c))) flt True s1) = (Inr (map (\<lambda>i. the (docs s name i)) L), s2)"
      "distinct L" "set L = ?M" "store_ok s2" "docs s2 = docs s" by blast
    have len: "length L = card ?M" using L(2,3) distinct_card by fastforce
    show ?thesis
    proof (cases "pr_used plan \<and> pr_exact plan")
      case True
      then obtain cand where "pr_cand plan = Some cand" "distinct cand" "set cand = ?M" using p(4) [of rx] by blast
      then have "length cand = card ?M" by (metis distinct_card)
      then show ?thesis using may Some None run True p(1,2) \<open>pr_cand plan = Some cand\<close>
        unfolding countDocs_def may_query_def by (simp add: Let_def)
    next
      case False
      then show ?thesis using may Some None run L(1,4,5) len
        unfolding countDocs_def may_query_def by (auto simp: Let_def countMatches_materialize)
    qed
  qed
qed

end
