(* ===== verification/Sort_Laws.thy ===== *)
theory Sort_Laws
  imports Find_Laws "HOL-Library.Option_ord"
begin

text \<open>
  Sorted queries. A full sort permutes the documents; with a limit, the bounded heap keeps the best
  ones and hands them out in order. The heap is proved inside a locale for any domain of keys on
  which the comparison is a strict weak order, interpreted for numbers and for strings, in both
  directions.
\<close>

section \<open>Sorting permutes\<close>

lemma mset_sortRefsByID: "sortRefsByID ds = Inr out \<Longrightarrow> mset out = mset ds"
  by (auto simp: sortRefsByID_def split: if_splits)

lemma mset_sort_pass: "mset (sort_pass ds p) = mset ds"
  by (simp add: sort_pass_def Let_def mset_stable_by_position)

lemma mset_sort_passes: "mset (foldl sort_pass ds ps) = mset ds"
  by (induction ps arbitrary: ds) (simp_all add: mset_sort_pass)

lemma mset_sortBy: "sortBy ds spec = Inr out \<Longrightarrow> mset out = mset ds"
  using mset_sortRefsByID by (auto simp: sortBy_def mset_sort_passes and_then_Inr_iff split: if_splits)

section \<open>The bounded heap\<close>

locale key_order =
  fixes dir :: int and K :: "jval set"
  assumes irrefl: "a \<in> K \<Longrightarrow> \<not> before_by dir a a"
    and trans_on: "a \<in> K \<Longrightarrow> b \<in> K \<Longrightarrow> c \<in> K \<Longrightarrow> before_by dir a b \<Longrightarrow> before_by dir b c \<Longrightarrow> before_by dir a c"
    and comparable: "a \<in> K \<Longrightarrow> b \<in> K \<Longrightarrow> c \<in> K \<Longrightarrow> before_by dir a c \<Longrightarrow> before_by dir a b \<or> before_by dir b c"
begin

abbreviation keyed :: "doc_heap \<Rightarrow> bool" where
  "keyed h \<equiv> fst ` set h \<subseteq> K"

lemma worst_step:
  assumes "keyed h" and "0 < n" and "n \<le> length h"
  shows "foldl (\<lambda>wi i. if before_by dir (fst (h ! wi)) (fst (h ! i)) then i else wi) 0 [1..<n] < n
    \<and> (\<forall>i < n. \<not> before_by dir (fst (h ! foldl (\<lambda>wi i. if before_by dir (fst (h ! wi)) (fst (h ! i)) then i else wi) 0 [1..<n])) (fst (h ! i)))"
  using assms(2,3)
proof (induction n rule: nat_induct_non_zero)
  case 1
  then have "fst (h ! 0) \<in> K" using assms(1) by (cases h) auto
  then show ?case using irrefl by simp
next
  case (Suc n)
  let ?w = "foldl (\<lambda>wi i. if before_by dir (fst (h ! wi)) (fst (h ! i)) then i else wi) 0 [1..<n]"
  have inK: "fst (h ! i) \<in> K" if "i < Suc n" for i
    using assms(1) nth_mem [of i h] that Suc.prems by (auto simp: image_subset_iff)
  have w: "?w < n" "\<And>i. i < n \<Longrightarrow> \<not> before_by dir (fst (h ! ?w)) (fst (h ! i))" using Suc by auto
  have up: "[1..<Suc n] = [1..<n] @ [n]" using Suc.hyps by simp
  have "\<not> before_by dir (fst (h ! n)) (fst (h ! i))" if "before_by dir (fst (h ! ?w)) (fst (h ! n))" "i < Suc n" for i
    using that w trans_on [of "fst (h ! ?w)" "fst (h ! n)" "fst (h ! i)"] inK irrefl by (auto simp: less_Suc_eq)
  then show ?case using w unfolding up by (auto simp: less_Suc_eq)
qed

lemma worst:
  assumes "keyed h" and "h \<noteq> []"
  shows "worstIdx dir h < length h" and "x \<in> set h \<Longrightarrow> \<not> before_by dir (fst (h ! worstIdx dir h)) (fst x)"
  using worst_step [OF assms(1), of "length h"] assms(2) by (auto simp: worstIdx_def in_set_conv_nth)

lemma pop:
  assumes "keyed h" and "h \<noteq> []"
  obtains e h' where "heap_pop dir h = (snd e, h')" and "mset h = add_mset e (mset h')" and "e \<in> set h"
    and "\<And>x. x \<in> set h \<Longrightarrow> \<not> before_by dir (fst e) (fst x)"
proof -
  let ?w = "worstIdx dir h"
  have w: "?w < length h" by (rule worst(1) [OF assms])
  have "h = take ?w h @ h ! ?w # drop (Suc ?w) h" using w by (rule id_take_nth_drop)
  then have "mset h = mset (take ?w h) + add_mset (h ! ?w) (mset (drop (Suc ?w) h))" by (metis mset.simps(2) mset_append)
  then have "mset h = add_mset (h ! ?w) (mset (remove_at ?w h))" by (simp add: remove_at_def)
  then show thesis
    using that [of "h ! ?w" "remove_at ?w h"] worst(2) [OF assms] w by (simp add: heap_pop_def Let_def)
qed

text \<open>What the heap holds after the entries \<open>P\<close> were pushed.\<close>

definition best_of :: "nat \<Rightarrow> doc_heap \<Rightarrow> doc_heap \<Rightarrow> bool" where
  "best_of need P h \<longleftrightarrow> mset h \<subseteq># mset P \<and> length h = min need (length P)
     \<and> (\<forall>x \<in># mset P - mset h. \<forall>y \<in> set h. \<not> before_by dir (fst x) (fst y))"

lemma push:
  assumes K: "keyed (P @ [e])" and b: "best_of need P h"
  shows "best_of need (P @ [e]) (heap_push dir need h e)"
proof (cases "length h < need")
  case True
  then have "length h = length P" using b by (auto simp: best_of_def)
  then have "mset h = mset P" using b by (metis best_of_def size_mset subset_mset.antisym_conv2 mset_subset_size nat_neq_iff)
  moreover have "length P < need" using True \<open>length h = length P\<close> by simp
  ultimately show ?thesis by (simp add: heap_push_def best_of_def Let_def \<open>length h = length P\<close>)
next
  case False
  then have len: "length h = need" using b by (auto simp: best_of_def)
  have sub: "mset h \<subseteq># mset P" using b by (simp add: best_of_def)
  have subs: "set h \<subseteq> set P" using set_mset_mono [OF sub] by simp
  then have "keyed (h @ [e])" using K by auto
  then obtain w h' where w: "heap_pop dir (h @ [e]) = (snd w, h')" "mset (h @ [e]) = add_mset w (mset h')" "w \<in> set (h @ [e])"
    "\<And>x. x \<in> set (h @ [e]) \<Longrightarrow> \<not> before_by dir (fst w) (fst x)" by (rule pop) auto
  have res: "heap_push dir need h e = h'" using len w(1) by (simp add: heap_push_def Let_def)
  have m: "add_mset e (mset h) = add_mset w (mset h')" using w(2) by simp
  have "size (mset h') = size (mset h)" using m by (metis add_mset_remove_trivial size_Diff_singleton size_add_mset nat.inject)
  then have l: "length h' = min need (length (P @ [e]))" using len sub size_mset_mono [OF sub] by simp
  have le: "mset h' \<subseteq># mset (P @ [e])"
  proof -
    have "mset h' \<subseteq># add_mset w (mset h')" by simp
    also have "\<dots> \<subseteq># mset (P @ [e])" unfolding m [symmetric] using sub by simp
    finally show ?thesis .
  qed
  have drop: "mset (P @ [e]) - mset h' = add_mset w (mset P - mset h)"
  proof -
    obtain D where D: "mset P = mset h + D" using sub by (metis subset_mset.le_iff_add)
    then have "mset (P @ [e]) = add_mset e (mset h) + D" by simp
    also have "\<dots> = mset h' + add_mset w D" by (simp only: m) simp
    finally have "mset (P @ [e]) - mset h' = add_mset w D" by (simp only: add_diff_cancel_left')
    moreover have "mset P - mset h = D" using D by simp
    ultimately show ?thesis by simp
  qed
  have old: "\<not> before_by dir (fst x) (fst y)" if x: "x \<in># mset P - mset h" and y: "y \<in> set h'" for x y
  proof (cases "y \<in> set h")
    case True
    then show ?thesis using b x by (simp add: best_of_def)
  next
    case False
    then have ye: "y = e" using y m [THEN arg_cong [of _ _ set_mset]] by auto
    have "w \<noteq> e" using mset_eq_setD [of h h'] m False y ye by auto
    then have "w \<in> set h" using w(3) by simp
    then have "\<not> before_by dir (fst x) (fst w)" using b x by (simp add: best_of_def)
    moreover have "\<not> before_by dir (fst w) (fst e)" using w(4) [of e] by simp
    moreover have "x \<in> set P" using x by (metis in_diffD set_mset_mset)
    ultimately show ?thesis using comparable [of "fst x" "fst w" "fst e"] K subs \<open>w \<in> set h\<close> ye by auto
  qed
  have "\<not> before_by dir (fst w) (fst y)" if "y \<in> set h'" for y
  proof -
    have "y \<in># add_mset e (mset h)" using that m by simp
    then show ?thesis using w(4) by auto
  qed
  then show ?thesis unfolding res best_of_def drop using old l le by auto
qed


lemma best_of_pushes: "keyed P \<Longrightarrow> best_of need P (foldl (heap_push dir need) [] P)"
proof (induction P rule: rev_induct)
  case (snoc e P)
  then have "keyed P" by auto
  from push [OF snoc.prems snoc.IH [OF this]] show ?case by simp
qed (simp add: best_of_def)

text \<open>Popping all entries yields them from the best to the worst.\<close>

lemma drain:
  assumes "keyed h" and "\<forall>x \<in> set h. fst x = key (snd x)" and "n = length h" and "sorted_wrt (\<lambda>a b. \<not> before_by dir (key b) (key a)) out"
    and "\<forall>o' \<in> set out. \<forall>x \<in> set h. \<not> before_by dir (key o') (fst x)"
  shows "mset (heap_drain dir n h out) = mset (map snd h) + mset out
    \<and> sorted_wrt (\<lambda>a b. \<not> before_by dir (key b) (key a)) (heap_drain dir n h out)"
  using assms
proof (induction n arbitrary: h out)
  case (Suc n)
  then have ne: "h \<noteq> []" by auto
  obtain e h' where e: "heap_pop dir h = (snd e, h')" "mset h = add_mset e (mset h')" "e \<in> set h"
    "\<And>x. x \<in> set h \<Longrightarrow> \<not> before_by dir (fst e) (fst x)" by (rule pop [OF Suc.prems(1) ne]) blast
  have sub: "set h' \<subseteq> set h" using e(2) [THEN arg_cong [of _ _ set_mset]] by auto
  have k: "fst e = key (snd e)" using Suc.prems(2) e(3) by blast
  have "mset (heap_drain dir n h' (snd e # out)) = mset (map snd h') + mset (snd e # out)
    \<and> sorted_wrt (\<lambda>a b. \<not> before_by dir (key b) (key a)) (heap_drain dir n h' (snd e # out))"
  proof (rule Suc.IH)
    show "keyed h'" using Suc.prems(1) sub by auto
    show "\<forall>x \<in> set h'. fst x = key (snd x)" using Suc.prems(2) sub by auto
    show "n = length h'" using Suc.prems(3) e(2) by (metis Suc_inject size_add_mset size_mset)
    show "sorted_wrt (\<lambda>a b. \<not> before_by dir (key b) (key a)) (snd e # out)"
      using Suc.prems(4) bspec [OF bspec [OF Suc.prems(5)] e(3)] by (simp add: k)
    show "\<forall>o' \<in> set (snd e # out). \<forall>x \<in> set h'. \<not> before_by dir (key o') (fst x)"
      using Suc.prems(5) sub e(4) k by auto
  qed
  moreover have "mset (map snd h) = add_mset (snd e) (mset (map snd h'))" using e(2) by (metis image_mset_add_mset mset_map)
  ultimately show ?case using e(1) by simp
qed simp

text \<open>What the partial sort puts in front: the best \<open>need\<close> documents, in order.\<close>

lemma top_docs_best:
  assumes K: "field_or_nil f ` set ds \<subseteq> K" and top: "top_docs f dir need ds = out"
  shows "length out = min need (length ds)" and "mset out \<subseteq># mset ds"
    and "sorted_wrt (\<lambda>a b. \<not> before_by dir (field_or_nil f b) (field_or_nil f a)) out"
    and "\<forall>d \<in># mset ds - mset out. \<forall>o' \<in> set out. \<not> before_by dir (field_or_nil f d) (field_or_nil f o')"
proof -
  let ?P = "map (\<lambda>d. (field_or_nil f d, d)) ds"
  let ?h = "foldl (heap_push dir need) [] ?P"
  have P: "keyed ?P" using K by auto
  have b: "best_of need ?P ?h" by (rule best_of_pushes [OF P])
  have sub: "set ?h \<subseteq> set ?P" using b set_mset_mono [of "mset ?h" "mset ?P"] by (simp add: best_of_def)
  have kh: "keyed ?h" using image_mono [OF sub, of fst] P by (rule subset_trans)
  have eq: "\<forall>x \<in> set ?h. fst x = field_or_nil f (snd x)" using sub by auto
  have d: "mset out = mset (map snd ?h) \<and> sorted_wrt (\<lambda>a b. \<not> before_by dir (field_or_nil f b) (field_or_nil f a)) out"
    using drain [OF kh eq refl, of "[]"] top by (simp add: top_docs_def Let_def)
  show "sorted_wrt (\<lambda>a b. \<not> before_by dir (field_or_nil f b) (field_or_nil f a)) out" using d by blast
  have "length out = length ?h" using mset_length [OF conjunct1 [OF d]] by simp
  then show "length out = min need (length ds)" using b by (simp add: best_of_def)
  have ds: "image_mset snd (mset ?P) = mset ds" by (simp add: comp_def multiset.map_comp)
  have le: "mset ?h \<subseteq># mset ?P" using b by (simp add: best_of_def)
  show "mset out \<subseteq># mset ds" using conjunct1 [OF d] image_mset_subseteq_mono [OF le, of snd] unfolding ds by (simp only: mset_map)
  have "mset ds - mset out = image_mset snd (mset ?P - mset ?h)" unfolding image_mset_Diff [OF le] ds using d by (simp only: mset_map)
  then show "\<forall>d \<in># mset ds - mset out. \<forall>o' \<in> set out. \<not> before_by dir (field_or_nil f d) (field_or_nil f o')"
  proof -
    have "\<not> before_by dir (field_or_nil f (snd x)) (field_or_nil f o')" if x: "x \<in># mset ?P - mset ?h" and o': "o' \<in> set out" for x o'
    proof -
      have "x \<in> set ?P" using in_diffD [OF x] by (simp only: set_mset_mset)
      then have x1: "fst x = field_or_nil f (snd x)" by auto
      have "set out = snd ` set ?h" using mset_eq_setD [OF conjunct1 [OF d]] by simp
      then obtain y where y: "y \<in> set ?h" "o' = snd y" using o' by blast
      have "\<not> before_by dir (fst x) (fst y)" using b x y(1) unfolding best_of_def by blast
      then show ?thesis using x1 y eq by simp
    qed
    then show ?thesis unfolding \<open>mset ds - mset out = _\<close> by auto
  qed
qed

end

text \<open>The keys of a collection: numbers or strings, with documents that lack the field.\<close>

definition number_keys :: "jval set" where
  "number_keys = {v. v = JNull \<or> (\<exists>x. to_float v = Some x \<and> \<not> f64_is_nan x)}"

definition string_keys :: "jval set" where
  "string_keys = {v. v = JNull \<or> (\<exists>s. v = JStr s)}"

lemma compare_numbers:
  "a \<in> number_keys \<Longrightarrow> b \<in> number_keys \<Longrightarrow> compareValues a b =
    sign3 (map_option f64_key (to_float a) < map_option f64_key (to_float b)) (map_option f64_key (to_float b) < map_option f64_key (to_float a))"
  by (cases a; cases b) (auto simp: number_keys_def compareValues_def sign3_def f64_lt_def)

lemma compare_strings:
  "a \<in> string_keys \<Longrightarrow> b \<in> string_keys \<Longrightarrow> compareValues a b =
    sign3 ((case a of JStr s \<Rightarrow> Some s | _ \<Rightarrow> None) < (case b of JStr s \<Rightarrow> Some s | _ \<Rightarrow> None))
      ((case b of JStr s \<Rightarrow> Some s | _ \<Rightarrow> None) < (case a of JStr s \<Rightarrow> Some s | _ \<Rightarrow> None))"
  by (auto simp: string_keys_def compareValues_def sign3_def)

lemma sign3_sign: "0 < sign3 lt gt \<longleftrightarrow> \<not> lt \<and> gt" "sign3 lt gt < 0 \<longleftrightarrow> lt"
  by (auto simp: sign3_def)

lemma key_order_by:
  fixes k :: "jval \<Rightarrow> 'k :: linorder"
  assumes "\<And>a b. a \<in> K \<Longrightarrow> b \<in> K \<Longrightarrow> compareValues a b = sign3 (k a < k b) (k b < k a)"
  shows "key_order dir K"
  by unfold_locales (use assms in \<open>auto simp: before_by_def Let_def sign3_sign split: if_splits\<close>)

interpretation number: key_order dir number_keys for dir
  by (rule key_order_by [OF compare_numbers])

interpretation text_key: key_order dir string_keys for dir
  by (rule key_order_by [OF compare_strings])

end
