(* ===== verification/Store_Reach.thy ===== *)
theory Store_Reach
  imports Hooks Sort_Laws
begin

text \<open>
  The invariant of the store carried through every operation, hooks included: \<open>good\<close> says that the
  store is well-formed and every document carries the id it is stored under. A hook is safe when it
  keeps this, whatever it does through its context, and leaves a document about to be stored with
  its id and encodable. Mutations with safe hooks keep the invariant, to any depth of nesting.
\<close>

section \<open>Queries change no document\<close>

lemma coherent_seek:
  "coherent ds idx \<Longrightarrow> coherent ds (fst (seekPrefix idx vals))"
  "coherent ds idx \<Longrightarrow> coherent ds (fst (seekRange idx rb))"
proof -
  have "coherent ds (ensureOrd idx)" if "coherent ds idx" using that by (simp add: coherent_def wf_ensureOrd)
  then show "coherent ds idx \<Longrightarrow> coherent ds (fst (seekPrefix idx vals))" "coherent ds idx \<Longrightarrow> coherent ds (fst (seekRange idx rb))"
    using seekPrefix_state [of idx vals] by (auto simp: seekRange_state)
qed

lemma coherent_seek_all: "coherent ds idx \<Longrightarrow> coherent ds (fst (seek_all vals idx))"
proof (induction vals arbitrary: idx)
  case (Cons v vals)
  then show ?case using coherent_seek(1) [OF Cons.prems, of "[v]"] by (auto split: prod.splits) (metis fst_conv)
qed simp

abbreviation all_coherent :: "(string \<rightharpoonup> document) \<Rightarrow> index list \<Rightarrow> bool" where
  "all_coherent ds idxs \<equiv> \<forall>idx \<in> set idxs. coherent ds idx"

lemma coherent_compound: "all_coherent ds idxs \<Longrightarrow> all_coherent ds (fst (plan_compound plans idxs st))"
proof (induction idxs arbitrary: st)
  case (Cons idx idxs)
  have "coherent ds (fst (use_compound plans idx st))"
    using Cons.prems coherent_seek(1) [of ds idx] by (auto simp: use_compound_def Let_def split: prod.splits) (metis fst_conv)
  then show ?case using Cons by (auto simp: Let_def split: prod.splits) (metis fst_conv)+
qed simp

lemma coherent_first:
  assumes "with_first P f idxs = Some (idxs', idx, x)" and "all_coherent ds idxs" and "\<And>i. coherent ds i \<Longrightarrow> coherent ds (fst (f i))"
  shows "all_coherent ds idxs'"
  using with_first_Some [OF assms(1)] assms(2,3) by auto

lemma coherent_eq:
  assumes "seekEqualityField idxs f vals = Some (idxs', idx, got)" and "all_coherent ds idxs"
  shows "all_coherent ds idxs'"
proof (cases "with_first (single_on f) (\<lambda>idx. (idx, lookup_all vals idx)) idxs")
  case (Some r)
  then have "with_first (single_on f) (\<lambda>idx. (idx, lookup_all vals idx)) idxs = Some (idxs', idx, got)"
    using assms(1) by (simp add: seekEqualityField_def)
  from coherent_first [OF this assms(2)] show ?thesis by simp
next
  case None
  then have "with_first (\<lambda>idx. 1 < length (ix_fields idx) \<and> leads_with f idx) (seek_all vals) idxs = Some (idxs', idx, got)"
    using assms(1) by (simp add: seekEqualityField_def)
  from coherent_first [OF this assms(2) coherent_seek_all] show ?thesis .
qed

lemma coherent_range_lookup:
  assumes "with_first (leads_with f) (\<lambda>idx. seekRange idx rb) idxs = Some (idxs', idx, got)" and "all_coherent ds idxs"
  shows "all_coherent ds idxs'"
  using coherent_first [OF assms coherent_seek(2)] .

lemma coherent_field: "all_coherent ds idxs \<Longrightarrow> all_coherent ds (fst (plan_field consumed fp (idxs, res)))"
  using coherent_eq [of idxs "fp_field fp" "fp_eqVals fp"] coherent_range_lookup [of "fp_field fp" "fp_rb fp" idxs]
  by (auto simp: plan_field_def Let_def simp del: Ball_def split: option.splits if_splits)

lemma coherent_fields: "all_coherent ds (fst st) \<Longrightarrow> all_coherent ds (fst (fold (plan_field consumed) fps st))"
proof (induction fps arbitrary: st)
  case (Cons fp fps)
  have "all_coherent ds (fst (plan_field consumed fp st))"
    using coherent_field [where ds = ds and idxs = "fst st" and res = "snd st"] Cons.prems by simp
  from Cons.IH [OF this] show ?case by simp
qed simp

lemma coherent_plan: "all_coherent ds idxs \<Longrightarrow> all_coherent ds (fst (planCandidates idxs flt))"
proof -
  assume ok: "all_coherent ds idxs"
  let ?plans = "map classify flt"
  obtain idxs1 res1 con where 1: "plan_compound ?plans idxs (no_plan True, []) = (idxs1, res1, con)" by (metis surj_pair)
  obtain idxs2 res2 where 2: "fold (plan_field con) ?plans (idxs1, res1) = (idxs2, res2)" by fastforce
  have "all_coherent ds idxs1" using coherent_compound [OF ok, of ?plans] 1 by (metis fst_conv)
  from coherent_fields [where ds = ds and st = "(idxs1, res1)" and consumed = con and fps = ?plans] this 2 have "all_coherent ds idxs2" by simp
  then show ?thesis using ok 1 2 by (simp add: planCandidates_def Let_def)
qed

lemma plan_on_frame:
  assumes "store_ok s" and "collRO name s = Some c" and "plan_on name c flt s = (plan, s1)"
  shows "store_ok s1 \<and> docs s1 = docs s \<and> (\<exists>c1. collRO name s1 = Some c1 \<and> c_entries c1 = c_entries c)"
proof -
  obtain idxs where p: "planCandidates (c_indexes c) flt = (idxs, plan)" "s1 = putColl name (c\<lparr>c_indexes := idxs\<rparr>) s"
    using assms(3) by (auto simp: plan_on_def split: prod.splits)
  have "all_coherent (docs s name) (c_indexes c)" using store_ok_coherent [OF assms(1)] assms(2) by (auto simp: indexes_def)
  then have "\<And>idx. idx \<in> set idxs \<Longrightarrow> coherent (docs s name) idx" using coherent_plan [where idxs = "c_indexes c" and flt = flt] p(1) by fastforce
  from store_ok_reindex [OF assms(1,2) this] show ?thesis by (simp add: p(2))
qed

lemma materialize_frame:
  assumes "store_ok s" and "collRO name s = Some c1" and "c_entries c1 = c_entries c"
  shows "store_ok (snd (materializeRefs rx procs c ids flt rm s)) \<and> docs (snd (materializeRefs rx procs c ids flt rm s)) = docs s"
  using serial_pick [OF assms, of rx ids flt rm] run_chunks_pick [OF assms, of rx _ flt rm] assms(1)
  by (auto simp: materializeRefs_def Let_def split: prod.splits) (metis snd_conv)+

lemma bind_out_frame:
  assumes "store_ok (snd m) \<and> docs (snd m) = D" and "\<And>x s. store_ok s \<Longrightarrow> docs s = D \<Longrightarrow> store_ok (snd (f x s)) \<and> docs (snd (f x s)) = D"
  shows "store_ok (snd (bind_out m f)) \<and> docs (snd (bind_out m f)) = D"
  using assms by (cases m; cases "fst m") auto

lemma findDocs_frame:
  assumes "store_ok s"
  shows "store_ok (snd (findDocs rx procs walk sess name flt opts s)) \<and> docs (snd (findDocs rx procs walk sess name flt opts s)) = docs s"
proof (cases "collRO name s")
  case None
  then show ?thesis using assms by (cases "checkReadLocked sess name s") (simp_all add: findDocs_def Let_def)
next
  case (Some c)
  obtain plan s1 where p: "plan_on name c flt s = (plan, s1)" by fastforce
  note pf = plan_on_frame [OF assms Some p]
  then obtain c1 where c1: "collRO name s1 = Some c1" "c_entries c1 = c_entries c" "store_ok s1" "docs s1 = docs s" by blast
  have m: "store_ok (snd (materializeRefs rx procs c ids flt rm s1)) \<and> docs (snd (materializeRefs rx procs c ids flt rm s1)) = docs s"
    for ids rm using materialize_frame [OF c1(3,1,2), of rx procs ids flt rm] c1(4) by simp
  show ?thesis
    using assms by (cases "checkReadLocked sess name s") (simp_all add: findDocs_def Let_def Some p bind_out_frame m)
qed

lemma countDocs_frame:
  assumes "store_ok s"
  shows "store_ok (snd (countDocs rx procs walk sess name flt s)) \<and> docs (snd (countDocs rx procs walk sess name flt s)) = docs s"
proof (cases "collRO name s")
  case None
  then show ?thesis using assms by (cases "checkReadLocked sess name s") (simp_all add: countDocs_def Let_def)
next
  case (Some c)
  obtain plan s1 where p: "plan_on name c flt s = (plan, s1)" by fastforce
  note pf = plan_on_frame [OF assms Some p]
  then obtain c1 where c1: "collRO name s1 = Some c1" "c_entries c1 = c_entries c" "store_ok s1" "docs s1 = docs s" by blast
  have m: "store_ok (snd (countMatches rx procs c ids flt s1)) \<and> docs (snd (countMatches rx procs c ids flt s1)) = docs s"
    for ids using materialize_frame [OF c1(3,1,2), of rx procs ids flt True] c1(4) by (simp add: countMatches_def bind_out_frame)
  show ?thesis
    using assms pf
    by (cases "checkReadLocked sess name s"; cases "if flt = [] then None else countIndexed c flt")
      (simp_all add: countDocs_def Let_def Some p m)
qed

section \<open>The invariant of single operations\<close>

definition good :: "store \<Rightarrow> bool" where
  "good s \<longleftrightarrow> store_ok s \<and> ids_ok s"

lemma good_docs: "store_ok s' \<Longrightarrow> docs s' = docs s \<Longrightarrow> good s \<Longrightarrow> good s'"
  by (simp add: good_def ids_ok_def)

lemma good_set: "store_ok s' \<Longrightarrow> docs s' = set_doc name did (Some d) (docs s) \<Longrightarrow> good s \<Longrightarrow> doc_id d = Some did \<Longrightarrow> good s'"
  by (auto simp: good_def ids_ok_def set_doc_def)

lemma good_unset: "store_ok s' \<Longrightarrow> docs s' = set_doc name did None (docs s) \<Longrightarrow> good s \<Longrightarrow> good s'"
  by (auto simp: good_def ids_ok_def set_doc_def split: if_splits)

lemma good_insert: "good s \<Longrightarrow> storable doc \<Longrightarrow> doc_id doc = Some did \<Longrightarrow> good (snd (insertBody name did doc s))"
  using insertBody_refines [of s doc name did] good_docs [of "snd (insertBody name did doc s)" s] good_set [of "snd (insertBody name did doc s)"]
  by (auto simp: good_def view_def spec_insert_def prod_eq_iff split: if_splits)

lemma doc_id_mput [simp]: "doc_id (mput ''_id'' (JStr did) doc) = Some did"
  by (simp add: doc_id_def)

lemma good_upsert: "good s \<Longrightarrow> storable doc \<Longrightarrow> good (snd (upsertBody name did doc s))"
  using upsertBody_refines [of s doc name did] good_docs [of "snd (upsertBody name did doc s)" s] good_set [of "snd (upsertBody name did doc s)"]
  by (auto simp: good_def view_def spec_upsert_def Let_def prod_eq_iff split: if_splits)

lemma map_of_remove_fields: "map_of (remove_fields d ks) k = (if k \<in> set ks then None else map_of d k)"
  unfolding remove_fields_def by (induction ks arbitrary: d) auto

lemma merge_keeps_id: "map_of (merge_patch d patch) ''_id'' = map_of d ''_id''"
  unfolding merge_patch_def by (induction patch arbitrary: d) auto

lemma good_update:
  assumes "good s" and "''_id'' \<notin> set remove"
  shows "good (snd (updateBody name did patch remove s))"
proof -
  let ?r = "updateBody name did patch remove s"
  have ok: "store_ok (snd ?r)" and v: "view ?r = spec_update (indexes s name) name did patch remove (docs s)"
    using updateBody_refines [of s name did patch remove] assms(1) by (auto simp: good_def)
  show ?thesis
  proof (cases "docs s name did")
    case None
    then show ?thesis using v ok assms(1) good_docs [of "snd ?r" s] by (simp add: view_def spec_update_def)
  next
    case (Some old)
    then have "doc_id (remove_fields (merge_patch old patch) remove) = Some did"
      using assms by (simp add: doc_id_def map_of_remove_fields merge_keeps_id) (simp add: good_def ids_ok_def doc_id_def)
    then show ?thesis
      using v ok Some assms(1) good_docs [of "snd ?r" s] good_set [of "snd ?r" name did]
      by (auto simp: view_def spec_update_def Let_def prod_eq_iff split: sum.splits if_splits)
  qed
qed

lemma good_delete: "good s \<Longrightarrow> good (snd (deleteBody name did s))"
  using deleteBody_refines [of s name did] good_docs [of "snd (deleteBody name did s)" s] good_unset [of "snd (deleteBody name did s)"]
  by (auto simp: good_def view_def spec_delete_def prod_eq_iff split: if_splits)

lemma good_wait: "(\<And>s. good s \<Longrightarrow> good (wt s)) \<Longrightarrow> good s \<Longrightarrow> good (waitBackpressureLocked wt s)"
  by (simp add: waitBackpressureLocked_def)

lemma good_guard: "good s \<Longrightarrow> (\<And>u. chk = Inr u \<Longrightarrow> good (snd (f s))) \<Longrightarrow> good (snd (guard_out chk s f))"
  by (cases chk) auto

lemma good_bind: "good (snd m) \<Longrightarrow> (\<And>x s. m = (Inr x, s) \<Longrightarrow> good s \<Longrightarrow> good (snd (f x s))) \<Longrightarrow> good (snd (bind_out m f))"
  by (cases m; cases "fst m") auto

lemma good_apply:
  assumes wt: "\<And>s. good s \<Longrightarrow> good (wt s)" and g: "good s"
  shows "storable doc \<Longrightarrow> doc_id doc = Some did \<Longrightarrow> good (snd (insertApply wt sess name did doc s))"
    and "storable doc \<Longrightarrow> good (snd (upsertApply wt sess name did doc s))"
    and "''_id'' \<notin> set remove \<Longrightarrow> good (snd (updateApply wt sess name did patch remove s))"
    and "good (snd (deleteApply wt sess name did s))"
  unfolding insertApply_def upsertApply_def updateApply_def deleteApply_def
  by (intro good_guard good_insert good_upsert good_update good_delete good_wait [OF wt] g; assumption)+

lemma previewDoc_good:
  assumes "good s"
  shows "good (snd (previewDoc name did s))" and "fst (previewDoc name did s) = Inr d \<Longrightarrow> docs s name did = Some d"
proof -
  have "good (snd (previewDoc name did s)) \<and> (\<forall>d. fst (previewDoc name did s) = Inr d \<longrightarrow> docs s name did = Some d)"
  proof (cases "slot s name did")
    case None
    then show ?thesis using assms by (auto simp: previewDoc_def slot_def resident_def split: option.splits)
  next
    case (Some a)
    then obtain c where c: "collRO name s = Some c" by (auto simp: slot_def split: option.splits)
    have "store_ok s" using assms by (simp add: good_def)
    from resident_ok [OF this c Some] obtain d s1
      where "resident c did s = (Inr d, s1)" "docs s name did = Some d" "store_ok s1" "docs s1 = docs s" by metis
    then show ?thesis using c assms good_docs [of s1 s] by (simp add: previewDoc_def)
  qed
  then show "good (snd (previewDoc name did s))" "fst (previewDoc name did s) = Inr d \<Longrightarrow> docs s name did = Some d" by auto
qed

lemma getDoc_good: "good s \<Longrightarrow> good (snd (getDoc sess name did s))"
  using getDoc_refines [of s sess name did] good_docs [of "snd (getDoc sess name did s)" s]
  by (auto simp: good_def view_def prod_eq_iff split: sum.splits option.splits)

lemma findDocs_good: "good s \<Longrightarrow> good (snd (findDocs rx procs walk sess name flt opts s))"
  and countDocs_good: "good s \<Longrightarrow> good (snd (countDocs rx procs walk sess name flt s))"
  using findDocs_frame [of s rx procs walk sess name flt opts] countDocs_frame [of s rx procs walk sess name flt] good_docs
  by (auto simp: good_def ids_ok_def)

section \<open>Mutations with hooks\<close>

text \<open>The contexts in which a hook may not spoil the document: it is about to be stored unchecked.\<close>

definition stored_event :: "string \<Rightarrow> bool" where
  "stored_event ev \<longleftrightarrow> ev = ''before_insert'' \<or> ev = ''before_upsert''"

definition doc_fit :: "string \<Rightarrow> string \<Rightarrow> document option \<Rightarrow> bool" where
  "doc_fit ev did doc \<longleftrightarrow> (case doc of None \<Rightarrow> True
     | Some d \<Rightarrow> (stored_event ev \<longrightarrow> storable d) \<and> (ev = ''before_insert'' \<longrightarrow> doc_id d = Some did))"

definition runner_safe :: "hook_runner \<Rightarrow> bool" where
  "runner_safe hk \<longleftrightarrow>
     (\<forall>regs ev name did doc old s. good s \<longrightarrow> doc_fit ev did doc \<longrightarrow> (\<forall>o'. old = Some o' \<longrightarrow> storable o') \<longrightarrow>
        good (snd (run_before hk regs ev name did doc old s))
        \<and> (\<forall>w. fst (run_before hk regs ev name did doc old s) = Inr w \<longrightarrow> doc_fit ev did w))
     \<and> (\<forall>ev name did doc old s. good s \<longrightarrow> \<not> stored_event ev \<longrightarrow> (\<forall>o'. old = Some o' \<longrightarrow> storable o') \<longrightarrow> good (run_after hk ev name did doc old s))"

lemma runner_safeD:
  assumes "runner_safe hk" and "good s" and "\<And>o'. old = Some o' \<Longrightarrow> storable o'"
  shows "doc_fit ev did doc \<Longrightarrow> good (snd (run_before hk regs ev name did doc old s))"
    and "doc_fit ev did doc \<Longrightarrow> run_before hk regs ev name did doc old s = (Inr w, s') \<Longrightarrow> doc_fit ev did w"
    and "\<not> stored_event ev \<Longrightarrow> good (run_after hk ev name did doc old s)"
  using assms unfolding runner_safe_def by (blast, metis fst_conv, blast)

lemma docID_fit: "docID auto doc0 = Inr (did, doc) \<Longrightarrow> doc_id doc = Some did"
  by (auto simp: docID_def doc_id_def split: option.splits jval.splits if_splits)

lemma good_after: "good (snd r) \<Longrightarrow> (\<And>s. good s \<Longrightarrow> good (f s)) \<Longrightarrow> good (snd (after_ok f r))"
  unfolding after_ok_def by (rule good_bind) simp_all

lemma good_insertDocFrame:
  assumes hk: "runner_safe hk" and wt: "\<And>s. good s \<Longrightarrow> good (wt s)" and g: "good s"
  shows "good (snd (insertDocFrame hk wt auto sess name doc0 s))"
proof (cases "docID auto doc0")
  case (Inl e)
  then show ?thesis using g by (simp add: insertDocFrame_def)
next
  case (Inr p)
  then obtain did doc where i: "docID auto doc0 = Inr (did, doc)" by (cases p) auto
  have fin: "good (snd (after_ok (run_after hk ''after_insert'' name did (Some d) None) (insertApply wt sess name did d s)))"
    if "good s" "storable d" "doc_id d = Some did" for d s
    by (intro good_after good_apply(1) runner_safeD(3) [OF hk]) (use wt that in \<open>simp_all add: stored_event_def\<close>)
  show ?thesis
  proof (cases "checkDocSize doc")
    case (Inl e)
    then show ?thesis using i g by (simp add: insertDocFrame_def)
  next
    case (Inr u)
    have d: "storable doc" "doc_id doc = Some did" using checkDocSize_storable [OF Inr] docID_fit [OF i] by auto
    have fit: "doc_fit ''before_insert'' did (Some doc)" using d by (simp add: doc_fit_def)
    have rb: "good (snd (run_before hk regs ''before_insert'' name did (Some doc) None s))" if "good s" for regs s
      by (rule runner_safeD(1) [OF hk that _ fit]) simp
    have "good (snd (after_ok (run_after hk ''after_insert'' name did (Some (case w of Some x \<Rightarrow> x | None \<Rightarrow> doc)) None)
        (insertApply wt sess name did (case w of Some x \<Rightarrow> x | None \<Rightarrow> doc) s')))"
      if "run_before hk regs ''before_insert'' name did (Some doc) None s0 = (Inr w, s')" "good s'" "good s0" for regs w s' s0
      using runner_safeD(2) [OF hk that(3) _ fit that(1)] d that(2)
      by (intro fin) (auto simp: doc_fit_def stored_event_def split: option.splits)
    then show ?thesis
      using i Inr g rb fin [OF _ d] by (simp add: insertDocFrame_def Let_def) (intro conjI impI good_guard good_bind; simp)
  qed
qed

lemma good_upsertDocFrame:
  assumes hk: "runner_safe hk" and wt: "\<And>s. good s \<Longrightarrow> good (wt s)" and g: "good s"
  shows "good (snd (upsertDocFrame hk wt sess name did doc s))"
proof (cases "did = [] \<or> (\<exists>e. checkDocSize doc = Inl e)")
  case True
  then show ?thesis using g by (auto simp: upsertDocFrame_def)
next
  case False
  then obtain u where u: "checkDocSize doc = Inr u" by (cases "checkDocSize doc") auto
  have d: "storable doc" by (rule checkDocSize_storable [OF u])
  have fit: "doc_fit ''before_upsert'' did (Some doc)" using d by (simp add: doc_fit_def)
  have fin: "good (snd (after_ok (run_after hk ''after_upsert'' name did (Some d) old) (upsertApply wt sess name did d s)))"
    if "good s" "storable d" "\<And>o'. old = Some o' \<Longrightarrow> storable o'" for d s old
    by (intro good_after good_apply(2) runner_safeD(3) [OF hk]) (use wt that in \<open>simp_all add: stored_event_def\<close>)
  obtain r s1 where p: "previewDoc name did s = (r, s1)" by fastforce
  have s1: "good s1" using previewDoc_good(1) [OF g, of name did] p by simp
  define old where "old = (case r of Inr d \<Rightarrow> Some d | Inl _ \<Rightarrow> None)"
  have old: "storable o'" if "old = Some o'" for o'
    using that previewDoc_good(2) [OF g, of name did o'] p docs_storable [of s name did o'] g
    by (auto simp: old_def good_def split: sum.splits)
  have rb: "good (snd (run_before hk regs ''before_upsert'' name did (Some doc) old s1))" for regs
    by (rule runner_safeD(1) [OF hk s1 old fit])
  have "good (snd (after_ok (run_after hk ''after_upsert'' name did (Some (case w of Some x \<Rightarrow> x | None \<Rightarrow> doc)) old)
      (upsertApply wt sess name did (case w of Some x \<Rightarrow> x | None \<Rightarrow> doc) s')))"
    if "run_before hk regs ''before_upsert'' name did (Some doc) old s1 = (Inr w, s')" "good s'" for regs w s'
    using runner_safeD(2) [OF hk s1 old fit that(1)] d that(2) old
    by (intro fin) (auto simp: doc_fit_def stored_event_def split: option.splits)
  then have "good (snd (bind_out (run_before hk regs ''before_upsert'' name did (Some doc) old s1)
      (\<lambda>w s'. after_ok (run_after hk ''after_upsert'' name did (Some (case w of Some x \<Rightarrow> x | None \<Rightarrow> doc)) old)
        (upsertApply wt sess name did (case w of Some x \<Rightarrow> x | None \<Rightarrow> doc) s'))))" for regs
    by (rule good_bind [OF rb])
  then show ?thesis
    using False u g fin [OF _ d, where old = None] p
    by (cases "matchHooks ''before_upsert'' name s = []"; cases "previewWrite sess name s")
      (simp_all add: upsertDocFrame_def Let_def old_def)
qed

lemma diff_removed_id: "''_id'' \<notin> set (diff_removed old merged)"
  by (auto simp: diff_removed_def)

lemma good_updateDocFrame:
  assumes hk: "runner_safe hk" and wt: "\<And>s. good s \<Longrightarrow> good (wt s)" and g: "good s"
  shows "good (snd (updateDocFrame hk wt sess name did patch pre s))"
proof -
  have fin: "good (snd (bind_out (updateApply wt sess name did p rem s) (\<lambda>_ s.
      if matchHooks ''after_update'' name s \<noteq> []
      then (case previewDoc name did s of
              (Inr fresh, s') \<Rightarrow> (Inr (), run_after hk ''after_update'' name did (Some fresh) old s')
            | (Inl _, s') \<Rightarrow> (Inr (), run_after hk ''after_update'' name did (Some p) old s'))
      else (Inr (), run_after hk ''after_update'' name did (Some p) old s))))"
    if "good s" "''_id'' \<notin> set rem" "\<And>o'. old = Some o' \<Longrightarrow> storable o'" for p rem old s
  proof (rule good_bind)
    show "good (snd (updateApply wt sess name did p rem s))" using wt that(1,2) by (rule good_apply(3))
    fix u s' assume "good s'"
    moreover have "good (snd (previewDoc name did s'))" by (rule previewDoc_good(1)) fact
    ultimately show "good (snd (if matchHooks ''after_update'' name s' \<noteq> []
      then (case previewDoc name did s' of
              (Inr fresh, s') \<Rightarrow> (Inr (), run_after hk ''after_update'' name did (Some fresh) old s')
            | (Inl _, s') \<Rightarrow> (Inr (), run_after hk ''after_update'' name did (Some p) old s'))
      else (Inr (), run_after hk ''after_update'' name did (Some p) old s')))"
      using runner_safeD(3) [OF hk] that(3) by (auto simp: stored_event_def split: prod.splits sum.splits)
  qed
  obtain r s1 where p: "previewDoc name did s = (r, s1)" by fastforce
  have s1: "good s1" using previewDoc_good(1) [OF g, of name did] p by simp
  show ?thesis
  proof (cases r)
    case (Inl e)
    then show ?thesis using fin [OF g, of _ None] g s1 p by (auto simp: updateDocFrame_def Let_def intro!: good_guard)
  next
    case (Inr old)
    have old: "storable old"
      using previewDoc_good(2) [OF g, of name did old] p docs_storable [of s name did old] g Inr by (simp add: good_def)
    let ?pre = "filter (\<lambda>k. k \<noteq> ''_id'') pre"
    have fit: "doc_fit ''before_update'' did doc" for doc by (simp add: doc_fit_def stored_event_def split: option.splits)
    have rb: "good (snd (run_before hk regs ''before_update'' name did doc (Some old) s1))" for regs doc
      by (rule runner_safeD(1) [OF hk s1 _ fit]) (use old in simp)
    define finish where "finish = (\<lambda>p rem old s. bind_out (updateApply wt sess name did p rem s) (\<lambda>_ s.
      if matchHooks ''after_update'' name s \<noteq> []
      then (case previewDoc name did s of
              (Inr fresh, s') \<Rightarrow> (Inr (), run_after hk ''after_update'' name did (Some fresh) old s')
            | (Inl _, s') \<Rightarrow> (Inr (), run_after hk ''after_update'' name did (Some p) old s'))
      else (Inr (), run_after hk ''after_update'' name did (Some p) old s)))"
    have f: "good (snd (finish p rem o' s))" if "good s" "''_id'' \<notin> set rem" "o' = None \<or> o' = Some old" for p rem o' s
      unfolding finish_def by (rule fin [OF that(1,2)]) (use old that(3) in auto)
    let ?m = "remove_fields (merge_patch old patch) ?pre"
    have "good (snd (bind_out (run_before hk regs ''before_update'' name did (Some ?m) (Some old) s1)
        (\<lambda>w s. case diff_patch old (case w of Some d \<Rightarrow> d | None \<Rightarrow> ?m) of
             Inl e \<Rightarrow> (Inl e, s)
           | Inr patch' \<Rightarrow> finish patch' (diff_removed old (case w of Some d \<Rightarrow> d | None \<Rightarrow> ?m)) (Some old) s)))" for regs
      by (rule good_bind [OF rb]) (auto simp: diff_removed_id f split: sum.splits)
    then show ?thesis
      using f [OF g, of ?pre None] g p Inr s1 unfolding finish_def
      by (cases "matchHooks ''before_update'' name s = []"; cases "previewWrite sess name s")
        (simp_all add: updateDocFrame_def Let_def)
  qed
qed

lemma good_deleteDocFrame:
  assumes hk: "runner_safe hk" and wt: "\<And>s. good s \<Longrightarrow> good (wt s)" and g: "good s"
  shows "good (snd (deleteDocFrame hk wt sess name did s))"
proof -
  have fin: "good (snd (after_ok (run_after hk ''after_delete'' name did None old) (deleteApply wt sess name did s)))"
    if "good s" "\<And>o'. old = Some o' \<Longrightarrow> storable o'" for old s
    by (intro good_after good_apply(4) runner_safeD(3) [OF hk]) (use wt that in \<open>simp_all add: stored_event_def\<close>)
  obtain r s1 where p: "previewDoc name did s = (r, s1)" by fastforce
  have s1: "good s1" using previewDoc_good(1) [OF g, of name did] p by simp
  show ?thesis
  proof (cases r)
    case (Inl e)
    then show ?thesis using fin [OF g, of None] g s1 p by (auto simp: deleteDocFrame_def Let_def intro!: good_guard)
  next
    case (Inr old)
    have old: "storable old"
      using previewDoc_good(2) [OF g, of name did old] p docs_storable [of s name did old] g Inr by (simp add: good_def)
    have rb: "good (snd (run_before hk regs ''before_delete'' name did None (Some old) s1))" for regs
      by (rule runner_safeD(1) [OF hk s1]) (use old in \<open>simp_all add: doc_fit_def\<close>)
    have "good (snd (bind_out (run_before hk regs ''before_delete'' name did None (Some old) s1)
        (\<lambda>_ s. after_ok (run_after hk ''after_delete'' name did None (Some old)) (deleteApply wt sess name did s))))" for regs
      by (rule good_bind [OF rb]) (use old in \<open>auto intro: fin\<close>)
    then show ?thesis
      using fin [OF g, of None] g p Inr s1
      by (cases "matchHooks ''before_delete'' name s = []"; cases "previewWrite sess name s")
        (simp_all add: deleteDocFrame_def Let_def)
  qed
qed

section \<open>Safe hooks\<close>

definition api_safe :: "hook_api \<Rightarrow> bool" where
  "api_safe api \<longleftrightarrow> (\<forall>s. good s \<longrightarrow>
     (\<forall>name did. good (snd (api_Get api name did s)))
     \<and> (\<forall>name flt opts. good (snd (api_Find api name flt opts s)))
     \<and> (\<forall>name flt. good (snd (api_Count api name flt s)))
     \<and> (\<forall>name doc. good (snd (api_Insert api name doc s)))
     \<and> (\<forall>name did doc. good (snd (api_Upsert api name did doc s)))
     \<and> (\<forall>name did patch. good (snd (api_Update api name did patch s)))
     \<and> (\<forall>name did. good (snd (api_Delete api name did s))))"

lemma api_safeD:
  assumes "api_safe api" and "good s"
  shows "good (snd (api_Get api name did s))" and "good (snd (api_Find api name flt opts s))" and "good (snd (api_Count api name flt s))"
    and "good (snd (api_Insert api name doc s))" and "good (snd (api_Upsert api name did doc s))"
    and "good (snd (api_Update api name did patch s))" and "good (snd (api_Delete api name did s))"
  using assms by (simp_all add: api_safe_def)

definition fn_safe :: "hook_fn \<Rightarrow> bool" where
  "fn_safe fn \<longleftrightarrow> (\<forall>api ctx s r doc' s'. api_safe api \<longrightarrow> good s \<longrightarrow> doc_fit (hx_event ctx) (hx_id ctx) (hx_doc ctx) \<longrightarrow>
     (\<forall>o'. hx_old ctx = Some o' \<longrightarrow> storable o') \<longrightarrow> fn api ctx s = (r, doc', s') \<longrightarrow>
     good s' \<and> doc_fit (hx_event ctx) (hx_id ctx) doc')"

definition env_safe :: "hook_env \<Rightarrow> bool" where
  "env_safe env \<longleftrightarrow> (\<forall>i. fn_safe (he_fn env i)) \<and> (\<forall>s. good s \<longrightarrow> good (he_wait env s)) \<and> (\<forall>s. good s \<longrightarrow> good (he_full env s))"

lemma context_api_safe:
  assumes "env_safe env" and "runner_safe hk"
  shows "api_safe (context_api env hk)"
  using assms good_insertDocFrame [OF assms(2)] good_upsertDocFrame [OF assms(2)] good_updateDocFrame [OF assms(2)]
    good_deleteDocFrame [OF assms(2)] getDoc_good findDocs_good countDocs_good
  by (simp add: api_safe_def context_api_def env_safe_def)

lemma call_hook_safe:
  assumes "env_safe env" and "runner_safe (nested fr)" and "good s" and "doc_fit (hx_event ctx) (hx_id ctx) (hx_doc ctx)"
    and "\<And>o'. hx_old ctx = Some o' \<Longrightarrow> storable o'" and "call_hook env nested fr r ctx s = (x, doc', s')"
  shows "good s'" and "doc_fit (hx_event ctx) (hx_id ctx) doc'"
  using assms context_api_safe [OF assms(1,2)] unfolding call_hook_def env_safe_def fn_safe_def by blast+

lemma before_safe:
  assumes env: "env_safe env" and nested: "\<And>fr. runner_safe (nested fr)" and g: "good s" and "doc_fit ev did doc" and "\<And>o'. old = Some o' \<Longrightarrow> storable o'"
    and "runBeforeHooks env nested fr regs ev name did doc old s = (w, s')"
  shows "good s' \<and> (\<forall>d. w = Inr d \<longrightarrow> doc_fit ev did d)"
  using assms(3-)
proof (induction regs arbitrary: doc s)
  case (Cons r regs)
  show ?case
  proof (cases "beginHookErr fr r")
    case (Inl e)
    then show ?thesis using Cons.prems by auto
  next
    case (Inr child)
    let ?ctx = "\<lparr>hx_event = ev, hx_coll = name, hx_id = did, hx_doc = doc, hx_old = old\<rparr>"
    obtain x doc1 s1 where c: "call_hook env nested child r ?ctx s = (x, doc1, s1)" by (metis prod_cases3)
    have s1: "good s1" "doc_fit ev did doc1" using call_hook_safe [OF env nested Cons.prems(1) _ _ c] Cons.prems(2,3) by auto
    show ?thesis
    proof (cases x)
      case (Inl e)
      then show ?thesis using Cons.prems(4) Inr c s1 by auto
    next
      case (Inr u)
      with \<open>beginHookErr fr r = Inr child\<close> have "runBeforeHooks env nested fr regs ev name did doc1 old s1 = (w, s')"
        using Cons.prems(4) c by simp
      from Cons.IH [OF s1 Cons.prems(3) this] show ?thesis by simp
    qed
  qed
qed auto

lemma good_queue: "good (s\<lparr>st_hookQ := q\<rparr>) \<longleftrightarrow> good s"
proof -
  have "slot (s\<lparr>st_hookQ := q\<rparr>) = slot s" "doc_at (s\<lparr>st_hookQ := q\<rparr>) = doc_at s" "indexes (s\<lparr>st_hookQ := q\<rparr>) = indexes s"
    "collRO n (s\<lparr>st_hookQ := q\<rparr>) = collRO n s" for n
    by (auto simp: fun_eq_iff slot_def collRO_def indexes_def doc_at_def)
  moreover from this have "docs (s\<lparr>st_hookQ := q\<rparr>) = docs s" by (simp add: docs_def fun_eq_iff cong: option.case_cong)
  ultimately show ?thesis by (simp add: good_def ids_ok_def store_ok_def slots_ok_def)
qed

lemma after_safe:
  assumes env: "env_safe env" and nested: "\<And>fr. runner_safe (nested fr)" and g: "good s" and ev: "\<not> stored_event ev"
    and old: "\<And>o'. old = Some o' \<Longrightarrow> storable o'"
  shows "good (queueAfterHook env nested fr regs ev name did doc old s)"
  using g
proof (induction regs arbitrary: doc s)
  case (Cons r regs)
  have fit: "doc_fit ev did d" for d using ev by (auto simp: doc_fit_def stored_event_def split: option.splits)
  show ?case
  proof (cases "hk_async r")
    case True
    have "good (enqueue_hook env job s)" for job
      using Cons.prems env by (auto simp: enqueue_hook_def Let_def env_safe_def good_queue split: option.splits)
    then show ?thesis using True Cons.IH by simp
  next
    case False
    obtain d1 s1 where i: "runAfterHookInline env nested fr r ev name did doc old s = (d1, s1)" by fastforce
    have "good s1"
    proof (cases "beginHookErr fr r")
      case (Inl e)
      then show ?thesis using i Cons.prems by (simp add: runAfterHookInline_def)
    next
      case (Inr child)
      let ?ctx = "\<lparr>hx_event = ev, hx_coll = name, hx_id = did, hx_doc = doc, hx_old = old\<rparr>"
      obtain x where c: "call_hook env nested child r ?ctx s = (x, d1, s1)"
        using i Inr by (cases "call_hook env nested child r ?ctx s") (simp add: runAfterHookInline_def)
      show ?thesis using call_hook_safe(1) [OF env nested Cons.prems _ _ c] fit old by simp
    qed
    then show ?thesis using False i Cons.IH by simp
  qed
qed simp

lemma frame_safe:
  assumes "env_safe env" and "\<And>fr. runner_safe (nested fr)"
  shows "runner_safe (frame_runner env nested fr)"
  unfolding runner_safe_def
proof (intro conjI allI impI)
  fix regs ev name did doc old s w
  assume a: "good s" "doc_fit ev did doc" "\<forall>o'. old = Some o' \<longrightarrow> storable o'"
  have b: "good (snd (runBeforeHooks env nested fr regs ev name did doc old s))
      \<and> (\<forall>d. fst (runBeforeHooks env nested fr regs ev name did doc old s) = Inr d \<longrightarrow> doc_fit ev did d)"
    by (rule before_safe [OF assms a(1,2)]) (use a(3) in auto)
  then show "good (snd (run_before (frame_runner env nested fr) regs ev name did doc old s))" by (simp add: frame_runner_def)
  assume "fst (run_before (frame_runner env nested fr) regs ev name did doc old s) = Inr w"
  then show "doc_fit ev did w" using b by (simp add: frame_runner_def)
next
  fix ev name did doc old s
  assume "good s" "\<not> stored_event ev" "\<forall>o'. old = Some o' \<longrightarrow> storable o'"
  then show "good (run_after (frame_runner env nested fr) ev name did doc old s)"
    using after_safe [OF assms] by (simp add: frame_runner_def)
qed

lemma runner_safe: "env_safe env \<Longrightarrow> runner_safe (runner env n fr)"
proof (induction n arbitrary: fr)
  case 0
  have "runner_safe no_hooks" by (simp add: runner_safe_def no_hooks_def)
  then show ?case using frame_safe [OF 0, of "\<lambda>_. no_hooks"] by simp
next
  case (Suc n)
  then show ?case using frame_safe [of env "runner env n"] by simp
qed

text \<open>A whole collection dropped: its documents one by one through their hooks, then the rest.\<close>

lemma good_delete_all:
  assumes "runner_safe hk" and "\<And>s. good s \<Longrightarrow> good (wt s)"
  shows "good s \<Longrightarrow> good (snd (delete_all hk wt sess name ids s))"
proof (induction ids arbitrary: s)
  case (Cons did ids)
  have "good (snd (deleteDocFrame hk wt sess name did s))" using assms(2) by (rule good_deleteDocFrame [OF assms(1) _ Cons.prems])
  then show ?case using Cons.IH by (simp add: good_bind)
qed simp

lemma good_dropCollection:
  assumes hk: "runner_safe hk" and wt: "\<And>s. good s \<Longrightarrow> good (wt s)" and g: "good s"
  shows "good (snd (dropCollection hk wt sess name s))"
proof -
  have epoch: "good (if isEdgeColl name then s\<lparr>st_graphEpoch := st_graphEpoch s + 1\<rparr> else s)" if "good s" for s
    using that note_ok [of s name] good_docs [of "noteEdgeMutation name s" s] by (simp add: noteEdgeMutation_def good_def)
  have drop: "good (markDirty (p\<lparr>st_collections := mdel name (st_collections p)\<rparr>))"
    if "good s" "p = purgeCollCacheLocked c s" for s p c
  proof -
    let ?p = "p\<lparr>st_collections := mdel name (st_collections p)\<rparr>"
    have "store_ok ?p \<and> docs ?p = (docs s)(name := Map.empty)"
      by (rule store_ok_drop [of s]) (use that in \<open>simp_all add: good_def purgeCollCacheLocked_def\<close>)
    then have "good ?p" using that(1) by (auto simp: good_def ids_ok_def)
    then show ?thesis using markDirty_ok [of ?p] good_docs [of "markDirty ?p" ?p] by (simp add: good_def)
  qed
  show ?thesis
    unfolding dropCollection_def
    using g good_delete_all [OF hk wt] epoch drop
    by (auto simp: Let_def intro!: good_guard good_bind split: option.split)
qed

section \<open>Depth and cycles\<close>

lemma begin_child: "beginHookErr fr r = Inr child \<longleftrightarrow> length fr < maxHookDepth \<and> hk_id r \<notin> set fr \<and> child = hk_id r # fr"
  by (auto simp: beginHookErr_def)

lemma runBeforeHooks_cong:
  assumes "\<And>r ctx s. hk_id r \<notin> set fr \<Longrightarrow> length fr < maxHookDepth \<Longrightarrow>
      call_hook env nested (hk_id r # fr) r ctx s = call_hook env' nested' (hk_id r # fr) r ctx s"
  shows "runBeforeHooks env nested fr regs ev name did doc old s = runBeforeHooks env' nested' fr regs ev name did doc old s"
proof (induction regs arbitrary: doc s)
  case (Cons r regs)
  show ?case
  proof (cases "beginHookErr fr r")
    case (Inr child)
    then have "call_hook env nested child r ctx s = call_hook env' nested' child r ctx s" for ctx s
      using assms [of r] by (simp add: begin_child)
    then show ?thesis using Inr Cons.IH by (simp split: prod.split sum.split)
  qed simp
qed simp

lemma queueAfterHook_cong:
  assumes "\<And>r ctx s. hk_id r \<notin> set fr \<Longrightarrow> length fr < maxHookDepth \<Longrightarrow>
      call_hook env nested (hk_id r # fr) r ctx s = call_hook env' nested' (hk_id r # fr) r ctx s"
    and "he_full env = he_full env'"
  shows "queueAfterHook env nested fr regs ev name did doc old s = queueAfterHook env' nested' fr regs ev name did doc old s"
proof (induction regs arbitrary: doc s)
  case (Cons r regs)
  have e: "enqueue_hook env job t = enqueue_hook env' job t" for job t unfolding enqueue_hook_def assms(2) by (rule refl)
  show ?case
  proof (cases "beginHookErr fr r")
    case (Inr child)
    then have "call_hook env nested child r ctx s = call_hook env' nested' child r ctx s" for ctx s
      using assms(1) [of r] by (simp add: begin_child)
    then show ?thesis using Inr Cons.IH by (simp add: runAfterHookInline_def e split: prod.split)
  qed (use Cons.IH in \<open>simp add: runAfterHookInline_def e\<close>)
qed simp

lemma frame_runner_cong:
  assumes "\<And>r ctx s. hk_id r \<notin> set fr \<Longrightarrow> length fr < maxHookDepth \<Longrightarrow>
      call_hook env nested (hk_id r # fr) r ctx s = call_hook env' nested' (hk_id r # fr) r ctx s"
    and "he_full env = he_full env'"
  shows "frame_runner env nested fr = frame_runner env' nested' fr"
  unfolding frame_runner_def
  using runBeforeHooks_cong [of fr env nested env' nested', OF assms(1)] queueAfterHook_cong [of fr env nested env' nested', OF assms]
  by (simp add: fun_eq_iff)

text \<open>No hook runs deeper than the limit: what is behind the last level is never used.\<close>

lemma runner_enough:
  "maxHookDepth \<le> n + length fr \<Longrightarrow> maxHookDepth \<le> m + length fr \<Longrightarrow> runner env n fr = runner env m fr"
proof (induction n arbitrary: m fr)
  case 0
  then show ?case by (cases m) (auto intro!: frame_runner_cong)
next
  case (Suc n)
  show ?case
  proof (cases m)
    case 0
    then show ?thesis using Suc.prems by (auto intro!: frame_runner_cong)
  next
    case (Suc m')
    have "call_hook env (runner env n) (hk_id r # fr) r ctx s = call_hook env (runner env m') (hk_id r # fr) r ctx s" for r ctx s
      using Suc.IH [of "hk_id r # fr" m'] Suc.prems Suc by (simp add: call_hook_def)
    then show ?thesis using Suc by (auto intro!: frame_runner_cong)
  qed
qed

text \<open>While a hook runs it is not entered again: another function in its place makes no difference.\<close>

lemma runner_no_reentry:
  "i \<in> set fr \<Longrightarrow> runner (env\<lparr>he_fn := (he_fn env)(i := g)\<rparr>) n fr = runner env n fr"
proof (induction n arbitrary: fr)
  case 0
  have "context_api (env\<lparr>he_fn := (he_fn env)(i := g)\<rparr>) hk = context_api env hk" for hk by (simp add: context_api_def)
  moreover have "((he_fn env)(i := g)) k = he_fn env k" if "k \<notin> set fr" for k using 0 that by auto
  ultimately show ?case using 0 by (auto simp: call_hook_def simp del: fun_upd_apply intro!: frame_runner_cong)
next
  case (Suc n)
  have "context_api (env\<lparr>he_fn := (he_fn env)(i := g)\<rparr>) hk = context_api env hk" for hk by (simp add: context_api_def)
  moreover have "((he_fn env)(i := g)) k = he_fn env k" if "k \<notin> set fr" for k using Suc.prems that by auto
  ultimately show ?case using Suc by (auto simp: call_hook_def simp del: fun_upd_apply intro!: frame_runner_cong)
qed

lemma run_job_good:
  assumes "env_safe env" and "good s" and "\<not> stored_event (hj_event job)" and "\<And>o'. hj_old job = Some o' \<Longrightarrow> storable o'"
  shows "good (run_job env job s)"
proof (cases "beginHookErr (hj_frame job) (hj_reg job)")
  case (Inl e)
  then show ?thesis using assms(2) by (simp add: run_job_def)
next
  case (Inr child)
  let ?ctx = "\<lparr>hx_event = hj_event job, hx_coll = hj_coll job, hx_id = hj_id job, hx_doc = hj_doc job, hx_old = hj_old job\<rparr>"
  obtain r d s' where c: "call_hook env (runner env maxHookDepth) child (hj_reg job) ?ctx s = (r, d, s')" by (metis prod_cases3)
  have "doc_fit (hj_event job) (hj_id job) (hj_doc job)" using assms(3) by (auto simp: doc_fit_def stored_event_def split: option.split)
  then have "good s'" using call_hook_safe(1) [OF assms(1) runner_safe [OF assms(1)] assms(2) _ _ c] assms(4) by simp
  then show ?thesis using Inr c by (simp add: run_job_def)
qed

end
