(* ===== verification/Triggers.thy ===== *)
theory Triggers
  imports Hooks
begin

text \<open>
  Declarative triggers (\<open>db/triggers.go\<close>): rules kept as documents of the system collection
  \<open>_triggers\<close> and run as hooks. A rule filters on the event's document and performs actions whose
  values are templates over the new and the old document. \<open>ulid\<close> makes fresh ids.
\<close>

section \<open>A value written as JSON and read back\<close>

function utf8_clean :: "string \<Rightarrow> string" where
  "utf8_clean s =
     (if s = [] then []
      else if rune_len s = 0 then [CHR 0xEF, CHR 0xBF, CHR 0xBD] @ utf8_clean (tl s)
      else take (rune_len s) s @ utf8_clean (drop (rune_len s) s))"
  by pat_completeness auto
termination
  by (relation "measure length") auto

declare utf8_clean.simps [simp del]

text \<open>
  \<open>json.Unmarshal\<close> of \<open>json.Marshal\<close> into \<open>any\<close>: numbers become \<open>float64\<close>, objects
  \<open>map[string]any\<close> (of keys that coincide once cleaned the last in ascending order stays).
\<close>

definition reread_map :: "(string \<times> jval option) list \<Rightarrow> document option" where
  "reread_map fs =
     map_option (\<lambda>es. fold (\<lambda>p m. mput (utf8_clean (fst p)) (snd p) m) (sort_key fst es) [])
       (those (map (\<lambda>p. map_option (Pair (fst p)) (snd p)) fs))"

fun json_reread :: "jval \<Rightarrow> jval option" where
  "json_reread JNull = Some JNull"
| "json_reread (JBool b) = Some (JBool b)"
| "json_reread (JF64 f) = (if f64_finite f then Some (JF64 f) else None)"
| "json_reread (JInt k i) = Some (JF64 (f64_of_int i))"
| "json_reread (JStr s) = Some (JStr (utf8_clean s))"
| "json_reread (JArr xs) = map_option JArr (those (map json_reread xs))"
| "json_reread (JDoc m) = map_option JMap (reread_map (map (\<lambda>p. (fst p, json_reread (snd p))) m))"
| "json_reread (JMap m) = map_option JMap (reread_map (map (\<lambda>p. (fst p, json_reread (snd p))) m))"
| "json_reread (JDocs ds) = map_option JArr
     (those (map (\<lambda>m. map_option JMap (reread_map (map (\<lambda>p. (fst p, json_reread (snd p))) m))) ds))"
| "json_reread (JStrs ss) = Some (JArr (map (\<lambda>s. JStr (utf8_clean s)) ss))"

section \<open>Rules\<close>

text \<open>\<open>ta_ID\<close> is \<open>JNull\<close> when the Go field is nil; absent maps and lists are empty.\<close>

record trigger_action =
  ta_Type :: string
  ta_Collection :: string
  ta_ID :: jval
  ta_Doc :: document
  ta_Fields :: document
  ta_Names :: "string list"
  ta_Set :: document

record trigger =
  tr_ID :: string
  tr_Event :: string
  tr_Collection :: string
  tr_Enabled :: "bool option"
  tr_Async :: bool
  tr_Filter :: document
  tr_Actions :: "trigger_action list"

definition trigger_enabled :: "trigger \<Rightarrow> bool" where
  "trigger_enabled t \<longleftrightarrow> (case tr_Enabled t of None \<Rightarrow> True | Some b \<Rightarrow> b)"

definition no_target :: "trigger_action \<Rightarrow> bool" where
  "no_target a \<longleftrightarrow> ta_Collection a = [] \<or> ta_Collection a = ''*''"

definition validateTriggerAction :: "trigger_action \<Rightarrow> string \<Rightarrow> unit res" where
  "validateTriggerAction a event =
     (if ta_Type a = ''set'' then (if ta_Fields a = [] then Inl (ErrOther ''set requires fields'') else Inr ())
      else if ta_Type a = ''unset'' then
        (if ta_Names a = [] then Inl (ErrOther ''unset requires names'')
         else if event \<in> {''before_insert'', ''before_update'', ''before_upsert'', ''before_delete''} then Inr ()
         else Inl (ErrOther ''unset only valid on before-* events''))
      else if ta_Type a = ''insert'' then
        (if no_target a then Inl (ErrOther ''insert requires target collection'')
         else if ta_Doc a = [] then Inl (ErrOther ''insert requires doc'') else Inr ())
      else if ta_Type a = ''update'' \<or> ta_Type a = ''upsert'' then
        (if no_target a then Inl (ErrOther (ta_Type a @ '' requires target collection''))
         else if ta_ID a = JNull then Inl (ErrOther (ta_Type a @ '' requires id''))
         else if ta_Set a = [] then Inl (ErrOther (ta_Type a @ '' requires set'')) else Inr ())
      else if ta_Type a = ''delete'' then
        (if no_target a then Inl (ErrOther ''delete requires target collection'')
         else if ta_ID a = JNull then Inl (ErrOther ''delete requires id'') else Inr ())
      else Inl (ErrOther ''unknown action type''))"

fun validate_actions :: "string \<Rightarrow> trigger_action list \<Rightarrow> unit res" where
  "validate_actions event [] = Inr ()"
| "validate_actions event (a # as) = and_then (validateTriggerAction a event) (\<lambda>_. validate_actions event as)"

definition validateTrigger :: "trigger \<Rightarrow> unit res" where
  "validateTrigger t =
     (if \<not> validHookEvent (tr_Event t) then Inl (ErrOther ''db: unknown trigger event'')
      else if tr_Async t \<and> \<not> is_after_event (tr_Event t) then Inl (ErrOther ''db: async trigger requires after-* event'')
      else if tr_Actions t = [] then Inl (ErrOther ''db: trigger needs at least one action'')
      else validate_actions (tr_Event t) (tr_Actions t))"

section \<open>Templates\<close>

definition getRef :: "string \<Rightarrow> document option \<Rightarrow> document option \<Rightarrow> jval" where
  "getRef ref doc old =
     (let (src, k) = (if 4 < length ref \<and> take 4 ref = ''old.'' then (old, drop 4 ref) else (doc, ref))
      in case src of None \<Rightarrow> JNull | Some d \<Rightarrow> (case map_of d k of None \<Rightarrow> JNull | Some v \<Rightarrow> v))"

definition template_ref :: "document \<Rightarrow> string option" where
  "template_ref t = (case map_of t ''$get'' of Some (JStr g) \<Rightarrow> if length t = 1 then Some g else None | _ \<Rightarrow> None)"

fun resolveVal :: "document option \<Rightarrow> document option \<Rightarrow> jval \<Rightarrow> jval" where
  "resolveVal doc old (JMap t) =
     (case template_ref t of Some g \<Rightarrow> getRef g doc old | None \<Rightarrow> JMap (map (\<lambda>p. (fst p, resolveVal doc old (snd p))) t))"
| "resolveVal doc old (JDoc t) =
     (case template_ref t of Some g \<Rightarrow> getRef g doc old | None \<Rightarrow> JMap (map (\<lambda>p. (fst p, resolveVal doc old (snd p))) t))"
| "resolveVal doc old (JArr xs) = JArr (map (resolveVal doc old) xs)"
| "resolveVal doc old v = v"

definition resolveMap :: "document option \<Rightarrow> document option \<Rightarrow> document \<Rightarrow> document" where
  "resolveMap doc old m = map (\<lambda>p. (fst p, resolveVal doc old (snd p))) m"

definition resolveID :: "jval \<Rightarrow> document option \<Rightarrow> document option \<Rightarrow> string res" where
  "resolveID v doc old =
     (case v of
        JStr s \<Rightarrow> Inr s
      | JMap t \<Rightarrow> (case map_of t ''$get'' of
            Some (JStr g) \<Rightarrow> (case getRef g doc old of JStr s \<Rightarrow> Inr s | _ \<Rightarrow> Inl (ErrOther ''db: trigger id template did not resolve to string''))
          | _ \<Rightarrow> Inl (ErrOther ''db: trigger id must be string or $get''))
      | _ \<Rightarrow> Inl (ErrOther ''db: trigger id must be string or $get''))"

section \<open>Running a rule\<close>

definition set_fields :: "document \<Rightarrow> document \<Rightarrow> document" where
  "set_fields flds d = foldl (\<lambda>d p. if fst p = ''_id'' then d else mput (fst p) (snd p) d) d flds"

text \<open>What an action answers besides its error: the event's document (changed in place) and the store.\<close>

definition nested_op :: "document option \<Rightarrow> unit outcome \<Rightarrow> unit res \<times> document option \<times> store" where
  "nested_op doc r = (fst r, doc, snd r)"

definition runTriggerAction :: "(store \<Rightarrow> string) \<Rightarrow> trigger_action \<Rightarrow> hook_api \<Rightarrow> hook_ctx \<Rightarrow> store
    \<Rightarrow> unit res \<times> document option \<times> store" where
  "runTriggerAction ulid a api h s =
     (let doc = hx_doc h; old = hx_old h in
      if ta_Type a = ''set'' then
        (let flds = resolveMap doc old (ta_Fields a) in
         if has_prefix (hx_event h) ''before''
         then (Inr (), map_option (set_fields flds) doc, s)
         else if hx_id h = [] then (Inr (), doc, s)
         else nested_op doc (api_Update api (hx_coll h) (hx_id h) flds s))
      else if ta_Type a = ''unset'' then (Inr (), map_option (\<lambda>d. remove_fields d (ta_Names a)) doc, s)
      else if ta_Type a = ''insert'' then
        (let out = resolveMap doc old (ta_Doc a) in
         nested_op doc (api_Insert api (ta_Collection a)
           (if map_of out ''_id'' = None then mput ''_id'' (JStr (ulid s)) out else out) s))
      else if ta_Type a = ''update'' then
        (case resolveID (ta_ID a) doc old of
           Inl e \<Rightarrow> (Inl e, doc, s)
         | Inr did \<Rightarrow> nested_op doc (api_Update api (ta_Collection a) did (resolveMap doc old (ta_Set a)) s))
      else if ta_Type a = ''upsert'' then
        (case resolveID (ta_ID a) doc old of
           Inl e \<Rightarrow> (Inl e, doc, s)
         | Inr did \<Rightarrow> nested_op doc (api_Upsert api (ta_Collection a) did
             (foldl (\<lambda>d p. mput (fst p) (snd p) d) [(''_id'', JStr did)] (resolveMap doc old (ta_Set a))) s))
      else if ta_Type a = ''delete'' then
        (case resolveID (ta_ID a) doc old of
           Inl e \<Rightarrow> (Inl e, doc, s)
         | Inr did \<Rightarrow> nested_op doc (api_Delete api (ta_Collection a) did s))
      else (Inl (ErrOther ''db: unknown trigger action''), doc, s))"

fun run_actions :: "(store \<Rightarrow> string) \<Rightarrow> trigger_action list \<Rightarrow> hook_fn" where
  "run_actions ulid [] api h s = (Inr (), hx_doc h, s)"
| "run_actions ulid (a # as) api h s =
     (case runTriggerAction ulid a api h s of
        (Inl e, d, s1) \<Rightarrow> (Inl e, d, s1)
      | (Inr _, d, s1) \<Rightarrow> run_actions ulid as api (h\<lparr>hx_doc := d\<rparr>) s1)"

definition runTrigger :: "regex_engine \<Rightarrow> (store \<Rightarrow> string) \<Rightarrow> trigger \<Rightarrow> hook_fn" where
  "runTrigger rx ulid t api h s =
     (let target = (case hx_doc h of Some d \<Rightarrow> Some d | None \<Rightarrow> hx_old h) in
      if tr_Filter t = [] then run_actions ulid (tr_Actions t) api h s
      else case target of
        None \<Rightarrow> (Inr (), hx_doc h, s)
      | Some d \<Rightarrow> (case match_doc rx d (tr_Filter t) of
            Inl e \<Rightarrow> (Inl e, hx_doc h, s)
          | Inr ok \<Rightarrow> if ok then run_actions ulid (tr_Actions t) api h s else (Inr (), hx_doc h, s)))"

section \<open>Rules as documents\<close>

definition opt_field :: "bool \<Rightarrow> string \<Rightarrow> jval \<Rightarrow> document" where
  "opt_field present k v = (if present then [(k, v)] else [])"

definition action_fields :: "trigger_action \<Rightarrow> jval" where
  "action_fields a = JMap ([(''type'', JStr (ta_Type a))]
     @ opt_field (ta_Collection a \<noteq> []) ''collection'' (JStr (ta_Collection a))
     @ opt_field (ta_ID a \<noteq> JNull) ''id'' (ta_ID a)
     @ opt_field (ta_Doc a \<noteq> []) ''doc'' (JMap (ta_Doc a))
     @ opt_field (ta_Fields a \<noteq> []) ''fields'' (JMap (ta_Fields a))
     @ opt_field (ta_Names a \<noteq> []) ''names'' (JStrs (ta_Names a))
     @ opt_field (ta_Set a \<noteq> []) ''set'' (JMap (ta_Set a)))"

definition triggerToDoc :: "trigger \<Rightarrow> document res" where
  "triggerToDoc t =
     (case json_reread (JMap ([(''_id'', JStr (tr_ID t)), (''event'', JStr (tr_Event t)), (''collection'', JStr (tr_Collection t))]
        @ (case tr_Enabled t of None \<Rightarrow> [] | Some b \<Rightarrow> [(''enabled'', JBool b)])
        @ opt_field (tr_Async t) ''async'' (JBool True)
        @ opt_field (tr_Filter t \<noteq> []) ''filter'' (JMap (tr_Filter t))
        @ [(''actions'', JArr (map action_fields (tr_Actions t)))])) of
        Some (JMap d) \<Rightarrow> Inr d
      | _ \<Rightarrow> Inl (ErrOther ''json: unsupported value''))"

text \<open>Reading the fields of a struct from an object; a value of another type is an error.\<close>

definition json_type_error :: db_error where
  "json_type_error = ErrOther ''json: cannot unmarshal''"

definition str_of :: "document \<Rightarrow> string \<Rightarrow> string res" where
  "str_of d k = (case map_of d k of None \<Rightarrow> Inr [] | Some JNull \<Rightarrow> Inr [] | Some (JStr s) \<Rightarrow> Inr s | _ \<Rightarrow> Inl json_type_error)"

definition bool_of :: "document \<Rightarrow> string \<Rightarrow> bool option res" where
  "bool_of d k = (case map_of d k of None \<Rightarrow> Inr None | Some JNull \<Rightarrow> Inr None | Some (JBool b) \<Rightarrow> Inr (Some b) | _ \<Rightarrow> Inl json_type_error)"

definition map_field :: "document \<Rightarrow> string \<Rightarrow> document res" where
  "map_field d k = (case map_of d k of None \<Rightarrow> Inr [] | Some JNull \<Rightarrow> Inr [] | Some (JMap m) \<Rightarrow> Inr m | _ \<Rightarrow> Inl json_type_error)"

fun all_res :: "('a \<Rightarrow> 'b res) \<Rightarrow> 'a list \<Rightarrow> 'b list res" where
  "all_res f [] = Inr []"
| "all_res f (x # xs) = and_then (f x) (\<lambda>y. and_then (all_res f xs) (\<lambda>ys. Inr (y # ys)))"

definition name_of :: "jval \<Rightarrow> string res" where
  "name_of v = (case v of JStr s \<Rightarrow> Inr s | JNull \<Rightarrow> Inr [] | _ \<Rightarrow> Inl json_type_error)"

definition names_field :: "document \<Rightarrow> string \<Rightarrow> string list res" where
  "names_field d k = (case map_of d k of None \<Rightarrow> Inr [] | Some JNull \<Rightarrow> Inr [] | Some (JArr xs) \<Rightarrow> all_res name_of xs | _ \<Rightarrow> Inl json_type_error)"

definition no_action :: trigger_action where
  "no_action = \<lparr>ta_Type = [], ta_Collection = [], ta_ID = JNull, ta_Doc = [], ta_Fields = [], ta_Names = [], ta_Set = []\<rparr>"

definition action_of :: "jval \<Rightarrow> trigger_action res" where
  "action_of v =
     (case v of
        JNull \<Rightarrow> Inr no_action
      | JMap d \<Rightarrow>
          and_then (str_of d ''type'') (\<lambda>ty. and_then (str_of d ''collection'') (\<lambda>c. and_then (map_field d ''doc'') (\<lambda>doc.
          and_then (map_field d ''fields'') (\<lambda>flds. and_then (names_field d ''names'') (\<lambda>ns. and_then (map_field d ''set'') (\<lambda>st.
            Inr \<lparr>ta_Type = ty, ta_Collection = c, ta_ID = (case map_of d ''id'' of None \<Rightarrow> JNull | Some x \<Rightarrow> x),
                 ta_Doc = doc, ta_Fields = flds, ta_Names = ns, ta_Set = st\<rparr>))))))
      | _ \<Rightarrow> Inl json_type_error)"

definition actions_field :: "document \<Rightarrow> string \<Rightarrow> trigger_action list res" where
  "actions_field d k = (case map_of d k of None \<Rightarrow> Inr [] | Some JNull \<Rightarrow> Inr [] | Some (JArr xs) \<Rightarrow> all_res action_of xs | _ \<Rightarrow> Inl json_type_error)"

definition docToTrigger :: "document \<Rightarrow> trigger res" where
  "docToTrigger doc =
     (case json_reread (JMap doc) of
        Some (JMap d) \<Rightarrow>
          and_then (str_of d ''_id'') (\<lambda>did. and_then (str_of d ''event'') (\<lambda>ev. and_then (str_of d ''collection'') (\<lambda>c.
          and_then (bool_of d ''enabled'') (\<lambda>en. and_then (bool_of d ''async'') (\<lambda>asy. and_then (map_field d ''filter'') (\<lambda>flt.
          and_then (actions_field d ''actions'') (\<lambda>acts.
            Inr \<lparr>tr_ID = did, tr_Event = ev, tr_Collection = c, tr_Enabled = en, tr_Async = (asy = Some True),
                 tr_Filter = flt, tr_Actions = acts\<rparr>)))))))
      | _ \<Rightarrow> Inl (ErrOther ''json: unsupported value''))"

section \<open>Administration\<close>

definition adminInsert :: "(store \<Rightarrow> store) \<Rightarrow> string \<Rightarrow> string \<Rightarrow> document \<Rightarrow> store \<Rightarrow> unit outcome" where
  "adminInsert wt auto name doc0 s =
     (case docID auto doc0 of
        Inl e \<Rightarrow> (Inl e, s)
      | Inr (did, doc) \<Rightarrow>
          guard_out (checkDocSize doc) s (\<lambda>s.
            let (c, s1) = coll name (waitBackpressureLocked wt s) in
            if map_of (c_entries c) did \<noteq> None then (Inl ErrDuplicate, s1)
            else case applyIndexes (c_indexes c) None doc did of
              (Inl e, idxs) \<Rightarrow> (Inl e, putColl name (c\<lparr>c_indexes := idxs\<rparr>) s1)
            | (Inr _, idxs) \<Rightarrow> (Inr (), store_new_entry name c idxs did doc s1)))"

definition adminDelete :: "(store \<Rightarrow> store) \<Rightarrow> string \<Rightarrow> string \<Rightarrow> store \<Rightarrow> unit outcome" where
  "adminDelete wt name did s0 =
     (let s = waitBackpressureLocked wt s0 in
      case collRO name s of
        None \<Rightarrow> (Inl ErrNotFound, s)
      | Some c \<Rightarrow>
         (case map_of (c_entries c) did of
            None \<Rightarrow> (Inl ErrNotFound, s)
          | Some a \<Rightarrow>
              let (r, s1) = loadEntry a s in
              if (case r of Inl e \<Rightarrow> e \<noteq> ErrNotFound | Inr _ \<Rightarrow> False) then (map_sum id (\<lambda>_. ()) r, s1)
              else
                let idxs = (case r of Inr doc \<Rightarrow> map (removeDoc doc did) (c_indexes c) | Inl _ \<Rightarrow> c_indexes c);
                    s2 = (if a \<in> set (st_cache s1) then evictEntryLocked a s1 else s1);
                    s3 = putColl name (c\<lparr>c_entries := mdel did (c_entries c), c_indexes := idxs\<rparr>) s2;
                    s4 = markDirty s3
                in (Inr (), if st_sawFile s4 \<or> st_flushInProgress s4
                    then s4\<lparr>st_pendingDels := st_pendingDels s4 @ [\<lparr>dl_coll = name, dl_id = did, dl_gen = st_dirtyGen s4\<rparr>]\<rparr>
                    else s4)))"

text \<open>What the store knows of its triggers besides their documents; \<open>ts_fns\<close> are the hook functions.\<close>

record trigger_state =
  ts_loaded :: bool
  ts_hooks :: "(64 word) gomap"
  ts_fns :: "(64 word \<times> trigger) list"

definition registerTriggerHook :: "trigger \<Rightarrow> trigger_state \<times> store \<Rightarrow> unit res \<times> trigger_state \<times> store" where
  "registerTriggerHook t st =
     (let (ts, s) = st in
      case (if tr_Async t then OnAsync (tr_Event t) (tr_Collection t) False s else On (tr_Event t) (tr_Collection t) False s) of
        (Inl e, s1) \<Rightarrow> (Inl e, ts, s1)
      | (Inr hid, s1) \<Rightarrow> (Inr (), ts\<lparr>ts_hooks := mput (tr_ID t) hid (ts_hooks ts), ts_fns := mput hid t (ts_fns ts)\<rparr>, s1))"

fun stored_docs :: "collection \<Rightarrow> string list \<Rightarrow> store \<Rightarrow> document list \<times> store" where
  "stored_docs c [] s = ([], s)"
| "stored_docs c (did # ids) s =
     (case resident c did s of
        (Inl _, s1) \<Rightarrow> stored_docs c ids s1
      | (Inr d, s1) \<Rightarrow> (case stored_docs c ids s1 of (ds, s2) \<Rightarrow> (d # ds, s2)))"

fun register_all :: "document list \<Rightarrow> trigger_state \<times> store \<Rightarrow> trigger_state \<times> store" where
  "register_all [] st = st"
| "register_all (d # ds) st =
     (case docToTrigger d of
        Inl _ \<Rightarrow> register_all ds st
      | Inr t \<Rightarrow> if \<not> trigger_enabled t \<or> tr_ID t = [] then register_all ds st
               else register_all ds (snd (registerTriggerHook t st)))"

definition ensureTriggersLoaded :: "trigger_state \<times> store \<Rightarrow> trigger_state \<times> store" where
  "ensureTriggersLoaded st =
     (let (ts, s) = st in
      if ts_loaded ts then st
      else let (ds, s1) = (case collRO triggersColl s of None \<Rightarrow> ([], s) | Some c \<Rightarrow> stored_docs c (map fst (c_entries c)) s)
        in register_all ds (ts\<lparr>ts_loaded := True\<rparr>, s1))"

definition CreateTrigger :: "(store \<Rightarrow> store) \<Rightarrow> string \<Rightarrow> trigger \<Rightarrow> trigger_state \<times> store \<Rightarrow> string res \<times> trigger_state \<times> store" where
  "CreateTrigger wt auto t0 st =
     (case validateTrigger t0 of
        Inl e \<Rightarrow> (Inl e, st)
      | Inr _ \<Rightarrow>
          let t = (if tr_ID t0 = [] then t0\<lparr>tr_ID := auto\<rparr> else t0);
              (ts, s) = ensureTriggersLoaded st
          in case triggerToDoc t of
               Inl e \<Rightarrow> (Inl e, ts, s)
             | Inr doc \<Rightarrow> (case adminInsert wt auto triggersColl doc s of
                   (Inl e, s1) \<Rightarrow> (Inl e, ts, s1)
                 | (Inr _, s1) \<Rightarrow>
                     if trigger_enabled t
                     then (case registerTriggerHook t (ts, s1) of (Inl e, st2) \<Rightarrow> (Inl e, st2) | (Inr _, st2) \<Rightarrow> (Inr (tr_ID t), st2))
                     else (Inr (tr_ID t), ts, s1)))"

definition DeleteTrigger :: "(store \<Rightarrow> store) \<Rightarrow> string \<Rightarrow> trigger_state \<times> store \<Rightarrow> unit res \<times> trigger_state \<times> store" where
  "DeleteTrigger wt did st =
     (let (ts, s) = st in
      if did = [] then (Inl ErrNotFound, st)
      else case adminDelete wt triggersColl did s of
        (Inl e, s1) \<Rightarrow> (Inl e, ts, s1)
      | (Inr _, s1) \<Rightarrow> (case map_of (ts_hooks ts) did of
            None \<Rightarrow> (Inr (), ts, s1)
          | Some hid \<Rightarrow> (Inr (), ts\<lparr>ts_hooks := mdel did (ts_hooks ts)\<rparr>, snd (Off hid s1))))"

definition ListTriggers :: "trigger_state \<times> store \<Rightarrow> trigger list \<times> trigger_state \<times> store" where
  "ListTriggers st =
     (let (ts, s) = ensureTriggersLoaded st in
      case collRO triggersColl s of
        None \<Rightarrow> ([], ts, s)
      | Some c \<Rightarrow> (case stored_docs c (map fst (c_entries c)) s of
            (ds, s1) \<Rightarrow> (concat (map (\<lambda>d. case docToTrigger d of Inl _ \<Rightarrow> [] | Inr t \<Rightarrow> [t]) ds), ts, s1)))"

text \<open>The hook functions a store has with its triggers, over those of the environment.\<close>

definition trigger_env :: "hook_env \<Rightarrow> trigger_state \<Rightarrow> hook_env" where
  "trigger_env env ts = env\<lparr>he_fn := (\<lambda>i. case map_of (ts_fns ts) i of
     Some t \<Rightarrow> runTrigger (he_rx env) (he_ulid env) t | None \<Rightarrow> he_fn env i)\<rparr>"

end
