(* ===== verification/Trigger_Laws.thy ===== *)
theory Trigger_Laws
  imports Triggers Store_Reach
begin

text \<open>
  Triggers are safe hooks unless they take the id out of a document about to be stored; the
  document form of a trigger is read back as the same trigger.
\<close>

section \<open>Triggers as safe hooks\<close>

definition vals_ok :: "document \<Rightarrow> bool" where
  "vals_ok m \<longleftrightarrow> (\<forall>p \<in> set m. json_ok (snd p))"

lemma vals_ok_storable: "vals_ok m \<longleftrightarrow> storable m"
  by (simp add: vals_ok_def storable_iff)

lemma getRef_ok: "(\<And>d. doc = Some d \<Longrightarrow> storable d) \<Longrightarrow> (\<And>d. old = Some d \<Longrightarrow> storable d) \<Longrightarrow> json_ok (getRef g doc old)"
proof -
  assume ok: "\<And>d. doc = Some d \<Longrightarrow> storable d" "\<And>d. old = Some d \<Longrightarrow> storable d"
  have n: "json_ok JNull" by (simp add: json_ok_def)
  have v: "json_ok v" if "map_of d k = Some v" "storable d" for d k v
    using json_ok_lookup [OF that(1)] that(2) by (simp add: storable_iff)
  show ?thesis using ok n v by (auto simp: getRef_def Let_def split: option.split)
qed

lemma resolveVal_ok:
  assumes "\<And>d. doc = Some d \<Longrightarrow> storable d" and "\<And>d. old = Some d \<Longrightarrow> storable d"
  shows "json_ok v \<Longrightarrow> json_ok (resolveVal doc old v)"
  using getRef_ok [OF assms]
  by (induction doc old v rule: resolveVal.induct) (auto simp: json_ok_containers split: option.splits)

lemma resolveMap_ok:
  assumes "\<And>d. doc = Some d \<Longrightarrow> storable d" and "\<And>d. old = Some d \<Longrightarrow> storable d" and "vals_ok m"
  shows "vals_ok (resolveMap doc old m)"
  using resolveVal_ok [OF assms(1,2)] assms(3) by (auto simp: vals_ok_def resolveMap_def)

lemma set_fields_fit:
  assumes "vals_ok flds" and "storable d"
  shows "storable (set_fields flds d)" and "map_of (set_fields flds d) ''_id'' = map_of d ''_id''"
proof -
  have "storable (set_fields flds d) \<and> map_of (set_fields flds d) ''_id'' = map_of d ''_id''"
    using assms unfolding set_fields_def
  proof (induction flds arbitrary: d)
    case (Cons p flds)
    have "storable (mput (fst p) (snd p) d)" using Cons.prems by (auto simp: vals_ok_def intro: storable_mput)
    then show ?case
      using Cons.IH [of d] Cons.IH [of "mput (fst p) (snd p) d"] Cons.prems by (auto simp: vals_ok_def)
  qed simp
  then show "storable (set_fields flds d)" "map_of (set_fields flds d) ''_id'' = map_of d ''_id''" by auto
qed

lemma storable_remove: "storable d \<Longrightarrow> storable (remove_fields d ks)"
proof -
  have "set (remove_fields d ks) \<subseteq> set d" unfolding remove_fields_def
  proof (induction ks arbitrary: d)
    case (Cons k ks)
    show ?case using Cons.IH [of "mdel k d"] by (auto simp: set_mdel)
  qed simp
  then show "storable d \<Longrightarrow> ?thesis" by (auto simp: storable_iff)
qed

text \<open>The rule's templates are JSON values, and it does not unset the id.\<close>

definition action_ok :: "trigger_action \<Rightarrow> bool" where
  "action_ok a \<longleftrightarrow> vals_ok (ta_Fields a) \<and> (ta_Type a = ''unset'' \<longrightarrow> ''_id'' \<notin> set (ta_Names a))"

lemma action_safe:
  assumes api: "api_safe api" and g: "good s" and fit: "doc_fit (hx_event h) (hx_id h) (hx_doc h)"
    and old: "\<And>o'. hx_old h = Some o' \<Longrightarrow> storable o'" and a: "action_ok a"
    and run: "runTriggerAction ulid a api h s = (r, d, s')"
  shows "good s' \<and> doc_fit (hx_event h) (hx_id h) d"
proof -
  have doc: "storable x" if "hx_doc h = Some x" "stored_event (hx_event h)" for x
    using fit that by (simp add: doc_fit_def)
  have set: "doc_fit (hx_event h) (hx_id h) (map_option (set_fields (resolveMap (hx_doc h) (hx_old h) (ta_Fields a))) (hx_doc h))"
  proof (cases "hx_doc h")
    case (Some x)
    show ?thesis
    proof (cases "stored_event (hx_event h)")
      case True
      have "vals_ok (resolveMap (hx_doc h) (hx_old h) (ta_Fields a))"
        by (rule resolveMap_ok) (use doc [OF _ True] old a in \<open>auto simp: action_ok_def\<close>)
      from set_fields_fit [OF this doc [OF Some True]] show ?thesis
        using fit Some True by (auto simp: doc_fit_def doc_id_def)
    qed (auto simp: doc_fit_def stored_event_def split: option.split)
  qed (simp add: doc_fit_def)
  have unset: "doc_fit (hx_event h) (hx_id h) (map_option (\<lambda>d. remove_fields d (ta_Names a)) (hx_doc h))" if "ta_Type a = ''unset''"
    using fit a that storable_remove
    by (auto simp: doc_fit_def doc_id_def map_of_remove_fields action_ok_def split: option.splits)
  show ?thesis
    using run set unset g fit api_safeD [OF api g]
    by (auto simp: runTriggerAction_def Let_def nested_op_def split: if_splits sum.splits)
qed

lemma run_actions_safe:
  "api_safe api \<Longrightarrow> good s \<Longrightarrow> doc_fit (hx_event h) (hx_id h) (hx_doc h) \<Longrightarrow> (\<And>o'. hx_old h = Some o' \<Longrightarrow> storable o') \<Longrightarrow>
    \<forall>a \<in> set as. action_ok a \<Longrightarrow> run_actions ulid as api h s = (r, d, s') \<Longrightarrow> good s' \<and> doc_fit (hx_event h) (hx_id h) d"
proof (induction as arbitrary: h s)
  case (Cons a as)
  obtain x d1 s1 where 1: "runTriggerAction ulid a api h s = (x, d1, s1)" by (metis prod_cases3)
  have ok: "good s1" "doc_fit (hx_event h) (hx_id h) d1"
    using action_safe [OF Cons.prems(1-3) _ _ 1] Cons.prems(4,5) by auto
  show ?case
  proof (cases x)
    case (Inl e)
    then show ?thesis using Cons.prems(6) 1 ok by auto
  next
    case (Inr u)
    then have "run_actions ulid as api (h\<lparr>hx_doc := d1\<rparr>) s1 = (r, d, s')" using Cons.prems(6) 1 by simp
    from Cons.IH [OF Cons.prems(1) ok(1) _ _ _ this] show ?thesis using ok(2) Cons.prems(4,5) by simp
  qed
qed auto

lemma trigger_safe:
  assumes "\<forall>a \<in> set (tr_Actions t). action_ok a"
  shows "fn_safe (runTrigger rx ulid t)"
  unfolding fn_safe_def
proof (intro allI impI)
  fix api ctx s r doc' s'
  assume a: "api_safe api" "good s" "doc_fit (hx_event ctx) (hx_id ctx) (hx_doc ctx)" "\<forall>o'. hx_old ctx = Some o' \<longrightarrow> storable o'"
    and run: "runTrigger rx ulid t api ctx s = (r, doc', s')"
  have "run_actions ulid (tr_Actions t) api ctx s = (x, d, s1) \<Longrightarrow> good s1 \<and> doc_fit (hx_event ctx) (hx_id ctx) d" for x d s1
    using run_actions_safe [OF a(1-3) _ assms] a(4) by blast
  then show "good s' \<and> doc_fit (hx_event ctx) (hx_id ctx) doc'"
    using run a(2,3) by (auto simp: runTrigger_def Let_def split: if_splits option.splits sum.splits)
qed

lemma trigger_env_safe:
  assumes "env_safe env" and "\<And>i t. map_of (ts_fns ts) i = Some t \<Longrightarrow> \<forall>a \<in> set (tr_Actions t). action_ok a"
  shows "env_safe (trigger_env env ts)"
  using assms trigger_safe by (auto simp: env_safe_def trigger_env_def split: option.split)

section \<open>Rules read back\<close>

lemma fold_mput_fresh:
  "distinct (map fst xs) \<Longrightarrow> fst ` set xs \<inter> keys m = {} \<Longrightarrow> distinct_keys m \<Longrightarrow>
    (let r = fold (\<lambda>p m. mput (fst p) (snd p) m) xs m in
      map_of r = map_of m ++ map_of xs \<and> distinct_keys r \<and> keys r = keys m \<union> fst ` set xs)"
proof (induction xs arbitrary: m)
  case (Cons p xs)
  have "map_of (mput (fst p) (snd p) m) ++ map_of xs = map_of m ++ map_of (p # xs)"
  proof -
    have "map_of xs (fst p) = None" using Cons.prems(1) by (simp add: map_of_eq_None_iff)
    then show ?thesis by (cases p) (auto simp: map_add_def fun_eq_iff split: option.split)
  qed
  moreover have "fst ` set xs \<inter> keys (mput (fst p) (snd p) m) = {}" using Cons.prems by auto
  ultimately show ?case
    using Cons.IH [of "mput (fst p) (snd p) m"] Cons.prems(1-3) by (simp add: Let_def del: map_of.simps map_of_mput)
qed (simp add: Let_def)

lemma distinct_fst_sort [simp]: "distinct (map fst (sort_key fst xs)) = distinct (map fst xs)"
  for xs :: "(string \<times> 'v) list"
proof -
  have "mset (map fst (sort_key fst xs)) = mset (map fst xs)" by simp
  then show ?thesis using mset_eq_imp_distinct_iff by blast
qed

lemma map_of_sort_key: "distinct (map fst xs) \<Longrightarrow> map_of (sort_key fst xs) = map_of xs"
  for xs :: "(string \<times> 'v) list"
  by (rule map_of_eqI) (auto simp: map_of_eq_Some_iff)

text \<open>An object whose keys are distinct and clean is read back with the values read back.\<close>

lemma reread_object:
  assumes "distinct_keys m" and "\<And>k v. (k, v) \<in> set m \<Longrightarrow> utf8_clean k = k \<and> json_reread v \<noteq> None"
  obtains r where "json_reread (JMap m) = Some (JMap r)" "distinct_keys r" "keys r = keys m"
    "\<And>k. map_of r k = Option.bind (map_of m k) json_reread"
proof -
  let ?es = "map (\<lambda>p. (fst p, the (json_reread (snd p)))) m"
  have es: "those (map (\<lambda>p. map_option (Pair (fst p)) (snd p)) (map (\<lambda>p. (fst p, json_reread (snd p))) m)) = Some ?es"
    using assms(2)
  proof (induction m)
    case (Cons p m)
    then obtain w where "json_reread (snd p) = Some w" by (cases p) fastforce
    then show ?case using Cons by (auto simp: comp_def)
  qed simp
  have keys_clean: "fold (\<lambda>p m. mput (utf8_clean (fst p)) (snd p) m) xs acc = fold (\<lambda>p m. mput (fst p) (snd p) m) xs acc"
    if "set xs \<subseteq> set ?es" for xs acc
    using that assms(2) by (induction xs arbitrary: acc) auto
  have d: "distinct (map fst ?es)" using assms(1) by (simp add: distinct_keys_def comp_def)
  let ?r = "fold (\<lambda>p m. mput (fst p) (snd p) m) (sort_key fst ?es) []"
  have r: "json_reread (JMap m) = Some (JMap ?r)"
    using es keys_clean [of "sort_key fst ?es" "[]"] by (simp add: reread_map_def)
  have k: "fst ` set ?es = keys m" by (simp add: image_image)
  have "map_of ?r = map_of ?es \<and> distinct_keys ?r \<and> keys ?r = keys m"
    using fold_mput_fresh [of "sort_key fst ?es" "[]"] d map_of_sort_key [OF d] k
    by (simp add: Let_def del: map_map list.map_comp)
  moreover have "map_of ?es k = Option.bind (map_of m k) json_reread" for k
    using assms(2)
  proof (induction m)
    case (Cons p m)
    then obtain w where "json_reread (snd p) = Some w" by (cases p) fastforce
    then show ?case using Cons by auto
  qed simp
  ultimately show ?thesis using r by (intro that [of ?r]) simp_all
qed

text \<open>A value that is written and read back as itself: what \<open>json.Unmarshal\<close> makes, with clean strings.\<close>

definition json_clean :: "jval \<Rightarrow> bool" where
  "json_clean v \<longleftrightarrow> json_reread v = Some v"

definition clean_string :: "string \<Rightarrow> bool" where
  "clean_string s \<longleftrightarrow> utf8_clean s = s"

definition clean_action :: "trigger_action \<Rightarrow> bool" where
  "clean_action a \<longleftrightarrow> clean_string (ta_Type a) \<and> clean_string (ta_Collection a) \<and> list_all clean_string (ta_Names a)
    \<and> json_clean (ta_ID a) \<and> json_clean (JMap (ta_Doc a)) \<and> json_clean (JMap (ta_Fields a)) \<and> json_clean (JMap (ta_Set a))"

definition clean_trigger :: "trigger \<Rightarrow> bool" where
  "clean_trigger t \<longleftrightarrow> clean_string (tr_ID t) \<and> clean_string (tr_Event t) \<and> clean_string (tr_Collection t)
    \<and> json_clean (JMap (tr_Filter t)) \<and> list_all clean_action (tr_Actions t)"

lemma reread_object_twice:
  assumes "distinct_keys m" and "\<And>k v. (k, v) \<in> set m \<Longrightarrow> utf8_clean k = k \<and> Option.bind (json_reread v) json_reread \<noteq> None"
  obtains r r' where "json_reread (JMap m) = Some (JMap r)" "json_reread (JMap r) = Some (JMap r')"
    "\<And>k. map_of r' k = Option.bind (Option.bind (map_of m k) json_reread) json_reread"
proof -
  have 1: "utf8_clean k = k \<and> json_reread v \<noteq> None" if "(k, v) \<in> set m" for k v
    using assms(2) [OF that] by (cases "json_reread v") auto
  obtain r where r: "json_reread (JMap m) = Some (JMap r)" "distinct_keys r" "keys r = keys m"
      "\<And>k. map_of r k = Option.bind (map_of m k) json_reread"
    using reread_object [OF assms(1) 1] by metis
  have 2: "utf8_clean k = k \<and> json_reread v \<noteq> None" if "(k, v) \<in> set r" for k v
  proof -
    have "map_of r k = Some v" using that r(2) by (simp add: distinct_keys_map_of_iff)
    then obtain u where u: "(k, u) \<in> set m" "json_reread u = Some v"
      using r(4) [of k] assms(1) by (auto simp: bind_eq_Some_conv dest: map_of_SomeD)
    show ?thesis using assms(2) [OF u(1)] u(2) by simp
  qed
  obtain r' where "json_reread (JMap r) = Some (JMap r')" "\<And>k. map_of r' k = Option.bind (map_of r k) json_reread"
    using reread_object [OF r(2) 2] by metis
  then show ?thesis using that [of r r'] r(1,4) by simp
qed

lemma map_of_opt_field [simp]: "map_of (opt_field p k v) x = (if p \<and> x = k then Some v else None)"
  by (simp add: opt_field_def)

lemma set_opt_field [simp]: "set (opt_field p k v) = (if p then {(k, v)} else {})"
  by (simp add: opt_field_def)

lemma keys_opt_field: "map fst (opt_field p k v) = (if p then [k] else [])"
  by (simp add: opt_field_def)

lemma those_Some: "(\<And>x. x \<in> set xs \<Longrightarrow> f x = Some (g x)) \<Longrightarrow> those (map f xs) = Some (map g xs)"
  by (induction xs) auto

lemma all_res_map: "(\<And>x. x \<in> set xs \<Longrightarrow> f (g x) = Inr (h x)) \<Longrightarrow> all_res f (map g xs) = Inr (map h xs)"
  by (induction xs) auto

lemma clean_keys [simp]:
  "utf8_clean ''type'' = ''type''" "utf8_clean ''collection'' = ''collection''" "utf8_clean ''id'' = ''id''"
  "utf8_clean ''doc'' = ''doc''" "utf8_clean ''fields'' = ''fields''" "utf8_clean ''names'' = ''names''"
  "utf8_clean ''set'' = ''set''" "utf8_clean ''_id'' = ''_id''" "utf8_clean ''event'' = ''event''"
  "utf8_clean ''enabled'' = ''enabled''" "utf8_clean ''async'' = ''async''" "utf8_clean ''filter'' = ''filter''"
  "utf8_clean ''actions'' = ''actions''"
  by code_simp+

lemma strings_reread: "list_all clean_string ss \<Longrightarrow> map (\<lambda>s. JStr (utf8_clean s)) ss = map JStr ss"
  by (induction ss) (auto simp: clean_string_def)

lemma names_reread:
  "list_all clean_string ss \<Longrightarrow> json_reread (JStrs ss) = Some (JArr (map JStr ss)) \<and> json_reread (JArr (map JStr ss)) = Some (JArr (map JStr ss))"
proof (induction ss)
  case (Cons s ss)
  then show ?case by (auto simp: strings_reread clean_string_def)
qed simp

lemma action_round_trip:
  assumes "clean_action a"
  shows "\<exists>d d'. json_reread (action_fields a) = Some (JMap d) \<and> json_reread (JMap d) = Some (JMap d') \<and> action_of (JMap d') = Inr a"
proof -
  let ?m = "[(''type'', JStr (ta_Type a))]
     @ opt_field (ta_Collection a \<noteq> []) ''collection'' (JStr (ta_Collection a))
     @ opt_field (ta_ID a \<noteq> JNull) ''id'' (ta_ID a)
     @ opt_field (ta_Doc a \<noteq> []) ''doc'' (JMap (ta_Doc a))
     @ opt_field (ta_Fields a \<noteq> []) ''fields'' (JMap (ta_Fields a))
     @ opt_field (ta_Names a \<noteq> []) ''names'' (JStrs (ta_Names a))
     @ opt_field (ta_Set a \<noteq> []) ''set'' (JMap (ta_Set a))"
  have leaf: "json_reread (ta_ID a) = Some (ta_ID a)" "json_reread (JMap (ta_Doc a)) = Some (JMap (ta_Doc a))"
    "json_reread (JMap (ta_Fields a)) = Some (JMap (ta_Fields a))" "json_reread (JMap (ta_Set a)) = Some (JMap (ta_Set a))"
    "json_reread (JStr (ta_Type a)) = Some (JStr (ta_Type a))" "json_reread (JStr (ta_Collection a)) = Some (JStr (ta_Collection a))"
    "json_reread (JStrs (ta_Names a)) = Some (JArr (map JStr (ta_Names a)))"
    "json_reread (JArr (map JStr (ta_Names a))) = Some (JArr (map JStr (ta_Names a)))"
    using assms names_reread [of "ta_Names a"] by (auto simp: clean_action_def json_clean_def clean_string_def simp del: json_reread.simps(6-10))
  have d: "distinct_keys ?m" by (simp add: distinct_keys_def keys_opt_field)
  have v: "utf8_clean k = k \<and> Option.bind (json_reread v) json_reread \<noteq> None" if "(k, v) \<in> set ?m" for k v
    using that leaf by (auto split: if_splits simp del: json_reread.simps)
  obtain r r' where r: "json_reread (JMap ?m) = Some (JMap r)" "json_reread (JMap r) = Some (JMap r')"
      and look: "\<And>k. map_of r' k = Option.bind (Option.bind (map_of ?m k) json_reread) json_reread"
    using reread_object_twice [OF d v] by metis
  have names: "all_res name_of (map JStr (ta_Names a)) = Inr (ta_Names a)"
    using all_res_map [of "ta_Names a" name_of JStr id] by (simp add: name_of_def)
  have "action_of (JMap r') = Inr a"
    using leaf names
    by (simp add: action_of_def str_of_def map_field_def names_field_def look map_add_def del: json_reread.simps)
  then show ?thesis using r by (auto simp: action_fields_def simp del: json_reread.simps)
qed

lemma actions_reread:
  assumes "list_all clean_action acts"
  shows "\<exists>ds ds'. json_reread (JArr (map action_fields acts)) = Some (JArr ds) \<and> json_reread (JArr ds) = Some (JArr ds')
    \<and> all_res action_of ds' = Inr acts"
  using assms
proof (induction acts)
  case (Cons a acts)
  obtain d d' where d: "json_reread (action_fields a) = Some (JMap d)" "json_reread (JMap d) = Some (JMap d')" "action_of (JMap d') = Inr a"
    using action_round_trip [of a] Cons.prems by auto
  obtain ds ds' where ds: "json_reread (JArr (map action_fields acts)) = Some (JArr ds)" "json_reread (JArr ds) = Some (JArr ds')"
    "all_res action_of ds' = Inr acts" using Cons by auto
  show ?case
    using d ds by (intro exI [of _ "JMap d # ds"] exI [of _ "JMap d' # ds'"]) auto
qed simp

lemma enabled_opt: "(case e of None \<Rightarrow> [] | Some b \<Rightarrow> [(k, JBool b)]) = opt_field (e \<noteq> None) k (JBool (the e))"
  by (simp add: opt_field_def split: option.split)

lemma trigger_read_back:
  assumes "clean_trigger t"
  shows "\<exists>d. triggerToDoc t = Inr d \<and> docToTrigger d = Inr t"
proof -
  let ?m = "[(''_id'', JStr (tr_ID t)), (''event'', JStr (tr_Event t)), (''collection'', JStr (tr_Collection t))]
        @ opt_field (tr_Enabled t \<noteq> None) ''enabled'' (JBool (the (tr_Enabled t)))
        @ opt_field (tr_Async t) ''async'' (JBool True)
        @ opt_field (tr_Filter t \<noteq> []) ''filter'' (JMap (tr_Filter t))
        @ [(''actions'', JArr (map action_fields (tr_Actions t)))]"
  obtain ds ds' where acts: "json_reread (JArr (map action_fields (tr_Actions t))) = Some (JArr ds)"
      "json_reread (JArr ds) = Some (JArr ds')" "all_res action_of ds' = Inr (tr_Actions t)"
    using actions_reread [of "tr_Actions t"] assms by (auto simp: clean_trigger_def)
  have leaf: "json_reread (JStr (tr_ID t)) = Some (JStr (tr_ID t))" "json_reread (JStr (tr_Event t)) = Some (JStr (tr_Event t))"
    "json_reread (JStr (tr_Collection t)) = Some (JStr (tr_Collection t))" "json_reread (JMap (tr_Filter t)) = Some (JMap (tr_Filter t))"
    "\<And>b. json_reread (JBool b) = Some (JBool b)"
    using assms by (simp_all add: clean_trigger_def json_clean_def clean_string_def)
  have d: "distinct_keys ?m" by (simp add: distinct_keys_def keys_opt_field)
  have v: "utf8_clean k = k \<and> Option.bind (json_reread v) json_reread \<noteq> None" if "(k, v) \<in> set ?m" for k v
    using that leaf acts(1,2) by (auto split: if_splits simp del: json_reread.simps)
  obtain r r' where r: "json_reread (JMap ?m) = Some (JMap r)" "json_reread (JMap r) = Some (JMap r')"
      and look: "\<And>k. map_of r' k = Option.bind (Option.bind (map_of ?m k) json_reread) json_reread"
    using reread_object_twice [OF d v] by metis
  have at: "map_of r' ''_id'' = Some (JStr (tr_ID t))" "map_of r' ''event'' = Some (JStr (tr_Event t))"
    "map_of r' ''collection'' = Some (JStr (tr_Collection t))" "map_of r' ''actions'' = Some (JArr ds')"
    "map_of r' ''filter'' = (if tr_Filter t = [] then None else Some (JMap (tr_Filter t)))"
    "map_of r' ''async'' = (if tr_Async t then Some (JBool True) else None)"
    "map_of r' ''enabled'' = map_option JBool (tr_Enabled t)"
    using leaf acts by (simp_all add: look map_add_def del: json_reread.simps) (cases "tr_Enabled t", simp_all)
  have "docToTrigger r = Inr t"
    using at r(2) acts(3)
    by (cases "tr_Enabled t") (simp_all add: docToTrigger_def str_of_def map_field_def bool_of_def actions_field_def del: json_reread.simps)
  then show ?thesis using r(1) unfolding triggerToDoc_def enabled_opt by (simp del: json_reread.simps)
qed

section \<open>A rule that takes the id out\<close>

definition unset_rule :: trigger where
  "unset_rule = \<lparr>tr_ID = ''r'', tr_Event = ''before_insert'', tr_Collection = ''c'', tr_Enabled = None, tr_Async = False, tr_Filter = [],
     tr_Actions = [\<lparr>ta_Type = ''unset'', ta_Collection = [], ta_ID = JNull, ta_Doc = [], ta_Fields = [], ta_Names = [''_id''], ta_Set = []\<rparr>]\<rparr>"

definition quiet_env :: hook_env where
  "quiet_env = \<lparr>he_fn = (\<lambda>_ _ ctx s. (Inr (), hx_doc ctx, s)),
     he_wait = id, he_full = id, he_ulid = (\<lambda>s. itoa (st_next s)), he_rx = (\<lambda>_. None), he_procs = 1, he_walk = id\<rparr>"

definition no_triggers :: trigger_state where
  "no_triggers = \<lparr>ts_loaded = False, ts_hooks = [], ts_fns = []\<rparr>"


definition ruled :: "trigger_state \<times> store" where
  "ruled = snd (registerTriggerHook unset_rule (no_triggers, newStore))"

definition plain_insert :: "string \<Rightarrow> store \<Rightarrow> store" where
 "plain_insert did s = snd (insertApply id None ''c'' did [(''x'', JNull)] s)"

definition unset_reg :: hook_reg where
  "unset_reg = \<lparr>hk_id = 1, hk_event = ''before_insert'', hk_coll = ''c'', hk_async = False\<rparr>"

text \<open>With this rule the hooks leave nothing but the document without its id to be stored.\<close>

lemma unset_hook:
  assumes "st_hooks s = [unset_reg]"
    and "checkWriteLocked None ''c'' s = Inr ()" and "collRO ''c'' s = None \<or> map_of (c_entries (the (collRO ''c'' s))) did = None"
    and "did \<noteq> []" and "checkDocSize [(''x'', JNull), (''_id'', JStr did)] = Inr ()"
    and "st_hooks (plain_insert did s) = st_hooks s"
  shows "insertDocFrame (top_runner (trigger_env quiet_env (ts\<lparr>ts_fns := [(1, unset_rule)]\<rparr>))) id did None ''c'' [(''x'', JNull)] s = insertApply id None ''c'' did [(''x'', JNull)] s"
proof -
  have d: "docID did [(''x'', JNull)] = Inr (did, [(''x'', JNull), (''_id'', JStr did)])"
    using assms(4) by (simp add: docID_def mput_def)
  have m: "matchHooks ''before_insert'' ''c'' s = [unset_reg]" "matchHooks ''after_insert'' ''c'' (plain_insert did s) = []"
    using assms by (simp_all add: matchHooks_def collMatch_def unset_reg_def)
  have p: "previewMissing ''c'' did ErrDuplicate s = Inr ()" using assms(3) by (auto simp: previewMissing_def split: option.split)
  have b: "run_before (top_runner (trigger_env quiet_env (ts\<lparr>ts_fns := [(1, unset_rule)]\<rparr>))) [unset_reg] ''before_insert'' ''c'' did (Some [(''x'', JNull), (''_id'', JStr did)]) None s
     = (Inr (Some [(''x'', JNull)]), s)"
    by (simp add: top_runner_def maxHookDepth_def eval_nat_numeral frame_runner_def unset_reg_def beginHookErr_def call_hook_def trigger_env_def quiet_env_def
       runTrigger_def unset_rule_def runTriggerAction_def remove_fields_def mdel_def)
  have a: "run_after (top_runner env) ''after_insert'' ''c'' did x None (plain_insert did s) = plain_insert did s" for env x
    using m(2) by (simp add: top_runner_def maxHookDepth_def eval_nat_numeral frame_runner_def)
  obtain r' s' where i: "insertApply id None ''c'' did [(''x'', JNull)] s = (r', s')" by fastforce
  have "run_after (top_runner env) ''after_insert'' ''c'' did x None s' = s'" for env x
    using a [of env x] by (simp add: plain_insert_def i)
  then show ?thesis
    by (cases r') (simp_all add: insertDocFrame_def d m p b i assms(2,5) Let_def previewWrite_def after_ok_def)
qed

definition insert_x :: "trigger_state \<Rightarrow> string \<Rightarrow> store \<Rightarrow> store" where
  "insert_x ts did s = snd (insertDocFrame (top_runner (trigger_env quiet_env ts)) id did None ''c'' [(''x'', JNull)] s)"

lemma ruled_eval:
  "snd ruled = newStore\<lparr>st_hooks := [unset_reg], st_hookSeq := 1\<rparr>"
  "fst ruled = no_triggers\<lparr>ts_hooks := [(''r'', 1)], ts_fns := [(1, unset_rule)]\<rparr>"
  by (simp_all add: ruled_def registerTriggerHook_def unset_rule_def On_def addHook_def validHookEvent_def hook_events_def no_triggers_def newStore_def mput_def unset_reg_def)

lemma inserted_without_id:
  "insert_x (fst ruled) ''a'' (snd ruled) = plain_insert ''a'' (snd ruled)" (is ?A)
  "insert_x (fst ruled) ''b'' (plain_insert ''a'' (snd ruled)) = plain_insert ''b'' (plain_insert ''a'' (snd ruled))" (is ?B)
proof -
  show ?A unfolding insert_x_def ruled_eval plain_insert_def
    by (rule arg_cong [where f = snd], rule unset_hook) (unfold plain_insert_def, code_simp+)
  show ?B unfolding insert_x_def ruled_eval plain_insert_def
    by (rule arg_cong [where f = snd], rule unset_hook) (unfold plain_insert_def, code_simp+)
qed

end
