(* ===== verification/Codecs.thy ===== *)
theory Codecs
  imports Json
begin

text \<open>
  The text codecs the sources take from the standard library: \<open>encoding/base64\<close> (padded and raw, not
  strict, newlines skipped on decoding), \<open>encoding/hex\<close>, and reading decimal integers
  (\<open>strconv.ParseInt\<close> of base 10 and the verb \<open>%d\<close> of \<open>fmt.Sscanf\<close>). Strings are lists of bytes.
\<close>

section \<open>Base64\<close>

definition b64_char :: "nat \<Rightarrow> char" where
  "b64_char n =
     (if n < 26 then char_of (65 + n) else if n < 52 then char_of (71 + n)
      else if n < 62 then char_of (n - 4) else if n = 62 then CHR ''+'' else CHR ''/'')"

definition b64_val :: "char \<Rightarrow> nat option" where
  "b64_val c = (let n = (of_char c :: nat) in
     if 65 \<le> n \<and> n \<le> 90 then Some (n - 65) else if 97 \<le> n \<and> n \<le> 122 then Some (n - 71)
     else if 48 \<le> n \<and> n \<le> 57 then Some (n + 4) else if c = CHR ''+'' then Some 62
     else if c = CHR ''/'' then Some 63 else None)"

fun b64_sextets :: "string \<Rightarrow> nat list" where
  "b64_sextets [] = []"
| "b64_sextets [a] = (let x = of_char a in [x div 4, x mod 4 * 16])"
| "b64_sextets [a, b] = (let x = of_char a; y = of_char b in [x div 4, x mod 4 * 16 + y div 16, y mod 16 * 4])"
| "b64_sextets (a # b # c # s) = (let x = of_char a; y = of_char b; z = of_char c in
     x div 4 # (x mod 4 * 16 + y div 16) # (y mod 16 * 4 + z div 64) # (z mod 64) # b64_sextets s)"

fun b64_bytes :: "nat list \<Rightarrow> string option" where
  "b64_bytes [] = Some []"
| "b64_bytes [a] = None"
| "b64_bytes [a, b] = Some [char_of (a * 4 + b div 16)]"
| "b64_bytes [a, b, c] = Some [char_of (a * 4 + b div 16), char_of (b mod 16 * 16 + c div 4)]"
| "b64_bytes (a # b # c # d # s) =
     map_option (\<lambda>r. char_of (a * 4 + b div 16) # char_of (b mod 16 * 16 + c div 4) # char_of (c mod 4 * 64 + d) # r) (b64_bytes s)"

text \<open>\<open>RawStdEncoding\<close>\<close>

definition b64_encode_raw :: "string \<Rightarrow> string" where
  "b64_encode_raw s = map b64_char (b64_sextets s)"

definition not_newline :: "char \<Rightarrow> bool" where
  "not_newline c \<longleftrightarrow> c \<noteq> CHR 0x0A \<and> c \<noteq> CHR 0x0D"

definition b64_decode_raw :: "string \<Rightarrow> string option" where
  "b64_decode_raw s = Option.bind (those (map b64_val (filter not_newline s))) b64_bytes"

text \<open>\<open>StdEncoding\<close>: the padding makes the length a multiple of four.\<close>

definition b64_encode :: "string \<Rightarrow> string" where
  "b64_encode s = b64_encode_raw s
     @ (if length s mod 3 = 1 then ''=='' else if length s mod 3 = 2 then ''='' else [])"

definition strip_padding :: "string \<Rightarrow> string option" where
  "strip_padding s =
     (if length s mod 4 \<noteq> 0 then None
      else if 2 \<le> length s \<and> drop (length s - 2) s = ''=='' then Some (take (length s - 2) s)
      else if 1 \<le> length s \<and> drop (length s - 1) s = ''='' then Some (take (length s - 1) s)
      else Some s)"

definition b64_decode :: "string \<Rightarrow> string option" where
  "b64_decode s = Option.bind (strip_padding (filter not_newline s)) b64_decode_raw"

lemma b64_val_char:
  assumes "n < 64"
  shows "b64_val (b64_char n) = Some n"
proof -
  consider "n < 26" | "26 \<le> n" "n < 52" | "52 \<le> n" "n < 62" | "n = 62" | "n = 63" using assms by linarith
  then show ?thesis by cases (auto simp: b64_char_def b64_val_def Let_def)
qed

text \<open>The characters of the encoding, all but those of other use in the formats around it.\<close>

lemma b64_char_plain:
  assumes "n < 64"
  shows "43 \<le> (of_char (b64_char n) :: nat) \<and> b64_char n \<noteq> CHR ''=''"
proof -
  consider "n < 26" | "26 \<le> n" "n < 52" | "52 \<le> n" "n < 62" | "n = 62" | "n = 63" using assms by linarith
  then have "43 \<le> (of_char (b64_char n) :: nat) \<and> (of_char (b64_char n) :: nat) \<noteq> 61"
    by cases (auto simp: b64_char_def)
  then show ?thesis by auto
qed

lemma byte_div [simp]:
  "byte_of c div 4 < 64" "byte_of c div 16 < 16" "byte_of c div 64 < 4"
  by (simp_all add: less_mult_imp_div_less)

lemma b64_sextets_less: "\<forall>n \<in> set (b64_sextets s). n < 64"
proof -
  have m: "x mod 4 * 16 + y < 64" if "y < 16" for x y :: nat using that mod_less_divisor [of 4 x] by linarith
  have n: "x mod 16 * 4 + y < 64" if "y < 4" for x y :: nat using that mod_less_divisor [of 16 x] by linarith
  show ?thesis
    by (induction s rule: b64_sextets.induct) (simp_all add: Let_def m n m [of 0, simplified] n [of 0, simplified])
qed

lemma join_high: "(x div 4) * 4 + (x mod 4 * 16 + y) div 16 = x" if "y < 16" for x y :: nat
  using that by (simp add: div_mult_mod_eq)

lemma b64_bytes_sextets: "b64_bytes (b64_sextets s) = Some s"
proof (induction s rule: b64_sextets.induct)
  case (2 a)
  show ?case by (simp add: Let_def)
next
  case (3 a b)
  have "(x * 16 + y) mod 16 * 16 + z mod 16 * 4 div 4 = z" if "y = z div 16" "z < 256" for x y z :: nat
  proof -
    have "(x * 16 + y) mod 16 = y" using that by simp
    then show ?thesis using that(1) by simp
  qed
  then show ?case by (simp add: Let_def join_high)
next
  case (4 a b c s)
  have "(x * 16 + z div 16) mod 16 * 16 + (z mod 16 * 4 + w) div 4 = z" if "z < 256" "w < 4" for x z w :: nat
  proof -
    have "(x * 16 + z div 16) mod 16 = z div 16" using that by simp
    then show ?thesis using that(2) by simp
  qed
  moreover have "(x * 4 + w div 64) mod 4 * 64 + w mod 64 = w" if "w < 256" for x w :: nat
  proof -
    have "(x * 4 + w div 64) mod 4 = w div 64" using that by simp
    then show ?thesis by simp
  qed
  ultimately show ?case using 4 by (simp add: Let_def join_high)
qed simp
lemma not_newline_char: "n < 64 \<Longrightarrow> not_newline (b64_char n)"
  using b64_char_plain [of n] by (auto simp: not_newline_def)

lemma b64_raw_chars: "c \<in> set (b64_encode_raw s) \<Longrightarrow> not_newline c \<and> c \<noteq> CHR ''='' \<and> 43 \<le> byte_of c"
  using b64_sextets_less b64_char_plain not_newline_char by (fastforce simp: b64_encode_raw_def)

lemma those_b64: "\<forall>n \<in> set ns. n < 64 \<Longrightarrow> those (map b64_val (map b64_char ns)) = Some ns"
  by (induction ns) (auto simp: b64_val_char)

lemma b64_raw_round_trip [simp]: "b64_decode_raw (b64_encode_raw s) = Some s"
proof -
  have "filter not_newline (b64_encode_raw s) = b64_encode_raw s"
    using b64_raw_chars by (simp add: filter_id_conv)
  then show ?thesis
    using those_b64 [OF b64_sextets_less] b64_bytes_sextets by (simp add: b64_decode_raw_def b64_encode_raw_def)
qed

lemma length_sextets: "length (b64_sextets s) = (length s * 4 + 2) div 3"
  by (induction s rule: b64_sextets.induct) (simp_all add: Let_def)

lemma b64_round_trip [simp]: "b64_decode (b64_encode s) = Some s"
proof -
  let ?r = "b64_encode_raw s"
  have raw: "\<forall>c \<in> set ?r. not_newline c \<and> c \<noteq> CHR ''=''" using b64_raw_chars by blast
  have len: "length ?r = (length s * 4 + 2) div 3" by (simp add: b64_encode_raw_def length_sextets)
  have nl: "filter not_newline (b64_encode s) = b64_encode s"
    using raw by (auto simp: filter_id_conv b64_encode_def not_newline_def)
  have last: "drop (length ?r - k) ?r \<noteq> CHR ''='' # p" if "length ?r - k < length ?r" for k p
  proof
    assume "drop (length ?r - k) ?r = CHR ''='' # p"
    then have "CHR ''='' \<in> set (drop (length ?r - k) ?r)" by simp
    then show False using raw in_set_dropD by fastforce
  qed
  consider "length s mod 3 = 0" | "length s mod 3 = 1" | "length s mod 3 = 2" by linarith
  then have "strip_padding (b64_encode s) = Some ?r"
  proof cases
    case 1
    then have "length ?r mod 4 = 0" unfolding len by presburger
    then show ?thesis using 1 last [of 2 "''=''"] last [of 1 "[]"]
      by (auto simp: b64_encode_def strip_padding_def)
  next
    case 2
    then have "(length ?r + 2) mod 4 = 0" unfolding len by presburger
    then show ?thesis using 2 by (simp add: b64_encode_def strip_padding_def)
  next
    case 3
    then have m: "(length ?r + 1) mod 4 = 0" unfolding len by presburger
    then have "length ?r \<noteq> 0" by presburger
    then have "drop (length ?r - 1) ?r \<noteq> CHR ''='' # []" by (intro last) simp
    then show ?thesis using 3 m by (auto simp: b64_encode_def strip_padding_def)
  qed
  then show ?thesis by (simp add: b64_decode_def nl)
qed

section \<open>Hexadecimal\<close>

definition hex_val :: "char \<Rightarrow> nat option" where
  "hex_val c = (let n = byte_of c in
     if 48 \<le> n \<and> n \<le> 57 then Some (n - 48) else if 97 \<le> n \<and> n \<le> 102 then Some (n - 87)
     else if 65 \<le> n \<and> n \<le> 70 then Some (n - 55) else None)"

definition hex_byte :: "char \<Rightarrow> string" where
  "hex_byte c = [hex_char (byte_of c div 16), hex_char (byte_of c mod 16)]"

definition hex_encode :: "string \<Rightarrow> string" where
  "hex_encode s = concat (map hex_byte s)"

fun hex_decode :: "string \<Rightarrow> string option" where
  "hex_decode [] = Some []"
| "hex_decode [c] = None"
| "hex_decode (h # l # s) =
     (case (hex_val h, hex_val l) of
        (Some x, Some y) \<Rightarrow> map_option (Cons (char_of (x * 16 + y))) (hex_decode s)
      | _ \<Rightarrow> None)"

lemma hex_val_char [simp]: "n < 16 \<Longrightarrow> hex_val (hex_char n) = Some n"
  by (auto simp: hex_val_def hex_char_def Let_def)

lemma hex_round_trip [simp]: "hex_decode (hex_encode s) = Some s"
  by (induction s) (simp_all add: hex_encode_def hex_byte_def)

lemma length_hex [simp]: "length (hex_encode s) = 2 * length s"
  by (induction s) (simp_all add: hex_encode_def hex_byte_def)

section \<open>Decimal integers\<close>

text \<open>\<open>strconv.ParseInt(s, 10, 64)\<close>\<close>

definition sign_of :: "string \<Rightarrow> bool \<times> string" where
  "sign_of s = (case s of [] \<Rightarrow> (False, []) | c # r \<Rightarrow>
     if c = CHR ''-'' then (True, r) else if c = CHR ''+'' then (False, r) else (False, s))"

definition in_int64 :: "int \<Rightarrow> bool" where
  "in_int64 i \<longleftrightarrow> - (2 ^ 63) \<le> i \<and> i < 2 ^ 63"

definition parse_int :: "string \<Rightarrow> int option" where
  "parse_int s =
     (let (neg, t) = sign_of s; v = int (digits_val t); w = (if neg then - v else v) in
      if t = [] \<or> (\<exists>c \<in> set t. \<not> is_digit c) \<or> \<not> in_int64 w then None else Some w)"

lemma sign_of_itoa: "sign_of (itoa n @ s) = (False, itoa n @ s)"
proof -
  obtain c r where i: "itoa n = c # r" by (cases "itoa n") (use itoa_nonempty in blast)+
  then have "is_digit c" using itoa_digits [of n] by simp
  then have "c \<noteq> CHR ''-'' \<and> c \<noteq> CHR ''+''" by (auto simp: is_digit_def)
  then show ?thesis by (simp add: sign_of_def i)
qed

lemma parse_itoa: "in_int64 i \<Longrightarrow> parse_int (itoa_int i) = Some i"
  using itoa_digits sign_of_itoa [of _ "[]"]
  by (auto simp: parse_int_def itoa_int_def sign_of_def Let_def)

text \<open>The verb \<open>%d\<close>: blanks are skipped, a newline among them is an error.\<close>

fun skip_blanks :: "string \<Rightarrow> string option" where
  "skip_blanks [] = Some []"
| "skip_blanks (c # s) =
     (if c = CHR 0x0D \<and> (case s of d # _ \<Rightarrow> d = CHR 0x0A | [] \<Rightarrow> False) then skip_blanks (tl s)
      else if c = CHR 0x0A then None
      else if c \<in> {CHR '' '', CHR 0x09, CHR 0x0B, CHR 0x0C, CHR 0x0D} then skip_blanks s
      else Some (c # s))"

definition scan_int :: "string \<Rightarrow> (int \<times> string) option" where
  "scan_int s = Option.bind (skip_blanks s) (\<lambda>t.
     let (neg, u) = sign_of t; ds = takeWhile is_digit u; v = int (digits_val ds); w = (if neg then - v else v) in
     if ds = [] \<or> \<not> in_int64 w then None else Some (w, dropWhile is_digit u))"

definition scan_uint32 :: "string \<Rightarrow> (nat \<times> string) option" where
  "scan_uint32 s = Option.bind (skip_blanks s) (\<lambda>t.
     let ds = takeWhile is_digit t in
     if ds = [] \<or> 2 ^ 32 \<le> digits_val ds then None else Some (digits_val ds, dropWhile is_digit t))"

text \<open>Evaluation compares as integers: the bound in unary would never be reached.\<close>

lemma scan_uint32_code [code]:
  "scan_uint32 s = Option.bind (skip_blanks s) (\<lambda>t.
     let ds = takeWhile is_digit t in
     if ds = [] \<or> 4294967296 \<le> int (digits_val ds) then None else Some (digits_val ds, dropWhile is_digit t))"
proof -
  have "2 ^ 32 \<le> n \<longleftrightarrow> 4294967296 \<le> int n" for n :: nat by simp
  then show ?thesis by (simp add: scan_uint32_def)
qed

definition literal :: "string \<Rightarrow> string \<Rightarrow> string option" where
  "literal p s = (if has_prefix s p then Some (drop (length p) s) else None)"

lemma literal_append [simp]: "literal p (p @ s) = Some s"
  by (simp add: literal_def)

lemma skip_blanks_digit: "is_digit c \<Longrightarrow> skip_blanks (c # s) = Some (c # s)"
  by (auto simp: is_digit_def)

lemma scan_digits:
  assumes "s = [] \<or> \<not> is_digit (hd s)"
  shows "takeWhile is_digit (itoa n @ s) = itoa n" and "dropWhile is_digit (itoa n @ s) = s"
    and "skip_blanks (itoa n @ s) = Some (itoa n @ s)"
proof -
  show "takeWhile is_digit (itoa n @ s) = itoa n" "dropWhile is_digit (itoa n @ s) = s"
    using assms itoa_digits [of n] by (cases s; simp add: takeWhile_append dropWhile_append)+
  obtain c r where i: "itoa n = c # r" by (cases "itoa n") (use itoa_nonempty in blast)+
  then show "skip_blanks (itoa n @ s) = Some (itoa n @ s)"
    using itoa_digits [of n] skip_blanks_digit [of c "r @ s"] by simp
qed

lemma scan_uint32_itoa: "n < 2 ^ 32 \<Longrightarrow> s = [] \<or> \<not> is_digit (hd s) \<Longrightarrow> scan_uint32 (itoa n @ s) = Some (n, s)"
  by (simp add: scan_uint32_def scan_digits)

lemma scan_int_itoa: "in_int64 (int n) \<Longrightarrow> s = [] \<or> \<not> is_digit (hd s) \<Longrightarrow> scan_int (itoa n @ s) = Some (int n, s)"
  by (simp add: scan_int_def scan_digits sign_of_itoa)

end
