(* ===== verification/Accounts.thy ===== *)
theory Accounts
  imports Store_Ops Codecs
begin

text \<open>
  Users, roles and sessions (\<open>db/auth.go\<close>): documents of the system collections \<open>_users\<close> and
  \<open>_roles\<close>, password hashes in PHC form, and logging in. \<open>kdf\<close> is \<open>argon2.IDKey\<close> (password, salt,
  time, memory, threads, length of the key) of \<open>golang.org/x/crypto\<close>; \<open>rnd\<close> is what
  \<open>readRandom\<close> yields, an error or bytes; \<open>fl\<close> is \<open>FlushSync\<close>, which writes to the file.
\<close>

section \<open>After a mutation (db/file.go)\<close>

definition afterMutation :: "(store \<Rightarrow> unit outcome) \<Rightarrow> store \<Rightarrow> unit outcome" where
  "afterMutation fl s = (if \<not> op_SyncOnWrite (st_opts s) \<or> st_path s = [] then (Inr (), s) else fl s)"

section \<open>Password hashes\<close>

type_synonym kdf = "string \<Rightarrow> string \<Rightarrow> nat \<Rightarrow> nat \<Rightarrow> nat \<Rightarrow> nat \<Rightarrow> string"

definition pwKeyLen :: nat where "pwKeyLen = 32"

definition defaultKDF :: "nat \<times> nat \<times> nat" where "defaultKDF = (1, 64 * 1024, 4)"
definition lightKDF :: "nat \<times> nat \<times> nat" where "lightKDF = (1, 8 * 1024, 1)"

definition hashArgon2id :: "kdf \<Rightarrow> string res \<Rightarrow> string \<Rightarrow> nat \<Rightarrow> nat \<Rightarrow> nat \<Rightarrow> string res" where
  "hashArgon2id kdf rnd pw t m p = and_then rnd (\<lambda>salt.
     Inr (''$argon2id$v=19$m='' @ itoa m @ '',t='' @ itoa t @ '',p='' @ itoa p @ ''$''
       @ b64_encode_raw salt @ ''$'' @ b64_encode_raw (kdf pw salt t m p pwKeyLen)))"

definition hashPassword :: "kdf \<Rightarrow> options \<Rightarrow> string res \<Rightarrow> string \<Rightarrow> string res" where
  "hashPassword kdf o' rnd pw =
     (let (t, m, p) = (if op_LightKDF o' then lightKDF else defaultKDF) in hashArgon2id kdf rnd pw t m p)"

text \<open>\<open>fmt.Sscanf(s, "m=%d,t=%d,p=%d", ...)\<close>; what follows the last number is not looked at.\<close>

definition scan_params :: "string \<Rightarrow> (nat \<times> nat \<times> int) option" where
  "scan_params s =
     Option.bind (literal ''m='' s) (\<lambda>s. Option.bind (scan_uint32 s) (\<lambda>(m, s).
     Option.bind (literal '',t='' s) (\<lambda>s. Option.bind (scan_uint32 s) (\<lambda>(t, s).
     Option.bind (literal '',p='' s) (\<lambda>s. Option.bind (scan_int s) (\<lambda>(p, _). Some (m, t, p)))))))"

definition verifyPassword :: "kdf \<Rightarrow> string \<Rightarrow> string \<Rightarrow> bool" where
  "verifyPassword kdf pw encoded =
     (let parts = split_on (CHR ''$'') encoded in
      if length parts \<noteq> 6 \<or> parts ! 1 \<noteq> ''argon2id'' then False
      else case scan_params (parts ! 3) of
        None \<Rightarrow> False
      | Some (m, t, p) \<Rightarrow>
          (case (b64_decode_raw (parts ! 4), b64_decode_raw (parts ! 5)) of
             (Some salt, Some want) \<Rightarrow>
               want \<noteq> [] \<and> kdf pw salt t m (nat (p mod 256)) (length want) = want
           | _ \<Rightarrow> False))"

section \<open>Fields of user and role documents\<close>

text \<open>The strings among the elements; a value of another form has none.\<close>

definition str_elems :: "jval list \<Rightarrow> string list" where
  "str_elems xs = concat (map (\<lambda>x. case x of JStr s \<Rightarrow> [s] | _ \<Rightarrow> []) xs)"

definition parseRoles :: "jval option \<Rightarrow> string list" where
  "parseRoles v = (case v of Some (JStrs ss) \<Rightarrow> ss | Some (JArr xs) \<Rightarrow> str_elems xs | _ \<Rightarrow> [])"

definition permFromMap :: "document \<Rightarrow> permission" where
  "permFromMap m =
     \<lparr>pm_collection = (case map_of m ''collection'' of Some (JStr s) \<Rightarrow> s | _ \<Rightarrow> []),
      pm_read = (map_of m ''read'' = Some (JBool True)),
      pm_write = (map_of m ''write'' = Some (JBool True)),
      pm_fieldDeny = parseRoles (map_of m ''fieldDeny'')\<rparr>"

definition permFromAny :: "jval \<Rightarrow> permission list" where
  "permFromAny v = (case v of JDoc m \<Rightarrow> [permFromMap m] | JMap m \<Rightarrow> [permFromMap m] | _ \<Rightarrow> [])"

definition parsePermissions :: "jval option \<Rightarrow> permission list" where
  "parsePermissions v = (case v of Some (JArr xs) \<Rightarrow> concat (map permFromAny xs) | _ \<Rightarrow> [])"

definition perm_doc :: "permission \<Rightarrow> document" where
  "perm_doc p = [(''collection'', JStr (pm_collection p)), (''read'', JBool (pm_read p)), (''write'', JBool (pm_write p))]
     @ (if pm_fieldDeny p = [] then [] else [(''fieldDeny'', JArr (map JStr (pm_fieldDeny p)))])"

section \<open>Users and roles\<close>

definition roles_known :: "string list \<Rightarrow> store \<Rightarrow> unit res" where
  "roles_known roles s =
     (if roles = [] then Inr ()
      else case collRO rolesColl s of
        None \<Rightarrow> Inl (ErrOther ''db: no roles defined'')
      | Some rc \<Rightarrow> if set roles \<subseteq> keys (c_entries rc) then Inr () else Inl (ErrOther ''db: role not found''))"

definition user_doc :: "string \<Rightarrow> string \<Rightarrow> string list \<Rightarrow> document" where
  "user_doc username hash roles =
     [(''_id'', JStr username), (''password_hash'', JStr hash), (''roles'', JArr (map JStr roles))]"

definition add_record :: "string \<Rightarrow> string \<Rightarrow> document \<Rightarrow> store \<Rightarrow> unit outcome" where
  "add_record name did doc s =
     (let (c, s1) = coll name s in
      if map_of (c_entries c) did \<noteq> None then (Inl ErrDuplicate, s1)
      else (Inr (), store_new_entry name c (c_indexes c) did doc s1))"

definition createUser :: "string \<Rightarrow> string \<Rightarrow> string list \<Rightarrow> store \<Rightarrow> unit outcome" where
  "createUser username hash roles s =
     guard_out (roles_known roles s) s (add_record usersColl username (user_doc username hash roles))"

definition CreateUser :: "kdf \<Rightarrow> (store \<Rightarrow> unit outcome) \<Rightarrow> string res \<Rightarrow> string \<Rightarrow> string \<Rightarrow> string list
    \<Rightarrow> store \<Rightarrow> unit outcome" where
  "CreateUser kdf fl rnd username pw roles s =
     (if username = [] then (Inl (ErrOther ''db: username required''), s)
      else if pw = [] then (Inl (ErrOther ''db: password required''), s)
      else case hashPassword kdf (st_opts s) rnd pw of
        Inl e \<Rightarrow> (Inl e, s)
      | Inr hash \<Rightarrow> bind_out (createUser username hash roles s) (\<lambda>_. afterMutation fl))"

definition createRole :: "string \<Rightarrow> permission list \<Rightarrow> store \<Rightarrow> unit outcome" where
  "createRole name perms s =
     add_record rolesColl name [(''_id'', JStr name), (''permissions'', JArr (map (JDoc \<circ> perm_doc) perms))] s"

definition CreateRole :: "(store \<Rightarrow> unit outcome) \<Rightarrow> string \<Rightarrow> permission list \<Rightarrow> store \<Rightarrow> unit outcome" where
  "CreateRole fl name perms s =
     (if name = [] then (Inl (ErrOther ''db: role name required''), s)
      else bind_out (createRole name perms s) (\<lambda>_. afterMutation fl))"

text \<open>The lists read what is in memory only: of a record not loaded nothing is seen but its name.\<close>

definition in_memory :: "store \<Rightarrow> nat \<Rightarrow> document" where
  "in_memory s a = (case e_docP (st_heap s a) of Some d \<Rightarrow> d | None \<Rightarrow> [])"

definition role_names :: "document \<Rightarrow> string list" where
  "role_names doc = (case map_of doc ''roles'' of Some (JArr xs) \<Rightarrow> str_elems xs | _ \<Rightarrow> [])"

definition ListUsers :: "store \<Rightarrow> (string \<times> string list) list" where
  "ListUsers s = (case collRO usersColl s of None \<Rightarrow> []
     | Some c \<Rightarrow> map (\<lambda>(did, a). (did, role_names (in_memory s a))) (c_entries c))"

definition ListRoles :: "store \<Rightarrow> (string \<times> permission list) list" where
  "ListRoles s = (case collRO rolesColl s of None \<Rightarrow> []
     | Some c \<Rightarrow> map (\<lambda>(did, a). (did, parsePermissions (map_of (in_memory s a) ''permissions''))) (c_entries c))"

definition drop_entry :: "string \<Rightarrow> collection \<Rightarrow> string \<Rightarrow> store \<Rightarrow> store" where
  "drop_entry name c did = putColl name (c\<lparr>c_entries := mdel did (c_entries c)\<rparr>)"

definition DeleteUser :: "string \<Rightarrow> store \<Rightarrow> unit outcome" where
  "DeleteUser username s =
     (case collRO usersColl s of
        None \<Rightarrow> (Inl ErrNotFound, s)
      | Some c \<Rightarrow> (case map_of (c_entries c) username of
            None \<Rightarrow> (Inl ErrNotFound, s)
          | Some a \<Rightarrow>
              let s1 = drop_entry usersColl c username s;
                  s2 = (if e_docP (st_heap s1 a) \<noteq> None
                        then (less_resident (e_size (st_heap s1 a)) s1)\<lparr>st_cache := removeAll a (st_cache s1)\<rparr> else s1)
              in (Inr (), markDirty s2)))"

definition set_field :: "string \<Rightarrow> string \<Rightarrow> jval \<Rightarrow> collection \<Rightarrow> store \<Rightarrow> unit outcome" where
  "set_field username k v c s =
     bind_out (resident c username s) (\<lambda>doc s.
       case map_of (c_entries c) username of
         None \<Rightarrow> (Inl ErrNotFound, s)
       | Some a \<Rightarrow> (Inr (), markEntryMutated a (put_entry a ((st_heap s a)\<lparr>e_docP := Some (mput k v doc)\<rparr>) s)))"

definition find_user :: "string \<Rightarrow> store \<Rightarrow> collection res" where
  "find_user username s =
     (case collRO usersColl s of
        None \<Rightarrow> Inl ErrNotFound
      | Some c \<Rightarrow> if map_of (c_entries c) username = None then Inl ErrNotFound else Inr c)"

definition SetUserRoles :: "(store \<Rightarrow> unit outcome) \<Rightarrow> string \<Rightarrow> string list \<Rightarrow> store \<Rightarrow> unit outcome" where
  "SetUserRoles fl username roles s =
     guard_out (roles_known roles s) s (\<lambda>s.
       case find_user username s of
         Inl e \<Rightarrow> (Inl e, s)
       | Inr c \<Rightarrow> bind_out (set_field username ''roles'' (JArr (map JStr roles)) c s) (\<lambda>_. afterMutation fl))"

definition DeleteRole :: "string \<Rightarrow> store \<Rightarrow> unit outcome" where
  "DeleteRole name s =
     (let users = (case collRO usersColl s of None \<Rightarrow> [] | Some uc \<Rightarrow> c_entries uc) in
      if \<exists>(did, a) \<in> set users. name \<in> set (role_names (in_memory s a)) then (Inl (ErrOther ''db: role is in use''), s)
      else case collRO rolesColl s of
        None \<Rightarrow> (Inl ErrNotFound, s)
      | Some c \<Rightarrow> if map_of (c_entries c) name = None then (Inl ErrNotFound, s)
                  else (Inr (), markDirty (drop_entry rolesColl c name s)))"

definition without_user :: "string \<Rightarrow> store \<Rightarrow> store" where
  "without_user username s = s\<lparr>st_sessions := filter (\<lambda>p. ss_user (snd p) \<noteq> username) (st_sessions s)\<rparr>"

definition ChangePassword :: "kdf \<Rightarrow> (store \<Rightarrow> unit outcome) \<Rightarrow> string res \<Rightarrow> string \<Rightarrow> string \<Rightarrow> store \<Rightarrow> unit outcome" where
  "ChangePassword kdf fl rnd username pw s =
     (if username = [] \<or> pw = [] then (Inl (ErrOther ''db: username and password required''), s)
      else case hashPassword kdf (st_opts s) rnd pw of
        Inl e \<Rightarrow> (Inl e, s)
      | Inr hash \<Rightarrow> (case find_user username s of
            Inl e \<Rightarrow> (Inl e, s)
          | Inr c \<Rightarrow> bind_out (set_field username ''password_hash'' (JStr hash) c s) (\<lambda>_ s. afterMutation fl (without_user username s))))"

section \<open>Forgetting all credentials\<close>

definition purgeAllSessionsLocked :: "store \<Rightarrow> store" where
  "purgeAllSessionsLocked s = s\<lparr>st_sessions := []\<rparr>"

definition deleteRecordLocked :: "string \<Rightarrow> string \<Rightarrow> store \<Rightarrow> unit outcome" where
  "deleteRecordLocked name did s =
     (case collRO name s of
        None \<Rightarrow> (Inl ErrNotFound, s)
      | Some c \<Rightarrow> (case map_of (c_entries c) did of
            None \<Rightarrow> (Inl ErrNotFound, s)
          | Some a \<Rightarrow>
              let s1 = (if st_path s \<noteq> [] \<and> (st_sawFile s \<or> st_flushInProgress s)
                        then markEntryMutated a (s\<lparr>st_pendingDels := st_pendingDels s @ [\<lparr>dl_coll = name, dl_id = did, dl_gen = 0\<rparr>]\<rparr>)
                        else s)
              in (Inr (), drop_entry name c did s1)))"

definition delete_records :: "string \<Rightarrow> store \<Rightarrow> store" where
  "delete_records name s =
     (case collRO name s of
        None \<Rightarrow> s
      | Some c \<Rightarrow>
          let s1 = foldl (\<lambda>s did. snd (deleteRecordLocked name did s)) s (map fst (c_entries c))
          in s1\<lparr>st_collections := mdel name (st_collections s1)\<rparr>)"

definition ResetAuth :: "store \<Rightarrow> store" where
  "ResetAuth s =
     (if \<not> authActiveLocked s then s
      else delete_records rolesColl (delete_records usersColl (purgeAllSessionsLocked s)))"

section \<open>Sessions\<close>

definition SystemSession :: session where
  "SystemSession = \<lparr>ss_ref = 0, ss_token = ''system'', ss_user = [], ss_roles = [],
     ss_perms = [\<lparr>pm_collection = ''*'', pm_read = True, pm_write = True, pm_fieldDeny = []\<rparr>],
     ss_expires = None, ss_system = True\<rparr>"

definition Revoke :: "string \<Rightarrow> store \<Rightarrow> store" where
  "Revoke token s = (if token = [] then s else s\<lparr>st_sessions := mdel token (st_sessions s)\<rparr>)"

definition defaultSessionTTL :: int where
  "defaultSessionTTL = 24 * 3600 * 10 ^ 9"

definition sessionTTL :: "options \<Rightarrow> int" where
  "sessionTTL o' = (if op_SessionTTL o' = 0 then defaultSessionTTL else op_SessionTTL o')"

fun role_perms :: "collection \<Rightarrow> string list \<Rightarrow> store \<Rightarrow> permission list \<times> store" where
  "role_perms rc [] s = ([], s)"
| "role_perms rc (r # rs) s =
     (case (if map_of (c_entries rc) r = None then (Inl ErrNotFound, s) else resident rc r s) of
        (Inl _, s1) \<Rightarrow> role_perms rc rs s1
      | (Inr doc, s1) \<Rightarrow>
          (case role_perms rc rs s1 of (ps, s2) \<Rightarrow> (parsePermissions (map_of doc ''permissions'') @ ps, s2)))"

definition resolveRolePerms :: "string list \<Rightarrow> store \<Rightarrow> permission list \<times> store" where
  "resolveRolePerms rs s =
     (if rs = [] then ([], s)
      else case collRO rolesColl s of None \<Rightarrow> ([], s) | Some rc \<Rightarrow> role_perms rc rs s)"

definition purgeExpiredLocked :: "store \<Rightarrow> store" where
  "purgeExpiredLocked s =
     s\<lparr>st_sessions := filter (\<lambda>p. case ss_expires (snd p) of None \<Rightarrow> True | Some t \<Rightarrow> \<not> t < st_now s) (st_sessions s)\<rparr>"

text \<open>
  \<open>Authenticate\<close> takes the lock three times: to read the user, to read the roles, and to register
  the session. Other operations may come in between; the three steps are definitions of their own.
\<close>

definition auth_read :: "kdf \<Rightarrow> string \<Rightarrow> string \<Rightarrow> store \<Rightarrow> string list outcome" where
  "auth_read kdf username pw s =
     (if username = [] \<or> pw = [] then (Inl ErrUnauthorized, s)
      else case (case collRO usersColl s of None \<Rightarrow> (Inl ErrNotFound, s) | Some c \<Rightarrow> resident c username s) of
        (Inl _, s1) \<Rightarrow> (Inl ErrUnauthorized, s1)
      | (Inr doc, s1) \<Rightarrow>
          if map_of doc ''disabled'' = Some (JBool True) then (Inl ErrUnauthorized, s1)
          else let hash = (case map_of doc ''password_hash'' of Some (JStr h) \<Rightarrow> h | _ \<Rightarrow> []) in
            if hash = [] \<or> \<not> verifyPassword kdf pw hash then (Inl ErrUnauthorized, s1)
            else (Inr (parseRoles (map_of doc ''roles'')), s1))"

definition b64_url_char :: "char \<Rightarrow> char" where
  "b64_url_char c = (if c = CHR ''+'' then CHR ''-'' else if c = CHR ''/'' then CHR ''_'' else c)"

definition session_token :: "string \<Rightarrow> string" where
  "session_token raw = map b64_url_char (b64_encode_raw raw)"

definition auth_register :: "string \<Rightarrow> string list \<Rightarrow> permission list \<Rightarrow> string \<Rightarrow> int \<Rightarrow> store \<Rightarrow> session \<times> store" where
  "auth_register username roles perms raw ttl s =
     (let sess = \<lparr>ss_ref = st_next s, ss_token = session_token raw, ss_user = username, ss_roles = roles, ss_perms = perms,
            ss_expires = (if 0 < ttl then Some (st_now s + ttl) else None), ss_system = False\<rparr>;
          s1 = purgeExpiredLocked s
      in (sess, s1\<lparr>st_next := Suc (st_next s1), st_sessions := mput (ss_token sess) sess (st_sessions s1)\<rparr>))"

definition Authenticate :: "kdf \<Rightarrow> string res \<Rightarrow> string \<Rightarrow> string \<Rightarrow> store \<Rightarrow> session outcome" where
  "Authenticate kdf rnd username pw s =
     (let ttl = sessionTTL (st_opts s) in
      bind_out (auth_read kdf username pw s) (\<lambda>roles s.
        let (perms, s1) = resolveRolePerms roles s in
        case rnd of
          Inl e \<Rightarrow> (Inl e, s1)
        | Inr raw \<Rightarrow> (case auth_register username roles perms raw ttl s1 of (sess, s2) \<Rightarrow> (Inr sess, s2))))"

section \<open>The data interface of a session\<close>

definition session_Insert :: "hook_runner \<Rightarrow> (store \<Rightarrow> store) \<Rightarrow> (store \<Rightarrow> unit outcome) \<Rightarrow> string \<Rightarrow> session \<Rightarrow> string
    \<Rightarrow> document \<Rightarrow> store \<Rightarrow> unit outcome" where
  "session_Insert hk wt fl auto sess name doc s = bind_out (insertDocFrame hk wt auto (Some sess) name doc s) (\<lambda>_. afterMutation fl)"

definition session_Upsert :: "hook_runner \<Rightarrow> (store \<Rightarrow> store) \<Rightarrow> (store \<Rightarrow> unit outcome) \<Rightarrow> session \<Rightarrow> string \<Rightarrow> string
    \<Rightarrow> document \<Rightarrow> store \<Rightarrow> unit outcome" where
  "session_Upsert hk wt fl sess name did doc s = bind_out (upsertDocFrame hk wt (Some sess) name did doc s) (\<lambda>_. afterMutation fl)"

definition session_UpdateFields :: "hook_runner \<Rightarrow> (store \<Rightarrow> store) \<Rightarrow> (store \<Rightarrow> unit outcome) \<Rightarrow> session \<Rightarrow> string \<Rightarrow> string
    \<Rightarrow> document \<Rightarrow> string list \<Rightarrow> store \<Rightarrow> unit outcome" where
  "session_UpdateFields hk wt fl sess name did patch remove s =
     bind_out (updateDocFrame hk wt (Some sess) name did patch remove s) (\<lambda>_. afterMutation fl)"

definition session_Delete :: "hook_runner \<Rightarrow> (store \<Rightarrow> store) \<Rightarrow> (store \<Rightarrow> unit outcome) \<Rightarrow> session \<Rightarrow> string \<Rightarrow> string
    \<Rightarrow> store \<Rightarrow> unit outcome" where
  "session_Delete hk wt fl sess name did s = bind_out (deleteDocFrame hk wt (Some sess) name did s) (\<lambda>_. afterMutation fl)"

definition session_EnsureIndex :: "(store \<Rightarrow> unit outcome) \<Rightarrow> session \<Rightarrow> string \<Rightarrow> string list \<Rightarrow> bool \<Rightarrow> store \<Rightarrow> unit outcome" where
  "session_EnsureIndex fl sess name flds unique s =
     guard_out (previewWrite (Some sess) name s) s (\<lambda>s. bind_out (ensureIndex name flds unique s) (\<lambda>_. afterMutation fl))"

definition session_DropIndex :: "(store \<Rightarrow> unit outcome) \<Rightarrow> session \<Rightarrow> string \<Rightarrow> string list \<Rightarrow> store \<Rightarrow> unit outcome" where
  "session_DropIndex fl sess name flds s =
     guard_out (previewWrite (Some sess) name s) s (\<lambda>s. bind_out (dropIndex name flds s) (\<lambda>_. afterMutation fl))"

definition session_ListIndexes :: "session \<Rightarrow> string \<Rightarrow> store \<Rightarrow> index_info list res" where
  "session_ListIndexes sess name s = and_then (checkReadLocked (Some sess) name s) (\<lambda>_. Inr (listIndexes name s))"

definition session_Collections :: "session \<Rightarrow> store \<Rightarrow> string list" where
  "session_Collections sess s = filter (\<lambda>c. \<not> isSystemColl c \<and> canRead sess c) (collections_list s)"

end
