(* ===== verification/Account_Laws.thy ===== *)
theory Account_Laws
  imports Accounts Store_Reach
begin

text \<open>
  What logging in and changing a password guarantee: a hash verifies exactly the passwords with its
  key, \<open>Authenticate\<close> succeeds exactly for those with the permissions stored then, and a changed
  password leaves no session of the user.
\<close>

section \<open>Password hashes\<close>

lemma b64_no_dollar: "CHR ''$'' \<notin> set (b64_encode_raw s)"
  using b64_raw_chars [of "CHR ''$''" s] by auto

lemma itoa_no: "\<not> is_digit c \<Longrightarrow> c \<notin> set (itoa n)"
  using itoa_digits by blast

lemma scan_params_text:
  assumes "m < 2 ^ 32" and "t < 2 ^ 32" and "p < 2 ^ 63"
  shows "scan_params (''m='' @ itoa m @ '',t='' @ itoa t @ '',p='' @ itoa p) = Some (m, t, int p)"
proof -
  have nd: "\<not> is_digit (CHR '','')" by (simp add: is_digit_def)
  have "int p < 2 ^ 63" using assms(3) by (metis of_nat_less_iff of_nat_numeral of_nat_power)
  then have p: "in_int64 (int p)" by (simp add: in_int64_def)
  have 1: "scan_uint32 (itoa m @ '',t='' @ r) = Some (m, '',t='' @ r)" for r using assms(1) nd by (simp add: scan_uint32_itoa)
  have 2: "scan_uint32 (itoa t @ '',p='' @ r) = Some (t, '',p='' @ r)" for r using assms(2) nd by (simp add: scan_uint32_itoa)
  have 3: "scan_int (itoa p) = Some (int p, [])" using scan_int_itoa [OF p, of "[]"] by simp
  show ?thesis unfolding scan_params_def literal_append bind.bind_lunit 1 prod.case 2 3 by simp
qed

lemma verify_hash:
  assumes len: "\<And>pw salt t m p n. length (kdf pw salt t m p n) = n"
    and range: "m < 2 ^ 32" "t < 2 ^ 32" "p < 256"
    and h: "hashArgon2id kdf (Inr salt) pw t m p = Inr h"
  shows "verifyPassword kdf pw' h \<longleftrightarrow> kdf pw' salt t m p pwKeyLen = kdf pw salt t m p pwKeyLen"
proof -
  define ps where "ps = ''m='' @ itoa m @ '',t='' @ itoa t @ '',p='' @ itoa p"
  have dl: "CHR ''$'' \<notin> set ps" using itoa_no [of "CHR ''$''"] by (simp add: ps_def is_digit_def)
  have "h = ''$argon2id$v=19$'' @ ps @ CHR ''$'' # b64_encode_raw salt @ CHR ''$'' # b64_encode_raw (kdf pw salt t m p pwKeyLen)"
    using h by (simp add: hashArgon2id_def ps_def)
  then have split: "split_on (CHR ''$'') h = [[], ''argon2id'', ''v=19'', ps, b64_encode_raw salt, b64_encode_raw (kdf pw salt t m p pwKeyLen)]"
    by (simp add: split_on_append [OF dl] split_on_append [OF b64_no_dollar] split_on_absent [OF b64_no_dollar])
  have p: "scan_params ps = Some (m, t, int p)" unfolding ps_def using range by (intro scan_params_text) simp_all
  have "kdf pw salt t m p pwKeyLen \<noteq> []" using len [of pw salt t m p pwKeyLen] by (auto simp: pwKeyLen_def)
  then show ?thesis using range(3) p by (simp add: verifyPassword_def split len)
qed
lemma hash_given: "\<exists>h. hashPassword kdf o' (Inr salt) pw = Inr h \<and> h \<noteq> []"
  by (cases "op_LightKDF o'") (simp_all add: hashPassword_def hashArgon2id_def lightKDF_def defaultKDF_def)

lemma hash_verifies:
  assumes len: "\<And>pw salt t m p n. length (kdf pw salt t m p n) = n"
    and h: "hashPassword kdf o' (Inr salt) pw = Inr h"
  shows "verifyPassword kdf pw' h \<longleftrightarrow>
    (let (t, m, p) = (if op_LightKDF o' then lightKDF else defaultKDF) in kdf pw' salt t m p pwKeyLen = kdf pw salt t m p pwKeyLen)"
proof -
  have 1: "verifyPassword kdf pw' h \<longleftrightarrow> kdf pw' salt t m p pwKeyLen = kdf pw salt t m p pwKeyLen"
    if "hashArgon2id kdf (Inr salt) pw t m p = Inr h" "m < 2 ^ 32" "t < 2 ^ 32" "p < 256" for t m p
    by (rule verify_hash [where kdf = kdf]) (use len that in simp_all)
  show ?thesis using h 1 [of 1 "8 * 1024" 1] 1 [of 1 "64 * 1024" 4]
    by (cases "op_LightKDF o'") (simp_all add: hashPassword_def lightKDF_def defaultKDF_def)
qed

section \<open>Logging in\<close>

text \<open>Who may log in, with which roles, and what the roles grant, in terms of the documents stored.\<close>

definition may_login :: "kdf \<Rightarrow> string \<Rightarrow> string \<Rightarrow> store \<Rightarrow> string list \<Rightarrow> bool" where
  "may_login kdf user pw s roles \<longleftrightarrow> user \<noteq> [] \<and> pw \<noteq> []
     \<and> (\<exists>doc h. docs s usersColl user = Some doc \<and> map_of doc ''disabled'' \<noteq> Some (JBool True)
          \<and> map_of doc ''password_hash'' = Some (JStr h) \<and> h \<noteq> [] \<and> verifyPassword kdf pw h
          \<and> roles = parseRoles (map_of doc ''roles''))"

definition granted_by :: "store \<Rightarrow> string \<Rightarrow> permission list" where
  "granted_by s r = (case docs s rolesColl r of None \<Rightarrow> [] | Some d \<Rightarrow> parsePermissions (map_of d ''permissions''))"

lemma resident_lookup:
  assumes ok: "store_ok s" and c: "collRO name s = Some c" and r: "resident c did s = (r, s1)"
  shows "cache_step s s1 \<and> store_ok s1 \<and> docs s1 = docs s
    \<and> r = (case docs s name did of None \<Rightarrow> Inl ErrNotFound | Some d \<Rightarrow> Inr d)"
proof (cases "slot s name did")
  case None
  then show ?thesis using assms docs_slot [OF ok, of name did] by (auto simp: resident_def slot_def)
next
  case (Some a)
  obtain d s2 where "resident c did s = (Inr d, s2)" "docs s name did = Some d" "cache_step s s2" "store_ok s2" "docs s2 = docs s"
    using resident_ok [OF ok c Some] by metis
  then show ?thesis using r by simp
qed

lemma docs_no_coll: "collRO name s = None \<Longrightarrow> docs s name did = None"
  by (simp add: docs_def slot_def)

lemma auth_read_laws:
  assumes ok: "store_ok s" and r: "auth_read kdf user pw s = (r, s1)"
  shows "cache_step s s1 \<and> store_ok s1 \<and> docs s1 = docs s"
    and "r = Inr roles \<longleftrightarrow> may_login kdf user pw s roles" and "r = Inl e \<Longrightarrow> e = ErrUnauthorized"
proof -
  consider "user = [] \<or> pw = []" | "user \<noteq> []" "pw \<noteq> []" "collRO usersColl s = None"
    | c where "user \<noteq> []" "pw \<noteq> []" "collRO usersColl s = Some c" by fastforce
  then have "(cache_step s s1 \<and> store_ok s1 \<and> docs s1 = docs s) \<and> (r = Inr roles \<longleftrightarrow> may_login kdf user pw s roles)
    \<and> (\<forall>e. r = Inl e \<longrightarrow> e = ErrUnauthorized)"
  proof cases
    case 1
    then show ?thesis using r ok by (auto simp: auth_read_def may_login_def)
  next
    case 2
    then show ?thesis using r ok docs_no_coll [of usersColl s] by (auto simp: auth_read_def may_login_def)
  next
    case 3
    obtain q s2 where q: "resident c user s = (q, s2)" by fastforce
    note l = resident_lookup [OF ok 3(3) q]
    show ?thesis using r 3 l q
      by (auto simp: auth_read_def may_login_def Let_def split: option.splits if_splits jval.splits)
  qed
  then show "cache_step s s1 \<and> store_ok s1 \<and> docs s1 = docs s" "r = Inr roles \<longleftrightarrow> may_login kdf user pw s roles"
    "r = Inl e \<Longrightarrow> e = ErrUnauthorized" by auto
qed

lemma role_perms_laws:
  "store_ok s \<Longrightarrow> collRO rolesColl s = Some rc \<Longrightarrow> role_perms rc rs s = (ps, s1) \<Longrightarrow>
    cache_step s s1 \<and> store_ok s1 \<and> docs s1 = docs s \<and> ps = concat (map (granted_by s) rs)"
proof (induction rs arbitrary: s ps s1)
  case (Cons r rs)
  obtain q s2 where q: "resident rc r s = (q, s2)" by fastforce
  note l = resident_lookup [OF Cons.prems(1,2) q]
  have step: "(if map_of (c_entries rc) r = None then (Inl ErrNotFound, s) else resident rc r s) = (q, s2)"
    using q by (auto simp: resident_def)
  obtain ps' s3 where t: "role_perms rc rs s2 = (ps', s3)" by fastforce
  have c2: "collRO rolesColl s2 = Some rc" using l Cons.prems(2) cache_stepD(1) [of s s2] by (simp add: collRO_def)
  have g: "granted_by s2 = granted_by s" using l by (simp add: granted_by_def fun_eq_iff)
  from Cons.IH [OF _ c2 t] l have ih: "cache_step s2 s3 \<and> store_ok s3 \<and> docs s3 = docs s2 \<and> ps' = concat (map (granted_by s) rs)"
    by (simp add: g)
  have "ps = granted_by s r @ ps' \<and> s1 = s3"
    using Cons.prems(3) step t l by (auto simp: granted_by_def split: option.splits)
  then show ?case using ih l cache_step_trans by auto
qed simp

lemma resolve_laws:
  assumes "store_ok s" and "resolveRolePerms rs s = (ps, s1)"
  shows "cache_step s s1 \<and> store_ok s1 \<and> docs s1 = docs s \<and> ps = concat (map (granted_by s) rs)"
proof (cases "rs = [] \<or> collRO rolesColl s = None")
  case True
  then have "granted_by s r = []" if "r \<in> set rs" for r using that docs_no_coll by (auto simp: granted_by_def)
  then have "concat (map (granted_by s) rs) = []" by (simp add: concat_eq_Nil_conv)
  then show ?thesis using True assms by (auto simp: resolveRolePerms_def split: option.splits)
next
  case False
  then obtain rc where rc: "rs \<noteq> []" "collRO rolesColl s = Some rc" by auto
  then have "role_perms rc rs s = (ps, s1)" using assms(2) by (simp add: resolveRolePerms_def)
  from role_perms_laws [OF assms(1) rc(2) this] show ?thesis .
qed

text \<open>The registered sessions are a map. Of those there were, registering one drops the expired and the one
  with its token.\<close>

definition sessions_ok :: "store \<Rightarrow> bool" where
  "sessions_ok s \<longleftrightarrow> distinct_keys (st_sessions s)"

lemma map_of_filter_Some: "distinct_keys xs \<Longrightarrow> map_of (filter P xs) k = Some v \<longleftrightarrow> map_of xs k = Some v \<and> P (k, v)"
proof -
  assume d: "distinct_keys xs"
  then have "distinct_keys (filter P xs)" by (simp add: distinct_keys_def distinct_map_filter)
  then show ?thesis using d by (auto simp: distinct_keys_map_of_iff)
qed

lemma validLocked_cong: "st_sessions s' = st_sessions s \<Longrightarrow> st_now s' = st_now s \<Longrightarrow> validLocked o' s' = validLocked o' s"
  by (simp add: validLocked_def cong: option.case_cong)

lemma auth_register_laws:
  assumes ok: "store_ok s" "sessions_ok s" and r: "auth_register user roles perms raw ttl s = (sess, s1)"
  shows "store_ok s1 \<and> docs s1 = docs s \<and> sessions_ok s1" and "ss_user sess = user \<and> ss_roles sess = roles \<and> ss_perms sess = perms"
    and "\<not> ss_system sess \<and> validLocked sess s1" and "validLocked other s1 \<Longrightarrow> other = sess \<or> validLocked other s"
proof -
  have d: "sessions_ok (purgeExpiredLocked s)"
    using ok(2) by (simp add: sessions_ok_def purgeExpiredLocked_def distinct_keys_def distinct_map_filter)
  have s1: "store_ok s1 \<and> docs s1 = docs s"
    by (rule store_ok_same [OF ok(1)]) (use r store_ok_slots [OF ok(1)] in \<open>auto simp: auth_register_def Let_def purgeExpiredLocked_def doc_at_def slots_ok_def\<close>)
  have "sessions_ok s1" using r d by (auto simp: auth_register_def Let_def sessions_ok_def)
  then show "store_ok s1 \<and> docs s1 = docs s \<and> sessions_ok s1" using s1 by simp
  show "ss_user sess = user \<and> ss_roles sess = roles \<and> ss_perms sess = perms" "\<not> ss_system sess \<and> validLocked sess s1"
    using r by (auto simp: auth_register_def Let_def validLocked_def purgeExpiredLocked_def split: option.splits if_splits)
  show "validLocked other s1 \<Longrightarrow> other = sess \<or> validLocked other s"
    using r ok(2) by (auto simp: auth_register_def Let_def purgeExpiredLocked_def validLocked_def sessions_ok_def map_of_filter_Some split: if_splits option.splits)
qed

lemma authenticate_laws:
  assumes ok: "store_ok s" "sessions_ok s" and r: "Authenticate kdf (Inr raw) user pw s = (r, s1)"
  shows "store_ok s1 \<and> docs s1 = docs s \<and> sessions_ok s1"
    and "r = Inl e \<Longrightarrow> e = ErrUnauthorized \<and> \<not> may_login kdf user pw s roles"
    and "r = Inr sess \<Longrightarrow> may_login kdf user pw s (ss_roles sess) \<and> ss_user sess = user
      \<and> ss_perms sess = concat (map (granted_by s) (ss_roles sess)) \<and> \<not> ss_system sess \<and> validLocked sess s1"
    and "validLocked other s1 \<Longrightarrow> validLocked other s \<or> r = Inr other"
proof -
  obtain q s2 where q: "auth_read kdf user pw s = (q, s2)" by fastforce
  note l = auth_read_laws [OF ok(1) q]
  have so: "sessions_ok s2" and val: "validLocked o' s2 = validLocked o' s" for o'
    using ok(2) cache_stepD(7,8) [of s s2] l(1) validLocked_cong [of s2 s] by (auto simp: sessions_ok_def)
  have "(store_ok s1 \<and> docs s1 = docs s \<and> sessions_ok s1)
    \<and> (\<forall>e. r = Inl e \<longrightarrow> e = ErrUnauthorized \<and> \<not> may_login kdf user pw s roles)
    \<and> (\<forall>sess. r = Inr sess \<longrightarrow> may_login kdf user pw s (ss_roles sess) \<and> ss_user sess = user
      \<and> ss_perms sess = concat (map (granted_by s) (ss_roles sess)) \<and> \<not> ss_system sess \<and> validLocked sess s1)
    \<and> (\<forall>other. validLocked other s1 \<longrightarrow> validLocked other s \<or> r = Inr other)"
  proof (cases q)
    case (Inl e)
    have "q \<noteq> Inr roles" using Inl by simp
    then have "\<not> may_login kdf user pw s roles" using l(2) by blast
    then show ?thesis using r q Inl l(1,3) so val by (auto simp: Authenticate_def Let_def)
  next
    case (Inr rs)
    obtain ps s3 where p: "resolveRolePerms rs s2 = (ps, s3)" by fastforce
    note l2 = resolve_laws [OF _ p]
    obtain sess s4 where g: "auth_register user rs ps raw (sessionTTL (st_opts s)) s3 = (sess, s4)" by fastforce
    have so3: "sessions_ok s3" and val3: "validLocked o' s3 = validLocked o' s" for o'
        using so val cache_stepD(7,8) [of s2 s3] l2 l(1) validLocked_cong [of s3 s2] by (auto simp: sessions_ok_def)
    have "granted_by s2 = granted_by s" using l(1) by (simp add: granted_by_def fun_eq_iff)
    moreover have "r = Inr sess \<and> s1 = s4" using r q Inr p g by (simp add: Authenticate_def)
    moreover have "may_login kdf user pw s rs" using l(2) Inr by blast
    ultimately show ?thesis
      using auth_register_laws [OF _ so3 g] l2 l(1) val3 by auto
  qed
  then show "store_ok s1 \<and> docs s1 = docs s \<and> sessions_ok s1" "r = Inl e \<Longrightarrow> e = ErrUnauthorized \<and> \<not> may_login kdf user pw s roles"
    "r = Inr sess \<Longrightarrow> may_login kdf user pw s (ss_roles sess) \<and> ss_user sess = user
      \<and> ss_perms sess = concat (map (granted_by s) (ss_roles sess)) \<and> \<not> ss_system sess \<and> validLocked sess s1"
    "validLocked other s1 \<Longrightarrow> validLocked other s \<or> r = Inr other" by auto
qed

section \<open>Changing a password\<close>

text \<open>Writing the file touches neither sessions nor documents; time passes.\<close>

definition flush_ok :: "(store \<Rightarrow> unit outcome) \<Rightarrow> bool" where
  "flush_ok fl \<longleftrightarrow> (\<forall>s. st_sessions (snd (fl s)) = st_sessions s \<and> docs (snd (fl s)) = docs s \<and> st_now s \<le> st_now (snd (fl s)))"

lemma after_flush:
  "flush_ok fl \<Longrightarrow> st_sessions (snd (afterMutation fl s)) = st_sessions s \<and> docs (snd (afterMutation fl s)) = docs s
    \<and> st_now s \<le> st_now (snd (afterMutation fl s))"
  by (auto simp: afterMutation_def flush_ok_def)

lemma valid_later:
  "st_sessions s' = st_sessions s \<Longrightarrow> st_now s \<le> st_now s' \<Longrightarrow> validLocked sess s' \<Longrightarrow> validLocked sess s"
  by (auto simp: validLocked_def split: option.splits)

text \<open>A system collection without an index, as the program leaves it.\<close>

lemma set_field_laws:
  assumes ok: "store_ok s" and idx: "indexes s usersColl = []" and c: "collRO usersColl s = Some c"
    and d: "docs s usersColl user = Some doc" and v: "json_ok v"
  obtains s1 where "set_field user k v c s = (Inr (), s1)" "store_ok s1"
    "docs s1 = (docs s)(usersColl := (docs s usersColl)(user \<mapsto> mput k v doc))"
    "st_sessions s1 = st_sessions s" "st_now s1 = st_now s"
proof -
  obtain a where a: "slot s usersColl user = Some a" using d by (auto simp: docs_def split: option.splits)
  obtain d' s1 where r': "resident c user s = (Inr d', s1)" "docs s usersColl user = Some d'"
    and st: "cache_step s s1" "store_ok s1" "docs s1 = docs s"
    by (rule resident_ok [OF ok c a]) (rule that; assumption)
  have r: "resident c user s = (Inr doc, s1)" using r' d by simp
  have a1: "slot s1 usersColl user = Some a" and c1: "collRO usersColl s1 = Some c"
    using a c cache_stepD(1) [OF st(1)] slot_cong [of s1 s] by (simp_all add: collRO_def)
  have same: "putColl usersColl (c\<lparr>c_indexes := c_indexes c\<rparr>) s1 = s1"
    using c1 by (simp add: putColl_def mput_def collRO_def update_triv)
  let ?s = "markEntryMutated a (put_entry a ((st_heap s1 a)\<lparr>e_docP := Some (mput k v doc)\<rparr>) s1)"
  have "storable (mput k v doc)" using docs_storable [OF ok d] v by (rule storable_mput)
  moreover have "\<forall>i \<in> set (c_indexes c). coherent ((docs s1 usersColl)(user \<mapsto> mput k v doc)) i"
    using idx c by (simp add: indexes_def)
  ultimately have "store_ok ?s \<and> docs ?s = (docs s1)(usersColl := (docs s1 usersColl)(user \<mapsto> mput k v doc))"
    using replace_ok [OF st(2) c1 a1 _ _ refl, of "mput k v doc" "c_indexes c"] unfolding same by blast
  moreover have "set_field user k v c s = (Inr (), ?s)"
    using r a c by (simp add: set_field_def slot_def)
  moreover have "st_sessions ?s = st_sessions s" "st_now ?s = st_now s"
    using cache_stepD(7,8) [OF st(1)] by (simp_all add: markEntryMutated_def Let_def put_entry_def)
  ultimately show ?thesis using that st(3) by simp
qed

lemma find_user_laws:
  assumes "store_ok s"
  shows "find_user user s = (case docs s usersColl user of None \<Rightarrow> Inl ErrNotFound | Some d \<Rightarrow> Inr (the (collRO usersColl s)))"
    and "docs s usersColl user = Some d \<Longrightarrow> collRO usersColl s = Some (the (collRO usersColl s))"
  using docs_slot [OF assms, of usersColl user]
  by (auto simp: find_user_def slot_def docs_def split: option.splits)

lemma without_user_laws:
  "docs (without_user user s) = docs s" "st_now (without_user user s) = st_now s" "store_ok (without_user user s) = store_ok s"
  "sessions_ok s \<Longrightarrow> validLocked sess (without_user user s) \<Longrightarrow> ss_system sess \<or> ss_user sess \<noteq> user \<and> validLocked sess s"
proof -
  have at: "doc_at (without_user user s) a = doc_at s a" for a by (simp add: doc_at_def without_user_def)
  have "slot (without_user user s) = slot s" by (simp add: fun_eq_iff slot_def collRO_def without_user_def)
  then show "docs (without_user user s) = docs s" using at by (simp add: docs_def fun_eq_iff cong: option.case_cong)
  show "st_now (without_user user s) = st_now s" by (simp add: without_user_def)
  have sl: "slots_ok (without_user user s) = slots_ok s" by (simp add: slots_ok_def without_user_def)
  show "store_ok (without_user user s) = store_ok s"
  proof
    assume "store_ok s"
    then show "store_ok (without_user user s)"
      using store_ok_same [of s "without_user user s"] at sl store_ok_slots by (auto simp: without_user_def)
  next
    assume "store_ok (without_user user s)"
    then show "store_ok s"
      using store_ok_same [of "without_user user s" s] at sl store_ok_slots by (auto simp: without_user_def)
  qed
  show "sessions_ok s \<Longrightarrow> validLocked sess (without_user user s) \<Longrightarrow> ss_system sess \<or> ss_user sess \<noteq> user \<and> validLocked sess s"
    by (auto simp: validLocked_def without_user_def sessions_ok_def map_of_filter_Some split: option.splits)
qed

lemma change_password_laws:
  assumes ok: "store_ok s" "sessions_ok s" and idx: "indexes s usersColl = []" and fl: "flush_ok fl"
    and d: "docs s usersColl user = Some doc" and h: "hashPassword kdf (st_opts s) rnd pw = Inr hash"
    and given: "user \<noteq> []" "pw \<noteq> []" and r: "ChangePassword kdf fl rnd user pw s = (r, s')"
  shows "docs s' = (docs s)(usersColl := (docs s usersColl)(user \<mapsto> mput ''password_hash'' (JStr hash) doc))"
    and "validLocked sess s' \<Longrightarrow> ss_system sess \<or> ss_user sess \<noteq> user \<and> validLocked sess s"
proof -
  obtain c where c: "find_user user s = Inr c" "collRO usersColl s = Some c"
    using find_user_laws [OF ok(1), of user] d by simp
  obtain s1 where s1: "set_field user ''password_hash'' (JStr hash) c s = (Inr (), s1)"
    and l: "store_ok s1" "docs s1 = (docs s)(usersColl := (docs s usersColl)(user \<mapsto> mput ''password_hash'' (JStr hash) doc))"
      "st_sessions s1 = st_sessions s" "st_now s1 = st_now s"
    by (rule set_field_laws [OF ok(1) idx c(2) d, of "JStr hash" "''password_hash''"]) (simp_all add: json_ok_def)
  have s': "s' = snd (afterMutation fl (without_user user s1))"
    using r h given c(1) s1 by (simp add: ChangePassword_def)
  note f = after_flush [OF fl, of "without_user user s1"]
  show "docs s' = (docs s)(usersColl := (docs s usersColl)(user \<mapsto> mput ''password_hash'' (JStr hash) doc))"
    using f l(2) by (simp add: s' without_user_laws)
  have "sessions_ok s1" using ok(2) l(3) by (simp add: sessions_ok_def)
  then show "validLocked sess s' \<Longrightarrow> ss_system sess \<or> ss_user sess \<noteq> user \<and> validLocked sess s"
    using valid_later [of s' "without_user user s1" sess] f without_user_laws(4) [of s1 sess user] validLocked_cong [OF l(3,4)]
    by (simp add: s')
qed

section \<open>Creating and deleting\<close>

lemma add_record_laws:
  assumes ok: "store_ok s" and idx: "indexes s name = []" and d: "storable doc" and r: "add_record name did doc s = (r, s')"
  shows "store_ok s'" and "docs s name did \<noteq> None \<Longrightarrow> r = Inl ErrDuplicate \<and> docs s' = docs s"
    and "docs s name did = None \<Longrightarrow> r = Inr () \<and> docs s' = (docs s)(name := (docs s name)(did \<mapsto> doc))"
proof -
  obtain c s1 where c: "coll name s = (c, s1)" by fastforce
  note l = coll_laws [OF ok c]
  have new: "map_of (c_entries c) did = None \<longleftrightarrow> docs s name did = None" using l docs_slot [OF ok] by auto
  show "store_ok s'" "docs s name did \<noteq> None \<Longrightarrow> r = Inl ErrDuplicate \<and> docs s' = docs s"
    "docs s name did = None \<Longrightarrow> r = Inr () \<and> docs s' = (docs s)(name := (docs s name)(did \<mapsto> doc))"
    using r c l new idx store_new_entry_ok [of s1 name c did doc "c_indexes c"] d docs_slot [OF ok, of name did]
    by (auto simp: add_record_def split: if_splits)
qed

lemma user_doc_storable: "storable (user_doc user hash roles)"
  by (simp add: user_doc_def storable_iff json_ok_containers) (auto simp: json_ok_def)

lemma known_roles:
  assumes "store_ok s"
  shows "roles_known roles s = Inr () \<longleftrightarrow> (\<forall>r \<in> set roles. docs s rolesColl r \<noteq> None)"
proof (cases "collRO rolesColl s")
  case None
  then show ?thesis using docs_no_coll by (cases roles) (auto simp: roles_known_def)
next
  case (Some rc)
  have "r \<in> keys (c_entries rc) \<longleftrightarrow> docs s rolesColl r \<noteq> None" for r
    using docs_slot [OF assms, of rolesColl r] Some by (simp add: slot_def map_of_eq_None_iff)
  then have "set roles \<subseteq> keys (c_entries rc) \<longleftrightarrow> (\<forall>r \<in> set roles. docs s rolesColl r \<noteq> None)" by blast
  then show ?thesis using Some by (simp add: roles_known_def)
qed

lemma createUser_laws:
  assumes ok: "store_ok s" and idx: "indexes s usersColl = []" and r: "createUser user hash roles s = (r, s')"
  shows "store_ok s'" and "r = Inr () \<longleftrightarrow> (\<forall>r \<in> set roles. docs s rolesColl r \<noteq> None) \<and> docs s usersColl user = None"
    and "docs s' = (if r = Inr () then (docs s)(usersColl := (docs s usersColl)(user \<mapsto> user_doc user hash roles)) else docs s)"
proof -
  obtain q s1 where a: "add_record usersColl user (user_doc user hash roles) s = (q, s1)" by fastforce
  note l = add_record_laws [OF ok idx user_doc_storable a]
  have "store_ok s' \<and> (r = Inr () \<longleftrightarrow> (\<forall>r \<in> set roles. docs s rolesColl r \<noteq> None) \<and> docs s usersColl user = None)
    \<and> docs s' = (if r = Inr () then (docs s)(usersColl := (docs s usersColl)(user \<mapsto> user_doc user hash roles)) else docs s)"
  proof (cases "roles_known roles s")
    case (Inl e)
    then show ?thesis using r ok known_roles [OF ok, of roles] by (auto simp: createUser_def)
  next
    case (Inr u)
    then show ?thesis using r ok known_roles [OF ok, of roles] a l by (cases "docs s usersColl user") (auto simp: createUser_def)
  qed
  then show "store_ok s'" "r = Inr () \<longleftrightarrow> (\<forall>r \<in> set roles. docs s rolesColl r \<noteq> None) \<and> docs s usersColl user = None"
    "docs s' = (if r = Inr () then (docs s)(usersColl := (docs s usersColl)(user \<mapsto> user_doc user hash roles)) else docs s)" by auto
qed

lemma str_elems_strings [simp]: "str_elems (map JStr ss) = ss"
  by (induction ss) (simp_all add: str_elems_def)

lemma perm_round_trip [simp]: "permFromMap (perm_doc p) = p"
  by (cases p) (simp add: permFromMap_def perm_doc_def parseRoles_def)

lemma perms_round_trip: "parsePermissions (Some (JArr (map (JDoc \<circ> perm_doc) ps))) = ps"
  by (induction ps) (simp_all add: parsePermissions_def permFromAny_def)

lemma delete_user_frame:
  "st_sessions (snd (DeleteUser user s)) = st_sessions s" "st_now (snd (DeleteUser user s)) = st_now s"
  "st_pendingDels (snd (DeleteUser user s)) = st_pendingDels s"
  by (auto simp: DeleteUser_def drop_entry_def putColl_def less_resident_def markDirty_def Let_def split: option.splits)

end
