(* ===== verification/Account_Spec.thy ===== *)
theory Account_Spec
  imports Account_Laws
begin

text \<open>
  The properties of users, roles and sessions, with a small store of users to try them on and what
  the deletion of users and roles leaves undone.
\<close>

section \<open>A store with users\<close>

text \<open>A key derivation to evaluate with: the password cut or filled up to the length of the key.\<close>

definition plain_kdf :: kdf where
  "plain_kdf pw salt t m p n = take n (pw @ replicate n (CHR ''.''))"

lemma plain_kdf_length: "length (plain_kdf pw salt t m p n) = n"
  by (simp add: plain_kdf_def)

definition no_flush :: "store \<Rightarrow> unit outcome" where
  "no_flush s = (Inr (), s)"

lemma no_flush_ok: "flush_ok no_flush"
  by (simp add: flush_ok_def no_flush_def)

definition staff_role :: permission where
  "staff_role = \<lparr>pm_collection = ''c'', pm_read = True, pm_write = False, pm_fieldDeny = [''secret'']\<rparr>"

definition role_store :: store where
  "role_store = snd (createRole ''staff'' [staff_role] newStore)"

definition staff_store :: store where
  "staff_store = snd (createUser ''ann'' ''$argon2id$v=19$m=8,t=1,p=1$YWI$Li4'' [''staff''] role_store)"

lemma staff_ok: "store_ok staff_store \<and> sessions_ok staff_store"
proof -
  have idx: "indexes newStore n = []" for n by (simp add: indexes_def collRO_def newStore_def)
  have d: "storable [(''_id'', JStr ''staff''), (''permissions'', JArr (map (JDoc \<circ> perm_doc) [staff_role]))]"
    by (simp add: storable_iff json_ok_containers perm_doc_def staff_role_def) (auto simp: json_ok_def)
  have r: "store_ok role_store"
    unfolding role_store_def createRole_def
    by (rule add_record_laws(1) [OF store_ok_new(1) idx d prod.collapse [symmetric]])
  have i: "indexes role_store usersColl = []" by code_simp
  have "store_ok staff_store" unfolding staff_store_def by (rule createUser_laws(1) [OF r i prod.collapse [symmetric]])
  moreover have "st_sessions staff_store = []" by code_simp
  ultimately show ?thesis by (simp add: sessions_ok_def)
qed

lemma staff_indexes: "indexes staff_store usersColl = []"
  by code_simp

lemma staff_docs:
  "docs staff_store usersColl ''ann'' = Some (user_doc ''ann'' ''$argon2id$v=19$m=8,t=1,p=1$YWI$Li4'' [''staff''])"
  "granted_by staff_store ''staff'' = [staff_role]"
  by (code_simp, code_simp)

section \<open>Properties\<close>

text \<open>C34: the hash of a password verifies exactly the passwords that derive the same key with its salt and
  parameters, so it verifies the password itself and no other without a collision.\<close>
theorem password_hash_verifies:
  assumes "\<And>pw salt t m p n. length (kdf pw salt t m p n) = n"
    and "hashPassword kdf o' (Inr salt) pw = Inr h"
  shows "verifyPassword kdf pw' h \<longleftrightarrow>
    (let (t, m, p) = (if op_LightKDF o' then lightKDF else defaultKDF) in kdf pw' salt t m p pwKeyLen = kdf pw salt t m p pwKeyLen)"
  by (rule hash_verifies [OF assms])

theorem password_hash_verifies_witness:
  "\<exists>h. hashPassword plain_kdf default_options (Inr ''ab'') ''pw'' = Inr h
    \<and> verifyPassword plain_kdf ''pw'' h \<and> \<not> verifyPassword plain_kdf ''qw'' h"
proof -
  have light: "op_LightKDF default_options = False" by (simp add: default_options_def)
  obtain h where h: "hashPassword plain_kdf default_options (Inr ''ab'') ''pw'' = Inr h"
    by (auto simp: hashPassword_def hashArgon2id_def light defaultKDF_def)
  have "plain_kdf ''qw'' ''ab'' m t p pwKeyLen \<noteq> plain_kdf ''pw'' ''ab'' m t p pwKeyLen" for m t p
    by (simp add: plain_kdf_def pwKeyLen_def)
  then show ?thesis
    using h password_hash_verifies [where kdf = plain_kdf, OF plain_kdf_length h, of "''pw''"]
      password_hash_verifies [where kdf = plain_kdf, OF plain_kdf_length h, of "''qw''"]
    by (auto simp: light defaultKDF_def)
qed

text \<open>C35: \<open>Authenticate\<close> succeeds exactly for a stored user that is not disabled and whose hash verifies the
  password, with the roles of the user and the permissions stored for them; the session is valid
  afterwards, no other session becomes valid, and no document changes. It fails with \<open>ErrUnauthorized\<close>.\<close>
theorem authenticate_exact:
  assumes "store_ok s" and "sessions_ok s" and "Authenticate kdf (Inr raw) user pw s = (r, s1)"
  shows "docs s1 = docs s
    \<and> (case r of
         Inl e \<Rightarrow> e = ErrUnauthorized \<and> (\<nexists>roles. may_login kdf user pw s roles)
       | Inr sess \<Rightarrow> may_login kdf user pw s (ss_roles sess) \<and> ss_user sess = user
           \<and> ss_perms sess = concat (map (granted_by s) (ss_roles sess)) \<and> \<not> ss_system sess \<and> validLocked sess s1)
    \<and> {other. validLocked other s1} \<subseteq> {other. validLocked other s} \<union> {other. r = Inr other}"
  using authenticate_laws [OF assms] by (auto split: sum.split)

theorem authenticate_exact_witness:
  "\<exists>sess s1. Authenticate plain_kdf (Inr ''token'') ''ann'' '''' staff_store = (Inl ErrUnauthorized, staff_store)
    \<and> Authenticate plain_kdf (Inr ''token'') ''ann'' ''..'' staff_store = (Inr sess, s1)
    \<and> ss_perms sess = [staff_role] \<and> validLocked sess s1"
proof -
  have may: "may_login plain_kdf ''ann'' ''..'' staff_store [''staff'']"
  proof -
    have "verifyPassword plain_kdf ''..'' ''$argon2id$v=19$m=8,t=1,p=1$YWI$Li4''" by code_simp
    then show ?thesis using str_elems_strings [of "[''staff'']"] by (simp add: may_login_def staff_docs user_doc_def parseRoles_def)
  qed
  then have roles: "may_login plain_kdf ''ann'' ''..'' staff_store rs \<Longrightarrow> rs = [''staff'']" for rs
    by (auto simp: may_login_def staff_docs)
  have fails: "Authenticate plain_kdf (Inr ''token'') ''ann'' '''' staff_store = (Inl ErrUnauthorized, staff_store)"
    by (simp add: Authenticate_def auth_read_def)
  obtain r s1 where r: "Authenticate plain_kdf (Inr ''token'') ''ann'' ''..'' staff_store = (r, s1)" by fastforce
  note a = authenticate_exact [OF conjunct1 [OF staff_ok] conjunct2 [OF staff_ok] r]
  obtain sess where sess: "r = Inr sess" using a may by (cases r) auto
  then have "ss_roles sess = [''staff'']" using a roles by simp
  then show ?thesis using a r fails sess by (auto simp: staff_docs(2))
qed
text \<open>C36: after \<open>ChangePassword\<close> no session of the user is valid, those of others are what they were, nobody
  logs in as the user but with a password of the new key, and with the new one the user does unless
  disabled; no other document changes.\<close>
theorem password_change_revokes:
  assumes "store_ok s" and "sessions_ok s" and "indexes s usersColl = []" and "flush_ok fl"
    and len: "\<And>pw salt t m p n. length (kdf pw salt t m p n) = n"
    and doc: "docs s usersColl user = Some doc" and given: "user \<noteq> []" "pw \<noteq> []"
    and key: "key = (\<lambda>pw. let (t, m, p) = (if op_LightKDF (st_opts s) then lightKDF else defaultKDF) in kdf pw salt t m p pwKeyLen)"
    and r: "ChangePassword kdf fl (Inr salt) user pw s = (r, s')"
  shows "{sess. validLocked sess s' \<and> \<not> ss_system sess} \<subseteq> {sess. ss_user sess \<noteq> user \<and> validLocked sess s}
    \<and> {pw'. \<exists>roles. may_login kdf user pw' s' roles} \<subseteq> {pw'. key pw' = key pw}
    \<and> (map_of doc ''disabled'' = Some (JBool True) \<or> may_login kdf user pw s' (parseRoles (map_of doc ''roles'')))
    \<and> (docs s')(usersColl := (docs s' usersColl)(user := None)) = (docs s)(usersColl := (docs s usersColl)(user := None))"
proof -
  obtain hash where h: "hashPassword kdf (st_opts s) (Inr salt) pw = Inr hash" and hash: "hash \<noteq> []" using hash_given by metis
  note l = change_password_laws [OF assms(1-4) doc h given r]
  have v: "verifyPassword kdf pw' hash \<longleftrightarrow> key pw' = key pw" for pw'
    using hash_verifies [where kdf = kdf, OF len h, of pw'] by (cases "op_LightKDF (st_opts s)") (simp_all add: key lightKDF_def defaultKDF_def)
  have "may_login kdf user pw' s' roles \<longleftrightarrow> pw' \<noteq> [] \<and> map_of doc ''disabled'' \<noteq> Some (JBool True) \<and> key pw' = key pw
      \<and> roles = parseRoles (map_of doc ''roles'')" for pw' roles
    using given hash v by (auto simp: may_login_def l(1))
  then show ?thesis using l given by auto
qed

theorem password_change_revokes_witness:
  "\<nexists>sess. validLocked sess (snd (ChangePassword plain_kdf no_flush (Inr ''ab'') ''ann'' ''new'' staff_store))
     \<and> \<not> ss_system sess \<and> ss_user sess = ''ann''"
  using password_change_revokes [OF conjunct1 [OF staff_ok] conjunct2 [OF staff_ok] staff_indexes no_flush_ok _ staff_docs(1) _ _ refl
      prod.collapse [symmetric], of plain_kdf "''new''" "''ab''"] plain_kdf_length
  by auto

text \<open>C37: a user is created exactly when it does not exist yet and all its roles do; then the user's document
  is added, otherwise nothing changes.\<close>
theorem create_user_exact:
  assumes "store_ok s" and "indexes s usersColl = []" and "createUser user hash roles s = (r, s')"
  shows "store_ok s' \<and> (r = Inr () \<longleftrightarrow> set roles \<subseteq> {r. docs s rolesColl r \<noteq> None} \<and> docs s usersColl user = None)
    \<and> docs s' = (if r = Inr () then (docs s)(usersColl := (docs s usersColl)(user \<mapsto> user_doc user hash roles)) else docs s)"
  using createUser_laws [OF assms] by auto

theorem create_user_exact_witness:
  "docs (snd (createUser ''bob'' ''h'' [''staff''] staff_store)) usersColl ''bob'' = Some (user_doc ''bob'' ''h'' [''staff''])
    \<and> docs (snd (createUser ''bob'' ''h'' [''chief''] staff_store)) = docs staff_store"
proof -
  have "docs staff_store rolesColl ''staff'' \<noteq> None" using staff_docs(2) by (auto simp: granted_by_def split: option.splits)
  moreover have "docs staff_store rolesColl ''chief'' = None \<and> docs staff_store usersColl ''bob'' = None" by code_simp
  ultimately show ?thesis
    using create_user_exact [OF conjunct1 [OF staff_ok] staff_indexes prod.collapse [symmetric], of "''bob''" "''h''" "[''staff'']"]
      create_user_exact [OF conjunct1 [OF staff_ok] staff_indexes prod.collapse [symmetric], of "''bob''" "''h''" "[''chief'']"]
    by auto
qed

section \<open>What deletion leaves undone\<close>

text \<open>C38: \<open>DeleteUser\<close> revokes no session, unlike its description: every session valid before is valid after. Nor
  does it note a deletion for the file, so a user written to it is there again when it is opened.\<close>
theorem delete_user_keeps_sessions:
  "validLocked sess (snd (DeleteUser user s)) = validLocked sess s
    \<and> st_pendingDels (snd (DeleteUser user s)) = st_pendingDels s"
  using delete_user_frame validLocked_cong by blast

text \<open>The roles of a user that is not in memory are not seen: its role is deleted although it is in use, and
  the list of users shows it without roles.\<close>

definition cold_staff :: store where
  "cold_staff = staff_store\<lparr>st_path := ''f'', st_heap := (\<lambda>a. (st_heap staff_store a)\<lparr>e_docP := None, e_recLen := 1, e_recOff := int a\<rparr>),
     st_disk := (\<lambda>off len. case e_docP (st_heap staff_store (nat off)) of None \<Rightarrow> Inl ErrCorrupt | Some d \<Rightarrow> Inr d)\<rparr>"

lemma cold_role_deleted:
  shows "fst (DeleteRole ''staff'' staff_store) = Inl (ErrOther ''db: role is in use'')" (is ?A)
    and "fst (DeleteRole ''staff'' cold_staff) = Inr ()" (is ?B)
    and "ListUsers staff_store = [(''ann'', [''staff''])]" (is ?C)
    and "ListUsers cold_staff = [(''ann'', [])]" (is ?D)
    and "docs cold_staff usersColl ''ann'' = docs staff_store usersColl ''ann''" (is ?E)
proof -
  show ?A by code_simp
  show ?B by code_simp
  show ?C by code_simp
  show ?D by code_simp
  show ?E by code_simp
qed

text \<open>A login that has read the user before the password is changed registers its session afterwards: the
  session of the old password is valid.\<close>

lemma login_survives_password_change:
  assumes "auth_read kdf user pw s = (Inr roles, s1)" and "s2 = snd (ChangePassword kdf fl rnd user pw2 s1)"
    and "auth_register user roles perms raw ttl s2 = (sess, s3)"
  shows "ss_user sess = user \<and> validLocked sess s3"
  using assms(3) by (auto simp: auth_register_def Let_def validLocked_def purgeExpiredLocked_def split: option.splits if_splits)

end
