(* ===== verification/Spec2Isabelle.thy ===== *)
theory Spec2Isabelle
  imports Store_Admin Graph_Search Store_Reach Trigger_Laws Account_Spec
begin

text \<open>
  MLStoreDB is an embedded document store in Go: collections of JSON documents with secondary
  indexes, queries, a page cache over an encrypted log file, users and roles, hooks and triggers, a
  graph engine over edge collections, and a MongoDB wire server. This development models the store's
  core as functions from state to state and proves what makes it correct.

  Parts and theories:
  \<^item> \<open>Prelude\<close>: errors, fallible results, Go maps (association lists, the order is the one in which the
    map happens to be walked), string helpers, \<open>sort.Search\<close> with its law.
  \<^item> \<open>Float64\<close>, \<open>Float_Text\<close>, \<open>Json\<close>: IEEE doubles as words, \<open>strconv.FormatFloat(f, 'g', -1, 64)\<close>,
    \<open>json.Marshal\<close> and \<open>%v\<close>, as far as keys and sizes of documents depend on them.
  \<^item> \<open>Values\<close>: values and documents (\<open>db/store.go\<close>: \<open>toFloat\<close>, \<open>equalJSON\<close>, \<open>compareValues\<close>).
  \<^item> \<open>Query_Filter\<close> (\<open>db/filter.go\<close>, \<open>db/filter_regex.go\<close>): matching, every operator; the regular
    expression engine is a parameter.
  \<^item> \<open>Index\<close> (\<open>db/index.go\<close>): the index record, key encoding, row extraction, ordered keys,
    lookups. \<open>Index_Keys\<close>: the encoding is injective and ordered as the values. \<open>Index_Laws\<close>: the
    invariant of an index, what each operation does to its pairs (key, id). \<open>Index_Interface\<close>: the
    contract between store and index as a locale, interpreted in \<open>Index_Laws\<close>.
  \<^item> \<open>Rbac\<close> (\<open>db/auth.go\<close>): permissions, redaction, filter screening.
  \<^item> \<open>Graph\<close>, \<open>Graph_Search\<close> (\<open>db/graph.go\<close>): adjacency snapshots, traversal, shortest path.
  \<^item> \<open>Store\<close> (\<open>db/store.go\<close>, \<open>db/cache.go\<close>): state, slots, page cache. \<open>Store_Ops\<close>: the operations
    with permission checks, index maintenance, dirty marks and hooks.
  \<^item> \<open>Store_Cache\<close>: the cache never changes what a slot holds. \<open>Store_Index\<close>: \<open>applyIndexes\<close> is all or
    nothing. \<open>Store_Laws\<close>: the invariant \<open>store_ok\<close> and the effect of each mutation on the documents.
    \<open>Store_Spec\<close>: the abstract store and the refinement. \<open>Store_Query\<close>: index answers in terms of the
    documents stored. \<open>Store_Admin\<close>: indexes and collections created and dropped.

  \<^item> \<open>Go_Sort\<close>: what \<open>sort.SliceStable\<close> does with a comparison by position. \<open>Planner\<close> (\<open>db/store.go\<close>):
    \<open>planCandidates\<close>. \<open>Find\<close> (\<open>db/store.go\<close>, \<open>db/parallel.go\<close>): materialization, sorting, paging,
    \<open>findDocs\<close>, \<open>countDocs\<close>, \<open>Explain\<close>. \<open>Plan_Laws\<close>: the candidates of a plan contain the matching
    documents, and are exactly these when it says so. \<open>Find_Laws\<close>: Find and Count answer for the
    documents stored. \<open>Sort_Laws\<close>: sorting permutes; the bounded heap selects the best documents
    (a locale over the comparison, interpreted for numbers and for strings).

  How the model corresponds to the code. An operation under the store lock is one step; its
  result carries the state reached also on error paths. Document slots have addresses, since the
  cache and the collections share them; documents are values, so the code's clones are identities.
  Reading and decoding a record of the file is \<open>st_disk\<close>. What other threads do while a writer waits
  for a flush is the parameter \<open>wt\<close>. Counters that wrap are 64-bit words, byte counts are integers.
  No fuel is used: every loop of the model terminates by a measure (filter recursion by the size of
  the filter, eviction by the cached slots and reference bits left, graph searches by a multiset
  order on the queue).
\<close>

section \<open>A store to try the theorems on\<close>

definition demo_doc :: document where
  "demo_doc = [(''_id'', JStr ''a''), (''tag'', JStr ''x'')]"

definition demo_empty :: store where
  "demo_empty = snd (ensureIndex ''c'' [''tag''] True newStore)"

definition demo_store :: store where
  "demo_store = snd (insertBody ''c'' ''a'' demo_doc demo_empty)"

lemma demo_storable: "storable demo_doc"
  by (simp add: storable_iff demo_doc_def json_ok_def)

lemma demo_empty_ok: "store_ok demo_empty"
  unfolding demo_empty_def by (rule ensureIndex_spec(1) [OF store_ok_new(1) prod.collapse [symmetric]])

lemma demo_store_ok: "store_ok demo_store"
  unfolding demo_store_def by (rule insertBody_refines(2) [OF demo_empty_ok demo_storable])

lemma demo_docs: "docs demo_store ''c'' ''a'' = Some demo_doc"
  unfolding demo_store_def demo_empty_def demo_doc_def by code_simp


lemma demo_index: "indexes demo_store ''c'' \<noteq> [] \<and> ix_fields (hd (indexes demo_store ''c'')) = [''tag'']
    \<and> ix_unique (hd (indexes demo_store ''c''))"
  unfolding demo_store_def demo_empty_def demo_doc_def by code_simp

lemma demo_index_in: "hd (indexes demo_store ''c'') \<in> set (indexes demo_store ''c'')"
  using demo_index by simp

lemma demo_waits: "waitBackpressureLocked id s = s"
  by (simp add: waitBackpressureLocked_def)

section \<open>Mutations implement the abstract store\<close>

text \<open>C1: inserting through the API's locked step either fails the permission check and leaves every
  document, or, on the state found after waiting for a flush, answers and changes the documents
  exactly as the abstract insert: a taken id or a unique key held by another document is refused
  with \<open>ErrDuplicate\<close> and nothing changes, otherwise that one document appears. The invariant (slots
  unshared, indexes in line with the documents) holds afterwards on every path.\<close>
theorem insert_refines:
  assumes "store_ok s" and "store_ok (waitBackpressureLocked wt s)" and "storable doc"
  shows "view (insertApply wt sess name did doc s) = (case checkWriteLocked sess name s of
      Inl e \<Rightarrow> (Inl e, docs s)
    | Inr _ \<Rightarrow> spec_insert (indexes (waitBackpressureLocked wt s) name) name did doc (docs (waitBackpressureLocked wt s)))
    \<and> store_ok (snd (insertApply wt sess name did doc s))"
  unfolding insertApply_def using insertBody_refines [OF assms(2,3)] assms(1)
  by (cases "checkWriteLocked sess name s") simp_all

theorem insert_refines_witness:
  "view (insertApply id None ''c'' ''b'' demo_doc demo_store)
    = spec_insert (indexes demo_store ''c'') ''c'' ''b'' demo_doc (docs demo_store)"
proof -
  have "checkWriteLocked None ''c'' demo_store = Inr ()"
    unfolding demo_store_def demo_empty_def demo_doc_def by code_simp
  then show ?thesis
    using insert_refines [of demo_store id demo_doc None "''c''" "''b''"] demo_store_ok demo_storable
    by (simp add: demo_waits)
qed

text \<open>C2: an upsert replaces or creates the document under the id, with the id written into it, and
  is refused only when a unique index would be violated by another document; a refused upsert
  leaves every document as it was and every index in line with the old documents.\<close>
theorem upsert_refines:
  assumes "store_ok s" and "store_ok (waitBackpressureLocked wt s)" and "storable doc"
  shows "view (upsertApply wt sess name did doc s) = (case checkWriteLocked sess name s of
      Inl e \<Rightarrow> (Inl e, docs s)
    | Inr _ \<Rightarrow> spec_upsert (indexes (waitBackpressureLocked wt s) name) name did doc (docs (waitBackpressureLocked wt s)))
    \<and> store_ok (snd (upsertApply wt sess name did doc s))"
  unfolding upsertApply_def using upsertBody_refines [OF assms(2,3)] assms(1)
  by (cases "checkWriteLocked sess name s") simp_all

theorem upsert_refines_witness:
  "view (upsertApply id None ''c'' ''a'' [(''tag'', JStr ''y'')] demo_store)
    = spec_upsert (indexes demo_store ''c'') ''c'' ''a'' [(''tag'', JStr ''y'')] (docs demo_store)"
proof -
  have "checkWriteLocked None ''c'' demo_store = Inr ()"
    unfolding demo_store_def demo_empty_def demo_doc_def by code_simp
  moreover have "storable [(''tag'', JStr ''y'')]" by (simp add: storable_iff json_ok_def)
  ultimately show ?thesis
    using upsert_refines [of demo_store id "[(''tag'', JStr ''y'')]" None "''c''" "''a''"] demo_store_ok
    by (simp add: demo_waits)
qed

text \<open>C3: an update merges the patch over the stored document (never over its id), takes the removed
  fields out, and stores the result; a missing document, an oversized or unencodable result and a
  unique conflict are errors that leave every document and index entry as they were.\<close>
theorem update_refines:
  assumes "store_ok s" and "store_ok (waitBackpressureLocked wt s)"
  shows "view (updateApply wt sess name did patch remove s) = (case checkWriteLocked sess name s of
      Inl e \<Rightarrow> (Inl e, docs s)
    | Inr _ \<Rightarrow> spec_update (indexes (waitBackpressureLocked wt s) name) name did patch remove
        (docs (waitBackpressureLocked wt s)))
    \<and> store_ok (snd (updateApply wt sess name did patch remove s))"
  unfolding updateApply_def using updateBody_refines [OF assms(2)] assms(1)
  by (cases "checkWriteLocked sess name s") simp_all

theorem update_refines_witness:
  "view (updateApply id None ''c'' ''a'' [(''tag'', JStr ''y'')] [''z''] demo_store)
    = spec_update (indexes demo_store ''c'') ''c'' ''a'' [(''tag'', JStr ''y'')] [''z''] (docs demo_store)"
proof -
  have "checkWriteLocked None ''c'' demo_store = Inr ()"
    unfolding demo_store_def demo_empty_def demo_doc_def by code_simp
  then show ?thesis
    using update_refines [of demo_store id None "''c''" "''a''" "[(''tag'', JStr ''y'')]" "[''z'']"] demo_store_ok
    by (simp add: demo_waits)
qed

text \<open>C5: a delete removes exactly the named document, answers \<open>ErrNotFound\<close> when it is not there, and
  leaves no entry of it in any index (the invariant holds for the documents that remain).\<close>
theorem delete_refines:
  assumes "store_ok s" and "store_ok (waitBackpressureLocked wt s)"
  shows "view (deleteApply wt sess name did s) = (case checkWriteLocked sess name s of
      Inl e \<Rightarrow> (Inl e, docs s)
    | Inr _ \<Rightarrow> spec_delete name did (docs (waitBackpressureLocked wt s)))
    \<and> store_ok (snd (deleteApply wt sess name did s))"
  unfolding deleteApply_def using deleteBody_refines [OF assms(2)] assms(1)
  by (cases "checkWriteLocked sess name s") simp_all

theorem delete_refines_witness:
  "view (deleteApply id None ''c'' ''a'' demo_store) = spec_delete ''c'' ''a'' (docs demo_store)"
proof -
  have "checkWriteLocked None ''c'' demo_store = Inr ()"
    unfolding demo_store_def demo_empty_def demo_doc_def by code_simp
  then show ?thesis
    using delete_refines [of demo_store id None "''c''" "''a''"] demo_store_ok by (simp add: demo_waits)
qed

text \<open>C10: reading a document answers what is stored under the id, without the fields hidden from the
  session, or the permission error, or \<open>ErrNotFound\<close>; whatever it loads or evicts on the way, no
  document of the store changes.\<close>
theorem get_reads:
  assumes "store_ok s"
  shows "view (getDoc sess name did s) =
      (case checkReadLocked sess name s of
         Inl e \<Rightarrow> (Inl e, docs s)
       | Inr _ \<Rightarrow> (case docs s name did of
            None \<Rightarrow> (Inl ErrNotFound, docs s)
          | Some d \<Rightarrow> (Inr (redact_for sess name d), docs s)))
    \<and> store_ok (snd (getDoc sess name did s))"
  using getDoc_refines [OF assms] by blast

theorem get_reads_witness: "fst (getDoc None ''c'' ''a'' demo_store) = Inr demo_doc"
proof -
  have "checkReadLocked None ''c'' demo_store = Inr ()"
    unfolding demo_store_def demo_empty_def demo_doc_def by code_simp
  then show ?thesis
    using get_reads [OF demo_store_ok, of None "''c''" "''a''"] by (simp add: demo_docs view_def redact_for_def)
qed

section \<open>Indexes answer for the documents stored\<close>

text \<open>C6: in a well-formed store a lookup by leading fields (full key or prefix, hash or ordered path,
  unique or not) returns exactly the ids of the stored documents that have an index row starting
  with values of the same encoding.\<close>
theorem prefix_lookup_exact:
  assumes "store_ok s" and "idx \<in> set (indexes s name)" and "row_ok vals" and "vals \<noteq> []"
    and "length vals \<le> length (ix_fields idx)"
  shows "set (snd (seekPrefix idx vals)) = {did. \<exists>d. docs s name did = Some d
    \<and> (\<exists>row \<in> set (extractIndexRows d (ix_fields idx)).
         take (length vals) (map encodeIndexValue row) = map encodeIndexValue vals)}"
  by (rule stored_prefix [OF assms])

theorem prefix_lookup_exact_witness:
  "''a'' \<in> set (snd (seekPrefix (hd (indexes demo_store ''c'')) [JStr ''x'']))"
proof -
  have "JStr ''x'' # [] \<in> set (extractIndexRows demo_doc [''tag''])" by code_simp
  then show ?thesis
    using prefix_lookup_exact [OF demo_store_ok demo_index_in, of "[JStr ''x'']"] demo_index demo_docs
    by (auto simp: row_ok_def enc_ok_def is_scalar_def intro!: bexI [of _ "[JStr ''x'']"])
qed

text \<open>C7: a range lookup returns exactly the ids of the stored documents with an index row whose first
  value is in the type band of the bounds and within them; the binary searches on the ordered keys
  and the flat matrix lose and invent nothing.\<close>
theorem range_lookup_exact:
  assumes "store_ok s" and "idx \<in> set (indexes s name)" and "bounds_ok rb" and "range_rank rb = Some rank"
  shows "set (snd (seekRange idx rb)) = {did. \<exists>d. docs s name did = Some d
    \<and> (\<exists>row \<in> set (extractIndexRows d (ix_fields idx)). in_range rb rank (row_val row))}"
  by (rule stored_range [OF assms])

theorem range_lookup_exact_witness:
  "''a'' \<in> set (snd (seekRange (hd (indexes demo_store ''c''))
     (empty_bound\<lparr>rb_hasLo := True, rb_lo := JStr ''w'', rb_loIncl := True\<rparr>)))"
proof -
  let ?rb = "empty_bound\<lparr>rb_hasLo := True, rb_lo := JStr ''w'', rb_loIncl := True\<rparr>"
  have r: "range_rank ?rb = Some 2" by code_simp
  have b: "bounds_ok ?rb" by (simp add: bounds_ok_def enc_ok_def is_scalar_def empty_bound_def)
  have "JStr ''x'' # [] \<in> set (extractIndexRows demo_doc [''tag''])" by code_simp
  moreover have "in_range ?rb 2 (row_val [JStr ''x''])" unfolding in_range_def by code_simp
  ultimately show ?thesis
    using range_lookup_exact [OF demo_store_ok demo_index_in b r] demo_index demo_docs by fastforce
qed



text \<open>C8: a change of one document either brings every index of the collection in line with the new
  document, or fails with \<open>ErrDuplicate\<close>, exactly when a unique index would be violated, and leaves
  every index in line with the old documents: the rollback of a half-done change never fails.\<close>
theorem index_change_all_or_nothing:
  assumes "\<forall>idx \<in> set idxs. coherent ds idx" and "storable new" and "\<And>o'. ds did = Some o' \<Longrightarrow> storable o'"
  shows "case applyIndexes idxs (ds did) new did of
      (Inr _, idxs') \<Rightarrow> \<not> unique_conflict idxs ds did new \<and> list_all2 same_shape idxs idxs'
        \<and> (\<forall>idx \<in> set idxs'. coherent (ds(did \<mapsto> new)) idx)
    | (Inl e, idxs') \<Rightarrow> unique_conflict idxs ds did new \<and> e = ErrDuplicate \<and> list_all2 same_shape idxs idxs'
        \<and> (\<forall>idx \<in> set idxs'. coherent ds idx)"
proof -
  obtain r idxs' where ap: "applyIndexes idxs (ds did) new did = (r, idxs')" by fastforce
  show ?thesis
    using applyIndexes_conflict [OF assms(1) refl, of did new] applyIndexes_ok [OF assms(1) refl assms(2)]
      applyIndexes_error [OF assms(1) refl assms(2,3)] ap by (cases r) auto
qed

theorem index_change_all_or_nothing_witness:
  "fst (applyIndexes [newIndex [''tag''] True] None demo_doc ''a'') = Inr ()"
proof -
  have "\<not> unique_conflict [newIndex [''tag''] True] Map.empty ''a'' demo_doc" by (simp add: unique_conflict_def)
  then show ?thesis
    using index_change_all_or_nothing [of "[newIndex [''tag''] True]" Map.empty demo_doc "''a''"] coherent_newIndex
      demo_storable by (auto split: prod.splits sum.splits)
qed

text \<open>C17: the text of a compound key determines the encoded values it was made of: keys of rows with
  different encodings never collide, whatever the strings in them contain.\<close>
theorem index_key_injective:
  assumes "row_ok p" and "row_ok q"
  shows "encodeIndexKey p = encodeIndexKey q \<longleftrightarrow> map encodeIndexValue p = map encodeIndexValue q"
  by (rule encodeIndexKey_eq_iff [OF assms])

theorem index_key_injective_witness:
  "encodeIndexKey [JStr ''a'', JStr ''''] \<noteq> encodeIndexKey [JStr (''a'' @ [CHR 0x1F] @ ''s:0:'')]"
proof -
  have "row_ok [JStr ''a'', JStr '''']" "row_ok [JStr (''a'' @ [CHR 0x1F] @ ''s:0:'')]"
    by (simp_all add: row_ok_def enc_ok_def is_scalar_def)
  from index_key_injective [OF this] show ?thesis by simp
qed

text \<open>C18: for scalar values other than minus zero, equal index encodings and the equality of queries
  (numbers of any Go type by value) are the same relation, so an index lookup and a scan agree.\<close>
theorem index_encoding_is_equality:
  assumes "is_scalar v" and "is_scalar w" and "\<not> neg_zero v" and "\<not> neg_zero w"
  shows "encodeIndexValue v = encodeIndexValue w \<longleftrightarrow> equalJSON v w = Inr True"
  using enc_scalar_eq [OF _ assms(1,2)] scalar_eq_enc [OF _ assms(3,4)] by blast

theorem index_encoding_is_equality_witness:
  "encodeIndexValue (JStr ''1'') \<noteq> encodeIndexValue (JBool True) \<and> equalJSON (JStr ''1'') (JBool True) \<noteq> Inr True"
  using index_encoding_is_equality [of "JStr ''1''" "JBool True"]
  by (auto simp: is_scalar_def neg_zero_def equalJSON_def go_eq_def)

section \<open>The page cache\<close>

text \<open>C11: loading a document answers the document the slot holds (in memory or in the file) or the
  error without touching the state, and every other slot still holds the same document afterwards,
  even those the load evicted; collections, sessions and counters of writes are untouched.\<close>
theorem load_transparent:
  assumes "slots_ok s" and "loadEntry a s = (r, s')"
  shows "(\<forall>b. doc_at s' b = doc_at s b) \<and> cache_frame s s' \<and> slots_ok s'
    \<and> (case r of Inr d \<Rightarrow> doc_at s a = Some d | Inl _ \<Rightarrow> doc_at s a = None \<and> s' = s)"
  using loadEntry_step [OF assms] by (auto simp: cache_step_def split: sum.splits)

definition cold_store :: store where
  "cold_store = newStore\<lparr>st_path := ''db'', st_opts := default_options\<lparr>op_CacheBytes := 10\<rparr>,
     st_disk := (\<lambda>off len. if 0 \<le> off then Inr [(''_id'', JStr (itoa (nat off)))] else Inl ErrCorrupt),
     st_heap := (\<lambda>a. (newDocEntry None)\<lparr>e_recOff := int a, e_recLen := 8\<rparr>), st_next := 2\<rparr>"

lemma cold_store_ok: "slots_ok cold_store"
  by (simp add: cold_store_def slots_ok_def newDocEntry_def)

theorem load_transparent_witness:
  "doc_at (snd (loadEntry 1 (snd (loadEntry 0 cold_store)))) 0 = Some [(''_id'', JStr ''0'')]"
proof -
  note l0 = load_transparent [OF cold_store_ok prod.collapse [symmetric], of 0]
  then have "slots_ok (snd (loadEntry 0 cold_store))" by simp
  note l1 = load_transparent [OF this prod.collapse [symmetric], of 1]
  have "doc_at cold_store 0 = Some [(''_id'', JStr ''0'')]" by code_simp
  then show ?thesis using l0 l1 by simp
qed

text \<open>C12: eviction terminates, and ends either within the byte budget or with nothing but dirty
  slots left in the cache; it never runs when there is no file behind the store.\<close>
theorem eviction_meets_budget:
  "st_path s = [] \<or> st_noEvict s \<or> cacheBudget (st_opts s) \<le> 0 \<and> evictLocked s = s
    \<or> st_residentBytes (evictLocked s) \<le> cacheBudget (st_opts s)
    \<or> set (st_cache (evictLocked s)) \<subseteq> {a. e_dirty (st_heap (evictLocked s) a)}"
  using evict_loop_post [of "cacheBudget (st_opts s)" s] by (auto simp: evictLocked_def Let_def)

text \<open>A slot that is dirty when its document is deleted stays in the cache's registry with its
  bytes counted: the eviction that \<open>deleteApply\<close> asks for does nothing to a dirty entry.\<close>
theorem delete_keeps_dirty_in_cache:
  assumes "store_ok s" and "slot s name did = Some a" and "e_docP (st_heap s a) \<noteq> None"
    and "e_dirty (st_heap s a)" and "a \<in> set (st_cache s)"
  shows "fst (deleteBody name did s) = Inr () \<and> a \<in> set (st_cache (snd (deleteBody name did s)))
    \<and> st_residentBytes (snd (deleteBody name did s)) = st_residentBytes s
    \<and> slot (snd (deleteBody name did s)) name did = None"
proof -
  obtain c d where c: "collRO name s = Some c" "map_of (c_entries c) did = Some a" "e_docP (st_heap s a) = Some d"
    using assms(2,3) by (auto simp: slot_def split: option.splits)
  have "loadEntry a s = (Inr d, put_entry a ((st_heap s a)\<lparr>e_refBit := True\<rparr>) s)" by (simp add: loadEntry_def c(3))
  then show ?thesis using c assms(4,5)
    by (auto simp: deleteBody_def Let_def evictEntryLocked_def slot_def noteEdgeMutation_def markDirty_def put_entry_def
        putColl_def collRO_def)
qed

theorem delete_keeps_dirty_in_cache_witness:
  "0 \<in> set (st_cache (snd (deleteBody ''c'' ''a'' demo_store)))"
proof -
  have "slot demo_store ''c'' ''a'' = Some 0 \<and> e_docP (st_heap demo_store 0) \<noteq> None \<and> e_dirty (st_heap demo_store 0)
      \<and> 0 \<in> set (st_cache demo_store)"
    unfolding demo_store_def demo_empty_def demo_doc_def by code_simp
  then show ?thesis using delete_keeps_dirty_in_cache [OF demo_store_ok] by blast
qed

section \<open>The graph\<close>

text \<open>C15: the compressed sparse rows built from the edges answer, for every vertex, its neighbours
  along the edges (against them for the reverse snapshot), each once and in ascending order.\<close>
theorem neighbours_exact:
  "set (neighborsOf (Some (buildAdj pairs reverse)) v)
      = {w. (if reverse then (w, v) else (v, w)) \<in> set pairs}
    \<and> sorted (neighborsOf (Some (buildAdj pairs reverse)) v) \<and> distinct (neighborsOf (Some (buildAdj pairs reverse)) v)"
  using neighborsOf_set [of pairs reverse v] neighborsOf_sorted neighborsOf_distinct
  by (auto simp: edge_set_def split: if_splits)

text \<open>C14: a traversal lists distinct vertices in order of depth, each with its exact distance from the
  start and within the depth bounds; a vertex in bounds is left out only when the limit is reached
  by vertices no deeper. It ends for every graph.\<close>
theorem traversal_exact:
  "traversal adj start (nat minDepth) (clamp defaultTraverseDepth maxTraverseDepth maxDepth)
     (clamp defaultTraverseLimit maxTraverseLimit limit) (bfs adj start minDepth maxDepth limit)"
  by (rule bfs_traversal)

text \<open>C13: the path search returns a path along edges from start to end whose length is the distance
  between them and within the depth bound, and answers nothing only when no walk within the bound
  exists.\<close>
theorem shortest_path_exact:
  assumes "from \<noteq> []" and "\<And>v. [] \<notin> set (adj v)"
  shows "case shortest adj from to maxDepth of
      Some p \<Rightarrow> is_path adj from to p \<and> at_dist adj from (length p - 1) to
        \<and> (from = to \<or> length p - 1 \<le> clamp defaultPathDepth maxPathDepth maxDepth)
    | None \<Rightarrow> \<forall>k \<le> clamp defaultPathDepth maxPathDepth maxDepth. (from, to) \<notin> step adj ^^ k"
  by (rule shortest_correct [OF assms])

theorem shortest_path_exact_witness:
  "is_path (neighborsOf (Some (buildAdj [(''a'', ''b''), (''b'', ''c''), (''a'', ''d'')] False))) ''a'' ''c'' [''a'', ''b'', ''c'']"
proof -
  let ?adj = "neighborsOf (Some (buildAdj [(''a'', ''b''), (''b'', ''c''), (''a'', ''d'')] False))"
  have "\<And>v. [] \<notin> set (?adj v)" by (auto simp: neighborsOf_set edge_set_def)
  moreover have "shortest ?adj ''a'' ''c'' 0 = Some [''a'', ''b'', ''c'']" by code_simp
  ultimately show ?thesis using shortest_path_exact [of "''a''" ?adj 0 "''c''"] by simp
qed

section \<open>Access control\<close>



text \<open>C20: what a session reads of a document has none of the fields denied to it by any permission on
  the collection or on all collections, and keeps every other field.\<close>
theorem reads_are_redacted:
  "map_of (redact_for (Some ss) name d) f =
    (if \<exists>p \<in> set (ss_perms ss). (pm_collection p = name \<or> pm_collection p = ''*'') \<and> f \<in> set (pm_fieldDeny p)
     then None else map_of d f)"
  by (auto simp: redact_for_def map_of_redactDoc set_fieldDenySet perm_covers_def)

text \<open>C22: the test that a filter does not probe a hidden field looks at exact names only: a dotted path
  into a denied field passes it and is evaluated on the hidden value.\<close>
theorem dotted_filter_probes_denied_field:
  assumes "f \<noteq> []" and "CHR ''.'' \<notin> set f" and "CHR ''.'' \<notin> set k" and "\<not> has_prefix f ''$''" and "is_scalar v"
  shows "\<not> filterTouchesFields [f] [(f @ ''.'' @ k, v)]
    \<and> match_doc rx [(f, JDoc [(k, v)])] [(f @ ''.'' @ k, v)] = Inr True"
proof -
  have hd: "hd f \<noteq> CHR ''$''" using assms(1,4) by (cases f) (auto simp: has_prefix_def)
  have pre: "\<not> has_prefix (f @ CHR ''.'' # k) ''$''" using hd assms(1) by (cases f) (auto simp: has_prefix_def)
  have log: "\<not> isLogicalOp (f @ CHR ''.'' # k)" using hd assms(1) by (cases f) (auto simp: isLogicalOp_def logical_ops_def)
  have look: "lookupMulti [(f, JDoc [(k, v)])] (f @ CHR ''.'' # k) = Some [v]"
    using assms(1-3) by (simp add: lookupMulti_def split_on_append split_on_absent)
  have "opsOf v = None" using assms(5) by (cases v) (auto simp: opsOf_def is_scalar_def)
  then have "match_doc rx [(f, JDoc [(k, v)])] [(f @ ''.'' @ k, v)] = Inr True"
    using equalJSON_refl [OF assms(5)] by (simp add: log matchPlain_def look Let_def)
  moreover have "\<not> filterTouchesFields [f] [(f @ ''.'' @ k, v)]"
    by (subst filterTouchesFields.simps) (simp add: pre)
  ultimately show ?thesis by blast
qed

theorem dotted_filter_probes_denied_field_witness:
  "match_doc (\<lambda>_. None) [(''ssn'', JDoc [(''n'', JStr ''1'')])] [(''ssn.n'', JStr ''1'')] = Inr True"
  using dotted_filter_probes_denied_field [of "''ssn''" "''n''" "JStr ''1''" "\<lambda>_. None"]
  by (simp add: has_prefix_def is_scalar_def)

section \<open>Indexes created, values compared\<close>

text \<open>C16: creating an index changes no document; it is refused for no fields, for a present index of
  the other uniqueness, and for a unique index two stored documents would violate, and otherwise
  succeeds, after which the collection has such an index, in line with its documents.\<close>
theorem ensure_index_contract:
  assumes "store_ok s" and "ensureIndex name flds unique s = (r, s')"
  shows "store_ok s' \<and> docs s' = docs s
    \<and> r = (if flds = [] then Inl ErrBadFilter
      else case find (\<lambda>idx. sameFields (ix_fields idx) flds) (indexes s name) of
          Some idx \<Rightarrow> if ix_unique idx = unique then Inr () else Inl ErrDuplicate
        | None \<Rightarrow> if unique \<and> key_clash flds (docs s name) then Inl ErrDuplicate else Inr ())
    \<and> (r = Inr () \<longrightarrow> (\<exists>idx \<in> set (indexes s' name). sameFields (ix_fields idx) flds \<and> ix_unique idx = unique))"
  using ensureIndex_spec [OF assms] by blast

theorem ensure_index_contract_witness:
  "docs (snd (ensureIndex ''c'' [''tag'', ''n''] False demo_store)) ''c'' ''a'' = Some demo_doc"
  using ensure_index_contract [OF demo_store_ok prod.collapse [symmetric], of "''c''" "[''tag'', ''n'']" False] demo_docs
  by simp





text \<open>C4: the document an update produces has no removed field, the patch's value for every other field
  of the patch except the id, and the old value for the rest.\<close>
theorem update_merges:
  assumes "distinct (map fst patch)"
  shows "map_of (remove_fields (merge_patch old patch) remove) k =
    (if k \<in> set remove then None
     else if k \<noteq> ''_id'' \<and> map_of patch k \<noteq> None then map_of patch k else map_of old k)"
proof -
  have rem: "map_of (remove_fields d ks) k = (if k \<in> set ks then None else map_of d k)" for d ks
    unfolding remove_fields_def by (induction ks arbitrary: d) auto
  have "map_of (merge_patch old patch) k = (if k \<noteq> ''_id'' \<and> map_of patch k \<noteq> None then map_of patch k else map_of old k)"
    using assms unfolding merge_patch_def
  proof (induction patch arbitrary: old)
    case (Cons p patch)
    then show ?case by (cases "k = fst p") (auto simp: map_of_eq_None_iff)
  qed simp
  then show ?thesis by (simp add: rem)
qed

theorem update_merges_witness:
  "map_of (remove_fields (merge_patch demo_doc [(''_id'', JStr ''b''), (''n'', JNull)]) [''tag'']) ''_id'' = Some (JStr ''a'')"
  using update_merges [of "[(''_id'', JStr ''b''), (''n'', JNull)]" demo_doc "[''tag'']" "''_id''"] by (simp add: demo_doc_def)

section \<open>Queries\<close>

lemma demo_contents: "docs demo_store = set_doc ''c'' ''a'' (Some demo_doc) (\<lambda>_. Map.empty)"
proof -
  have "docs demo_empty = (\<lambda>_. Map.empty)"
    unfolding demo_empty_def using ensureIndex_spec(2) [OF store_ok_new(1) prod.collapse [symmetric]] store_ok_new(2) by simp
  moreover have "fst (insertBody ''c'' ''a'' demo_doc demo_empty) = Inr ()"
    unfolding demo_empty_def demo_doc_def by code_simp
  ultimately show ?thesis
    using insertBody_refines(1) [OF demo_empty_ok demo_storable, of "''c''" "''a''"]
    unfolding demo_store_def by (auto simp: view_def spec_insert_def prod_eq_iff split: if_splits)
qed

lemma demo_docs_iff: "docs demo_store n i = Some d \<longleftrightarrow> n = ''c'' \<and> i = ''a'' \<and> d = demo_doc"
  unfolding demo_contents by (auto simp: set_doc_def)

lemma demo_ids: "ids_ok demo_store"
  by (auto simp: ids_ok_def demo_docs_iff doc_id_def demo_doc_def)

lemma demo_may: "may_query None ''c'' flt demo_store"
proof -
  have "checkReadLocked None ''c'' demo_store = Inr ()"
    unfolding demo_store_def demo_empty_def demo_doc_def by code_simp
  then show ?thesis by (simp add: may_query_def denied_def)
qed

lemma demo_indexes: "map ix_fields (indexes demo_store ''c'') = [[''tag'']]"
  unfolding demo_store_def demo_empty_def demo_doc_def by code_simp

lemma demo_plain: "idx \<in> set (indexes demo_store ''c'') \<Longrightarrow> ix_fields idx = [''tag''] \<and> plain_docs (docs demo_store ''c'') [''tag'']"
proof -
  assume "idx \<in> set (indexes demo_store ''c'')"
  then have "ix_fields idx \<in> set (map ix_fields (indexes demo_store ''c''))" by simp
  then show ?thesis
    unfolding demo_indexes
    by (auto simp: plain_docs_def plain_field_def key_scalar_def is_scalar_def neg_zero_def demo_docs_iff demo_doc_def field_or_nil_def)
qed

definition demo_filter :: document where
  "demo_filter = [(''tag'', JDoc [(''$in'', JArr [JStr ''x'', JStr ''y''])])]"

lemma demo_filter_values: "equalityValues (snd (hd demo_filter)) = Some [JStr ''x'', JStr ''y'']"
  unfolding demo_filter_def by code_simp

lemma demo_query_ok: "query_ok (docs demo_store ''c'') (indexes demo_store ''c'') demo_filter"
proof -
  have "cond_ok (snd (hd demo_filter))"
    unfolding cond_ok_def demo_filter_values
    by (auto simp: key_scalar_def is_scalar_def neg_zero_def split: option.splits)
  then show ?thesis using demo_plain by (auto simp: query_ok_def demo_filter_def)
qed

lemma demo_match: "match_doc rx demo_doc demo_filter = Inr True"
  unfolding demo_filter_def demo_doc_def
  by (simp add: isLogicalOp_def logical_ops_def matchPlain_def lookupMulti_def opsOf_def hasOpKeys_def has_prefix_def
      matchOpsMulti_def matchOps_single matchOneOp.simps toAnyList_def equalJSON_def go_eq_def and_then_def)

lemma demo_total: "total_on rx (docs demo_store ''c'') demo_filter"
  by (auto simp: total_on_def demo_docs_iff demo_match)

lemma demo_matching: "matching rx (docs demo_store ''c'') demo_filter = {''a''}"
  by (auto simp: matching_def demo_docs_iff demo_match)

text \<open>C24: \<open>Find\<close> without a sort answers, page by page, exactly the stored documents the filter
  accepts, in order of id, projected and redacted. Neither the indexes that exist, nor how the planner
  combines them, nor the number of workers, nor the order in which Go walks a map changes the answer.
  This holds for filters that do not fail on the documents, conditions on indexed fields with scalar
  values, and documents with scalars in their indexed fields (the recorded findings are about the rest).\<close>
theorem find_exact:
  assumes "store_ok s" and "ids_ok s" and "may_query sess name flt s"
    and "query_ok (docs s name) (indexes s name) flt" and "total_on rx (docs s name) flt"
    and "\<And>ids. mset (walk ids) = mset ids" and "no_sort opts"
  shows "view (findDocs rx procs walk sess name flt opts s)
      = (Inr (map (finish_doc (denied sess name) opts) (page opts (answer rx (docs s name) flt))), docs s)
    \<and> store_ok (snd (findDocs rx procs walk sess name flt opts s))"
  by (rule findDocs_answer [OF assms])

theorem find_exact_witness: "fst (findDocs (\<lambda>_. None) 4 rev None ''c'' demo_filter None demo_store) = Inr [demo_doc]"
  using find_exact [OF demo_store_ok demo_ids demo_may demo_query_ok demo_total, of rev None "\<lambda>_. None" 4]
  by (simp add: no_sort_def view_def answer_def demo_matching demo_docs page_def finish_doc_def denied_def redactDoc_def)

text \<open>C25: \<open>Count\<close> answers the number of stored documents the filter accepts, on every path: counting the
  keys of an index, counting the candidates of an exact plan, or scanning. The values of an \<open>$in\<close> must
  have different keys: the index path adds up duplicates.\<close>
theorem count_exact:
  assumes "store_ok s" and "may_query sess name flt s"
    and "query_ok (docs s name) (indexes s name) flt" and "count_ok flt" and "total_on rx (docs s name) flt"
    and "\<And>ids. mset (walk ids) = mset ids"
  shows "view (countDocs rx procs walk sess name flt s) = (Inr (card (matching rx (docs s name) flt)), docs s)
    \<and> store_ok (snd (countDocs rx procs walk sess name flt s))"
  by (rule countDocs_answer [OF assms])

theorem count_exact_witness: "fst (countDocs (\<lambda>_. None) 1 id None ''c'' demo_filter demo_store) = Inr 1"
proof -
  have "count_ok demo_filter" using demo_filter_values by (auto simp: count_ok_def demo_filter_def)
  from count_exact [OF demo_store_ok demo_may demo_query_ok this demo_total, of id "\<lambda>_. None" 1]
  show ?thesis by (simp add: view_def demo_matching)
qed

text \<open>C26: materializing candidates in parallel chunks answers what the serial loop answers, errors
  included, for any number of workers, as long as no comparison panics.\<close>
theorem parallel_scan_is_serial:
  assumes "store_ok s" and "collRO name s = Some c"
    and "\<And>i d m. docs s name i = Some d \<Longrightarrow> match_doc rx d flt \<noteq> Inl (Panicked m)"
  shows "fst (materializeRefs rx procs c ids flt rematch s) = fst (materializeRefsSerial rx c ids flt rematch s)
    \<and> docs (snd (materializeRefs rx procs c ids flt rematch s)) = docs s"
  using materialize_pick [OF assms(1,2) refl assms(3)] serial_pick [OF assms(1,2) refl] by simp

theorem parallel_scan_is_serial_witness:
  "fst (materializeRefs (\<lambda>_. None) 8 (the (collRO ''c'' demo_store)) (replicate 600 ''a'') demo_filter True demo_store)
    = fst (materializeRefsSerial (\<lambda>_. None) (the (collRO ''c'' demo_store)) (replicate 600 ''a'') demo_filter True demo_store)"
proof -
  have "collRO ''c'' demo_store = Some (the (collRO ''c'' demo_store))"
    using demo_docs by (auto simp: docs_def slot_def split: option.splits)
  from parallel_scan_is_serial [OF demo_store_ok this, of "\<lambda>_. None" demo_filter] show ?thesis
    by (simp add: demo_docs_iff demo_match)
qed

text \<open>C27: a sort by one key with a limit puts in front the documents that belong there: as many as skip
  and limit ask for, in order, and no document left out precedes one that is in. Keys are numbers or
  strings, absent ones counting as null.\<close>
theorem partial_sort_selects:
  assumes "0 < need" and "need < int (length ds)" and "sortByPartial ds [(f, dir)] need = Inr out"
    and "field_or_nil f ` set ds \<subseteq> number_keys \<or> field_or_nil f ` set ds \<subseteq> string_keys"
  shows "length out = length ds \<and> mset (take (nat need) out) \<subseteq># mset ds
    \<and> sorted_wrt (\<lambda>a b. \<not> before_by dir (field_or_nil f b) (field_or_nil f a)) (take (nat need) out)
    \<and> (\<forall>d \<in># mset ds - mset (take (nat need) out). \<forall>o' \<in> set (take (nat need) out).
         \<not> before_by dir (field_or_nil f d) (field_or_nil f o'))"
proof -
  have out: "out = top_docs f dir (nat need) ds @ drop (length (top_docs f dir (nat need) ds)) ds"
    using assms(1-3) by (simp add: sortByPartial_def Let_def)
  have n: "nat need < length ds" using assms(1,2) by simp
  from assms(4) consider "field_or_nil f ` set ds \<subseteq> number_keys" | "field_or_nil f ` set ds \<subseteq> string_keys" by blast
  then show ?thesis
  proof cases
    case 1
    from number.top_docs_best [OF this refl, of dir "nat need"] show ?thesis using n unfolding out by simp
  next
    case 2
    from text_key.top_docs_best [OF this refl, of dir "nat need"] show ?thesis using n unfolding out by simp
  qed
qed

theorem partial_sort_selects_witness:
  "sorted_wrt (\<lambda>a b. \<not> before_by 1 (field_or_nil ''k'' b) (field_or_nil ''k'' a))
     (take 2 (case sortByPartial [[(''k'', JStr ''c'')], [(''k'', JStr ''a'')], [(''k'', JStr ''b'')]] [(''k'', 1)] 2 of Inr out \<Rightarrow> out))"
proof -
  obtain out where o: "sortByPartial [[(''k'', JStr ''c'')], [(''k'', JStr ''a'')], [(''k'', JStr ''b'')]] [(''k'', 1)] 2 = Inr out"
    by (simp add: sortByPartial_def Let_def)
  from partial_sort_selects [OF _ _ this] show ?thesis by (simp add: o field_or_nil_def string_keys_def)
qed

text \<open>C28: a full sort keeps every document, but \<open>sortBy\<close> compares keys taken before the sort at
  positions whose documents have moved since: three documents with the keys c, a, b come out as a, c, b.\<close>
theorem sort_uses_stale_keys:
  "sortBy ds spec \<in> range Inl \<union> Inr ` {out. mset out = mset ds}
    \<and> sortBy [[(''_id'', JStr ''1''), (''k'', JStr ''c'')], [(''_id'', JStr ''2''), (''k'', JStr ''a'')],
              [(''_id'', JStr ''3''), (''k'', JStr ''b'')]] [(''k'', 1)]
      = Inr [[(''_id'', JStr ''2''), (''k'', JStr ''a'')], [(''_id'', JStr ''1''), (''k'', JStr ''c'')],
             [(''_id'', JStr ''3''), (''k'', JStr ''b'')]]"
proof -
  have "sortBy ds spec \<in> range Inl \<union> Inr ` {out. mset out = mset ds}"
    using mset_sortBy [of ds spec] by (cases "sortBy ds spec") auto
  moreover have "sortBy [[(''_id'', JStr ''1''), (''k'', JStr ''c'')], [(''_id'', JStr ''2''), (''k'', JStr ''a'')],
              [(''_id'', JStr ''3''), (''k'', JStr ''b'')]] [(''k'', 1)]
      = Inr [[(''_id'', JStr ''2''), (''k'', JStr ''a'')], [(''_id'', JStr ''1''), (''k'', JStr ''c'')],
             [(''_id'', JStr ''3''), (''k'', JStr ''b'')]]" by code_simp
  ultimately show ?thesis by blast
qed

text \<open>The index path of \<open>Count\<close> adds up the values of an \<open>$in\<close> one by one, so a value listed twice
  counts its documents twice, while \<open>Find\<close> answers each once.\<close>
theorem count_adds_duplicates:
  "fst (countDocs (\<lambda>_. None) 1 id None ''c'' [(''tag'', JDoc [(''$in'', JArr [JStr ''x'', JStr ''x''])])] demo_store) = Inr 2
    \<and> fst (findDocs (\<lambda>_. None) 1 id None ''c'' [(''tag'', JDoc [(''$in'', JArr [JStr ''x'', JStr ''x''])])] None demo_store)
      = Inr [demo_doc]"
  unfolding demo_store_def demo_empty_def demo_doc_def by code_simp

text \<open>\<open>Explain\<close> checks no permission: with users defined, a raw caller that may read nothing still
  learns the size of every collection, system collections included, and how many documents the
  indexes find for a condition.\<close>
theorem explain_without_permission:
  assumes "store_ok s" and "authActiveLocked s"
  shows "checkReadLocked None name s = Inl ErrUnauthorized
    \<and> er_CollectionSize (fst (explain name flt s)) = card (dom (docs s name))"
proof (cases "collRO name s")
  case None
  then have "docs s name = Map.empty" by (auto simp: docs_def slot_def)
  then show ?thesis using assms None by (simp add: checkReadLocked_def explain_def)
next
  case (Some c)
  have "card (dom (docs s name)) = length (c_entries c)"
    using store_ok_keys [OF assms(1) Some] docs_dom [OF assms(1) Some] distinct_card [of "map fst (c_entries c)"]
    by (simp add: distinct_keys_def)
  then show ?thesis using assms(2) Some by (simp add: checkReadLocked_def explain_def Let_def split: prod.splits)
qed

theorem explain_without_permission_witness:
  "er_CollectionSize (fst (explain ''_users'' [] (snd (insertBody ''_users'' ''u'' [(''_id'', JStr ''u'')] newStore)))) = 1"
proof -
  let ?s = "snd (insertBody ''_users'' ''u'' [(''_id'', JStr ''u'')] newStore)"
  have st: "storable [(''_id'', JStr ''u'')]" by (simp add: storable_iff json_ok_def)
  have ok: "store_ok ?s" by (rule insertBody_refines(2) [OF store_ok_new(1) st])
  have "authActiveLocked ?s" by code_simp
  note ex = explain_without_permission [OF ok this, of "''_users''" "[]"]
  have "er_CollectionSize (fst (explain ''_users'' [] ?s)) = 1" by code_simp
  then show ?thesis using ex by simp
qed

section \<open>Hooks\<close>

text \<open>C29: mutations keep the invariant of the store, whatever hooks are registered, to any depth of
  nesting and with asynchronous ones in the queue, as long as each hook function is safe: it acts on
  the store only through its context, and leaves a document about to be stored encodable and under
  its id. This includes dropping a collection, which deletes its documents through their hooks.\<close>
theorem hooks_keep_invariant:
  assumes "env_safe env" and "good s"
  shows "good (snd (insertDocFrame (top_runner env) (he_wait env) auto sess name doc s))
    \<and> good (snd (upsertDocFrame (top_runner env) (he_wait env) sess name did doc s))
    \<and> good (snd (updateDocFrame (top_runner env) (he_wait env) sess name did patch remove s))
    \<and> good (snd (deleteDocFrame (top_runner env) (he_wait env) sess name did s))
    \<and> good (snd (dropCollection (top_runner env) (he_wait env) sess name s))"
proof -
  have r: "runner_safe (top_runner env)" unfolding top_runner_def by (rule runner_safe [OF assms(1)])
  have w: "\<And>s. good s \<Longrightarrow> good (he_wait env s)" using assms(1) by (simp add: env_safe_def)
  show ?thesis
    using good_insertDocFrame [OF r w assms(2)] good_upsertDocFrame [OF r w assms(2)] good_updateDocFrame [OF r w assms(2)]
      good_deleteDocFrame [OF r w assms(2)] good_dropCollection [OF r w assms(2)] by simp
qed

text \<open>An environment whose every hook writes a log entry.\<close>

definition log_env :: hook_env where
  "log_env = \<lparr>he_fn = (\<lambda>_ api ctx s. case api_Insert api ''log'' [(''ev'', JStr (hx_event ctx))] s of (r, s') \<Rightarrow> (r, hx_doc ctx, s')),
     he_wait = id, he_full = id, he_ulid = (\<lambda>s. itoa (st_next s)), he_rx = (\<lambda>_. None), he_procs = 1, he_walk = id\<rparr>"

lemma log_env_safe: "env_safe log_env"
proof -
  have "fn_safe (he_fn log_env i)" for i
    unfolding fn_safe_def log_env_def using api_safeD(4) by (auto split: prod.splits) (metis snd_conv)+
  then show ?thesis by (simp add: env_safe_def log_env_def)
qed

lemma demo_good: "good demo_store"
  using demo_store_ok demo_ids by (simp add: good_def)

definition hooked_store :: store where
  "hooked_store = demo_store\<lparr>st_hooks := [\<lparr>hk_id = 1, hk_event = ''before_insert'', hk_coll = [], hk_async = False\<rparr>]\<rparr>"

lemma hooked_good: "good hooked_store"
proof -
  have "doc_at hooked_store a = doc_at demo_store a" for a by (simp add: hooked_store_def doc_at_def)
  then have "store_ok hooked_store \<and> docs hooked_store = docs demo_store"
    using store_ok_slots [OF demo_store_ok] by (intro store_ok_same [OF demo_store_ok]) (auto simp: hooked_store_def slots_ok_def)
  then show ?thesis using good_docs [OF _ _ demo_good] by blast
qed

theorem hooks_keep_invariant_witness:
  "good (snd (insertDocFrame (top_runner log_env) id ''z'' None ''c'' [(''tag'', JStr ''y'')] hooked_store))"
  using hooks_keep_invariant [OF log_env_safe hooked_good, of "''z''" None "''c''" "[(''tag'', JStr ''y'')]"] by (simp add: log_env_def)

text \<open>C30: hooks nest to a bounded depth whatever their functions do: once the depth the runner may still
  go and the hooks entered reach the limit of eight, more makes no difference.\<close>
theorem hook_depth_bound:
  assumes "maxHookDepth \<le> n + length fr"
  shows "runner env (n + k) fr = runner env n fr"
  by (rule runner_enough) (use assms in simp_all)

theorem hook_depth_bound_witness: "runner log_env 100 [] = top_runner log_env"
  using hook_depth_bound [of maxHookDepth "[]" log_env 92] by (simp add: top_runner_def maxHookDepth_def)

text \<open>C31: a hook is never entered again while it runs: a mutation it makes that would call it fails with
  \<open>ErrHookCycle\<close> (or \<open>ErrHookDepth\<close>), and which function it has makes no difference to what happens inside.\<close>
theorem hook_not_reentered:
  assumes "i \<in> set fr"
  shows "runner (env\<lparr>he_fn := (he_fn env)(i := g)\<rparr>) n fr = runner env n fr
    \<and> (hk_id r = i \<longrightarrow> beginHookErr fr r \<in> {Inl ErrHookCycle, Inl ErrHookDepth})"
  using runner_no_reentry [OF assms] assms by (auto simp: beginHookErr_def)

theorem hook_not_reentered_witness:
  "beginHookErr [1] \<lparr>hk_id = 1, hk_event = ''before_insert'', hk_coll = ''c'', hk_async = False\<rparr> = Inl ErrHookCycle
    \<and> runner (log_env\<lparr>he_fn := (he_fn log_env)(1 := (\<lambda>_ ctx s. (Inr (), hx_doc ctx, s)))\<rparr>) 7 [1] = runner log_env 7 [1]"
  using hook_not_reentered [of 1 "[1]" log_env "\<lambda>_ ctx s. (Inr (), hx_doc ctx, s)" 7] by (simp add: beginHookErr_def maxHookDepth_def)

section \<open>Triggers\<close>

text \<open>C32: mutations of a store whose triggers do not unset the id keep the invariant, at any nesting of the
  mutations the triggers make themselves.\<close>
theorem triggers_keep_invariant:
  assumes "env_safe env" and "good s"
    and "\<And>i t. map_of (ts_fns ts) i = Some t \<Longrightarrow> \<forall>a \<in> set (tr_Actions t). action_ok a"
  shows "good (snd (insertDocFrame (top_runner (trigger_env env ts)) (he_wait env) auto sess name doc s))
    \<and> good (snd (upsertDocFrame (top_runner (trigger_env env ts)) (he_wait env) sess name did doc s))
    \<and> good (snd (updateDocFrame (top_runner (trigger_env env ts)) (he_wait env) sess name did patch remove s))
    \<and> good (snd (deleteDocFrame (top_runner (trigger_env env ts)) (he_wait env) sess name did s))"
proof -
  have r: "runner_safe (top_runner (trigger_env env ts))"
    unfolding top_runner_def by (rule runner_safe [OF trigger_env_safe [OF assms(1,3)]])
  have w: "\<And>s. good s \<Longrightarrow> good (he_wait env s)" using assms(1) by (simp add: env_safe_def)
  show ?thesis
    using good_insertDocFrame [OF r w assms(2)] good_upsertDocFrame [OF r w assms(2)] good_updateDocFrame [OF r w assms(2)]
      good_deleteDocFrame [OF r w assms(2)] by simp
qed

definition audit_rule :: trigger where
  "audit_rule = \<lparr>tr_ID = ''audit'', tr_Event = ''after_insert'', tr_Collection = ''c'', tr_Enabled = Some True, tr_Async = False,
     tr_Filter = [(''tag'', JStr ''y'')],
     tr_Actions = [\<lparr>ta_Type = ''insert'', ta_Collection = ''log'', ta_ID = JNull, ta_Doc = [(''of'', JMap [(''$get'', JStr ''doc._id'')])],
       ta_Fields = [], ta_Names = [], ta_Set = []\<rparr>]\<rparr>"

theorem triggers_keep_invariant_witness:
  "good (snd (insertDocFrame (top_runner (trigger_env log_env (no_triggers\<lparr>ts_fns := [(1, audit_rule)]\<rparr>))) id ''z'' None ''c''
    [(''tag'', JStr ''y'')] demo_store))"
proof -
  let ?ts = "no_triggers\<lparr>ts_fns := [(1, audit_rule)]\<rparr>"
  have "\<forall>a \<in> set (tr_Actions t). action_ok a" if "map_of (ts_fns ?ts) i = Some t" for i t
    using that by (auto simp: audit_rule_def action_ok_def vals_ok_def split: if_splits)
  from conjunct1 [OF triggers_keep_invariant [where ts = ?ts, OF log_env_safe demo_good this, where auto = "''z''" and sess = None and name = "''c''" and doc = "[(''tag'', JStr ''y'')]"]]
  show ?thesis by (simp add: log_env_def)
qed

text \<open>C33: a trigger written as a document of \<open>_triggers\<close> and read back on opening is the same trigger, whatever
  fields it has, given texts in UTF-8 and values as JSON decodes them.\<close>
theorem trigger_round_trip:
  assumes "clean_trigger t"
  shows "\<exists>d. triggerToDoc t = Inr d \<and> docToTrigger d = Inr t"
  by (rule trigger_read_back [OF assms])

theorem trigger_round_trip_witness: "\<exists>d. triggerToDoc audit_rule = Inr d \<and> docToTrigger d = Inr audit_rule"
proof -
  have "clean_trigger audit_rule" by code_simp
  then show ?thesis by (rule trigger_round_trip)
qed

text \<open>A trigger may take the id out of a document about to be inserted: two such documents, and a query over
  the collection panics.\<close>
theorem trigger_unset_id_breaks_find:
  "fst (CreateTrigger id ''t'' unset_rule (no_triggers, newStore)) = Inr ''r''
    \<and> fst (findDocs (\<lambda>_. None) 1 id None ''c'' [] None (insert_x (fst ruled) ''b'' (insert_x (fst ruled) ''a'' (snd ruled))))
      = Inl (Panicked ''interface conversion'')"
  unfolding inserted_without_id unfolding ruled_eval(1) by (intro conjI; code_simp)

end
